(* ===== verification/Prelude.thy ===== *)
theory Prelude
  imports Main "HOL-Library.Word"
begin

text \<open>
  Shared vocabulary of the development: the byte and machine-word types of the C++ code,
  the conversions between a byte vector and a \<^verbatim>\<open>std::string\<close>, big-endian encoding of a
  word of any width as a list of bytes (with both round trips), and list lemmas used by
  the codecs.  The collections \<open>bytes_simps\<close> and \<open>frame_simps\<close> are filled by the component
  theories: the first with the closed forms of the byte writers, the second with the
  facts that an operation leaves a part of the state alone.
\<close>

unbundle bit_operations_syntax

named_theorems bytes_simps "closed forms of byte writers and readers"
named_theorems frame_simps "parts of the state an operation does not change"

section \<open>Types\<close>

type_synonym byte = "8 word"
type_synonym u16 = "16 word"
type_synonym u32 = "32 word"
type_synonym u64 = "64 word"
type_synonym bytes = "byte list"

text \<open>
  A signed 64-bit value (\<^verbatim>\<open>std::int64_t\<close>) is an \<open>int\<close>; \<open>is_i64\<close> is its range, and the two
  casts between it and \<^verbatim>\<open>std::uint64_t\<close> are two's complement.
\<close>

definition is_i64 :: "int \<Rightarrow> bool" where
  "is_i64 x \<longleftrightarrow> - (2 ^ 63) \<le> x \<and> x < 2 ^ 63"

definition u64_of_i64 :: "int \<Rightarrow> u64" where
  "u64_of_i64 x = word_of_int x"

definition i64_of_u64 :: "u64 \<Rightarrow> int" where
  "i64_of_u64 w = sint w"

lemma i64_of_u64_of_i64 [simp]: "is_i64 x \<Longrightarrow> i64_of_u64 (u64_of_i64 x) = x"
  by (simp add: is_i64_def i64_of_u64_def u64_of_i64_def signed_of_int signed_take_bit_int_eq_self)

lemma is_i64_of_u64 [simp]: "is_i64 (i64_of_u64 w)"
  using sint_range_size [of w] by (simp add: is_i64_def i64_of_u64_def word_size)

lemma u64_of_i64_of_u64 [simp]: "u64_of_i64 (i64_of_u64 w) = w"
  by (simp add: i64_of_u64_def u64_of_i64_def)

section \<open>Strings as bytes\<close>

text \<open>
  \<^verbatim>\<open>Bytes(s.begin(), s.end())\<close> and \<^verbatim>\<open>std::string(b.begin(), b.end())\<close>: a C++ string is a
  sequence of bytes, a HOL \<open>string\<close> a sequence of 8-bit characters.
\<close>

definition bytes_of_string :: "string \<Rightarrow> bytes" where
  "bytes_of_string s = map of_char s"

definition string_of_bytes :: "bytes \<Rightarrow> string" where
  "string_of_bytes b = map (\<lambda>x. char_of (unat x)) b"

lemma unat_of_char [simp]: "unat (of_char c :: byte) = of_char c"
proof -
  have "(of_char c :: byte) = word_of_nat (of_char c)" by (simp add: of_nat_of_char)
  then show ?thesis
    using nat_of_char_less_256 [of c] by (simp add: unsigned_of_nat take_bit_nat_eq_self)
qed

lemma of_char_char_of_unat [simp]: "of_char (char_of (unat (x :: byte)) :: char) = x"
proof -
  have "unat x < 256" using unsigned_less [of x] by simp
  have "of_char (char_of (unat x) :: char) = (of_nat (of_char (char_of (unat x) :: char)) :: byte)"
    by (simp only: of_nat_of_char)
  also have "\<dots> = x" using \<open>unat x < 256\<close> by simp
  finally show ?thesis .
qed

lemma string_of_bytes_of_string [simp]: "string_of_bytes (bytes_of_string s) = s"
  by (simp add: string_of_bytes_def bytes_of_string_def comp_def)

lemma bytes_of_string_of_bytes [simp]: "bytes_of_string (string_of_bytes b) = b"
  by (simp add: string_of_bytes_def bytes_of_string_def comp_def)

lemma length_bytes_of_string [simp]: "length (bytes_of_string s) = length s"
  by (simp add: bytes_of_string_def)

lemma length_string_of_bytes [simp]: "length (string_of_bytes b) = length b"
  by (simp add: string_of_bytes_def)

lemma bytes_of_string_inject [simp]: "bytes_of_string s = bytes_of_string t \<longleftrightarrow> s = t"
  by (metis string_of_bytes_of_string)

lemma string_of_bytes_inject [simp]: "string_of_bytes a = string_of_bytes b \<longleftrightarrow> a = b"
  by (metis bytes_of_string_of_bytes)

lemma bytes_of_string_eq_Nil [simp]: "bytes_of_string s = [] \<longleftrightarrow> s = []"
  by (simp add: bytes_of_string_def)

lemma string_of_bytes_eq_Nil [simp]: "string_of_bytes b = [] \<longleftrightarrow> b = []"
  by (simp add: string_of_bytes_def)

section \<open>Big-endian words\<close>

text \<open>
  \<open>byte_at s v\<close> is \<^verbatim>\<open>static_cast<std::uint8_t>((v >> s) & 0xFF)\<close>; \<open>be_step b v\<close> is the body
  \<^verbatim>\<open>v = (v << 8) | b\<close> of the readers' loops.
\<close>

definition byte_at :: "nat \<Rightarrow> 'a::len word \<Rightarrow> byte" where
  "byte_at s v = ucast (drop_bit s v AND 0xFF)"

definition be_step :: "byte \<Rightarrow> 'a::len word \<Rightarrow> 'a word" where
  "be_step b v = push_bit 8 v OR ucast b"

definition be_bytes :: "nat \<Rightarrow> 'a::len word \<Rightarrow> bytes" where
  "be_bytes n v = map (\<lambda>i. byte_at (8 * i) v) (rev [0..<n])"

definition be_word :: "bytes \<Rightarrow> 'a::len word" where
  "be_word bs = fold be_step bs 0"

lemma bit_FF: "bit (0xFF :: 'a::len word) n \<longleftrightarrow> n < 8 \<and> n < LENGTH('a)"
proof -
  have "(0xFF :: 'a word) = mask 8" by (simp add: mask_eq_exp_minus_1)
  then show ?thesis by (simp only: bit_mask_iff possible_bit_word) auto
qed

lemma bit_byte_at: "bit (byte_at s v) n \<longleftrightarrow> n < 8 \<and> bit v (s + n)"
  unfolding byte_at_def
  by (simp only: bit_ucast_iff bit_and_iff bit_drop_bit_eq comp_def bit_FF possible_bit_word)
     (auto dest: bit_imp_le_length)

lemma bit_be_step:
  "bit (be_step b v :: 'a::len word) n \<longleftrightarrow>
     n < LENGTH('a) \<and> (if n < 8 then bit b n else bit v (n - 8))"
  unfolding be_step_def
  by (simp only: bit_or_iff bit_push_bit_iff bit_ucast_iff possible_bit_word)
     (auto dest: bit_imp_le_length)

lemma length_be_bytes [simp]: "length (be_bytes n v) = n"
  by (simp add: be_bytes_def)

lemma nth_be_bytes: "i < n \<Longrightarrow> be_bytes n v ! i = byte_at (8 * (n - 1 - i)) v"
  by (simp add: be_bytes_def rev_nth)

lemma bit_fold_be_step:
  "bit (fold be_step bs acc :: 'a::len word) n \<longleftrightarrow> n < LENGTH('a) \<and>
     (if n < 8 * length bs then bit (bs ! (length bs - 1 - n div 8)) (n mod 8)
      else bit acc (n - 8 * length bs))"
proof (induction bs arbitrary: acc)
  case Nil
  then show ?case by (auto dest: bit_imp_le_length)
next
  case (Cons b bs)
  consider (lo) "n < 8 * length bs" | (mid) "8 * length bs \<le> n" "n < 8 * length bs + 8"
    | (hi) "8 * length bs + 8 \<le> n" by linarith
  then show ?case
  proof cases
    case lo
    then have "n div 8 < length bs" by linarith
    then have "length bs - n div 8 = Suc (length bs - 1 - n div 8)" by linarith
    with lo show ?thesis by (simp add: Cons.IH)
  next
    case mid
    then have "n div 8 = length bs" "n mod 8 = n - 8 * length bs"
      by (auto simp: div_nat_eqI algebra_simps modulo_nat_def)
    with mid show ?thesis by (auto simp: Cons.IH bit_be_step)
  next
    case hi
    then show ?thesis by (auto simp: Cons.IH bit_be_step algebra_simps)
  qed
qed

text \<open>Encoding a word and reading it back gives the word, and the other way round.\<close>

lemma be_word_be_bytes:
  assumes "8 * n = LENGTH('a)"
  shows "be_word (be_bytes n v) = (v :: 'a::len word)"
proof (rule bit_word_eqI)
  fix k assume k: "k < LENGTH('a)"
  then have "k div 8 < n" using assms by linarith
  then have "be_bytes n v ! (n - 1 - k div 8) = byte_at (8 * (k div 8)) v"
    by (simp add: nth_be_bytes)
  with k assms show "bit (be_word (be_bytes n v) :: 'a word) k = bit v k"
    by (simp add: be_word_def bit_fold_be_step bit_byte_at)
qed

lemma be_bytes_be_word:
  assumes "8 * length bs = LENGTH('a)"
  shows "be_bytes (length bs) (be_word bs :: 'a::len word) = bs"
proof (rule nth_equalityI)
  fix i assume "i < length (be_bytes (length bs) (be_word bs :: 'a word))"
  then have i: "i < length bs" by simp
  show "be_bytes (length bs) (be_word bs :: 'a word) ! i = bs ! i"
  proof (rule bit_word_eqI)
    fix k assume "k < LENGTH(8)"
    then have k: "k < 8" by simp
    let ?p = "8 * (length bs - 1 - i) + k"
    have "?p div 8 = length bs - 1 - i" "?p mod 8 = k" using k by auto
    moreover have "?p < 8 * length bs" using i k by linarith
    ultimately show "bit (be_bytes (length bs) (be_word bs :: 'a word) ! i) k = bit (bs ! i) k"
      using i k assms by (simp add: nth_be_bytes bit_byte_at be_word_def bit_fold_be_step)
  qed
qed simp

text \<open>The two loop shapes of the source: a descending shift, and an ascending index.\<close>

lemma fold_push_back [bytes_simps]: "fold (\<lambda>s out. out @ [f s]) ss out = out @ map f ss"
  by (induction ss arbitrary: out) auto

lemma be_bytes_2 [bytes_simps]: "[byte_at 8 v, byte_at 0 v] = be_bytes 2 v"
  by (simp add: be_bytes_def numeral_eq_Suc)

lemma be_bytes_4 [bytes_simps]: "map (\<lambda>s. byte_at s v) [24, 16, 8, 0] = be_bytes 4 v"
  by (simp add: be_bytes_def upt_rec)

lemma be_bytes_8 [bytes_simps]:
  "map (\<lambda>s. byte_at s v) [56, 48, 40, 32, 24, 16, 8, 0] = be_bytes 8 v"
  by (simp add: be_bytes_def upt_rec)

lemma map_nth_shift: "off + n \<le> length b \<Longrightarrow> map (\<lambda>i. b ! (off + i)) [0..<n] = take n (drop off b)"
  by (rule nth_equalityI) auto

lemma fold_be_step_nth:
  assumes "off + n \<le> length b"
  shows "fold (\<lambda>i. be_step (b ! (off + i))) [0..<n] acc = fold be_step (take n (drop off b)) acc"
proof -
  have "fold (\<lambda>i. be_step (b ! (off + i))) [0..<n] acc
      = fold be_step (map (\<lambda>i. b ! (off + i)) [0..<n]) acc"
    by (simp add: fold_map comp_def)
  then show ?thesis by (simp only: map_nth_shift [OF assms])
qed

section \<open>Lists\<close>

lemma take_drop_append3 [simp]:
  "take (length b) (drop (length a) (a @ b @ c)) = b"
  by simp

lemma take_append_drop_slice: "off + n \<le> length b \<Longrightarrow> take off b @ take n (drop off b) @ drop (off + n) b = b"
  by (metis append_take_drop_id drop_drop add.commute)

lemma unat_of_nat_u16 [simp]: "n < 65536 \<Longrightarrow> unat (of_nat n :: u16) = n"
  by (simp add: unat_of_nat take_bit_nat_eq_self)

lemma unat_of_nat_u32 [simp]: "n < 4294967296 \<Longrightarrow> unat (of_nat n :: u32) = n"
  by (simp add: unat_of_nat take_bit_nat_eq_self)

end
