(* ===== verification/Hex.thy ===== *)
theory Hex
  imports Prelude
begin

text \<open>
  Lowercase hex encoding (\<^verbatim>\<open>libs/core/include/openmesh/core/hex.hpp\<close>), which turns a public
  key into the key of every table of the engine and the servers, and the hex parser of
  the command-line client (\<^verbatim>\<open>cli/src/main.cpp\<close>).  The encoding is injective, so a table
  keyed by hex strings is a table keyed by public keys.
\<close>

definition kHex :: string where "kHex = ''0123456789abcdef''"

definition to_hex :: "bytes \<Rightarrow> string" where
  "to_hex b = fold (\<lambda>x out. (out @ [kHex ! unat (drop_bit 4 x)]) @ [kHex ! unat (x AND 0x0F)]) b []"

text \<open>The lambda \<^verbatim>\<open>nibble\<close> of \<^verbatim>\<open>from_hex\<close>: \<open>-1\<close> for a character that is no hex digit.\<close>

definition nibble :: "char \<Rightarrow> int" where
  "nibble c = (let n = int (of_char c) in
     if 48 \<le> n \<and> n \<le> 57 then n - 48
     else if 97 \<le> n \<and> n \<le> 102 then n - 97 + 10
     else if 65 \<le> n \<and> n \<le> 70 then n - 65 + 10
     else -1)"

fun from_hex_loop :: "string \<Rightarrow> bytes \<Rightarrow> bytes option" where
  "from_hex_loop (h # l # rest) out =
     (let hi = nibble h; lo = nibble l in
      if hi < 0 \<or> lo < 0 then None
      else from_hex_loop rest (out @ [word_of_int (push_bit 4 hi OR lo)]))"
| "from_hex_loop _ out = Some out"

definition from_hex :: "string \<Rightarrow> bytes option" where
  "from_hex hex = (if length hex mod 2 \<noteq> 0 then None else from_hex_loop hex [])"

section \<open>Round trip\<close>

definition hex_pair :: "byte \<Rightarrow> string" where
  "hex_pair x = [kHex ! unat (drop_bit 4 x), kHex ! unat (x AND 0x0F)]"

lemma to_hex_eq: "to_hex b = concat (map hex_pair b)"
proof -
  have "fold (\<lambda>x out. (out @ [kHex ! unat (drop_bit 4 x)]) @ [kHex ! unat (x AND 0x0F)]) b out
      = out @ concat (map hex_pair b)" for out
    by (induction b arbitrary: out) (simp_all add: hex_pair_def)
  then show ?thesis by (simp add: to_hex_def)
qed

lemma to_hex_Nil [simp]: "to_hex [] = []"
  by (simp add: to_hex_def)

lemma to_hex_Cons: "to_hex (x # b) = hex_pair x @ to_hex b"
  by (simp add: to_hex_eq)

lemma length_to_hex [simp]: "length (to_hex b) = 2 * length b"
  by (induction b) (simp_all add: to_hex_Cons hex_pair_def)

lemma nibble_kHex: "n < 16 \<Longrightarrow> nibble (kHex ! n) = int n"
proof -
  assume "n < 16"
  then have "n \<in> set [0, 1, 2, 3, 4, 5, 6, 7, 8, 9, 10, 11, 12, 13, 14, 15]"
    by simp arith
  then show ?thesis by (auto simp: kHex_def nibble_def)
qed

lemma unat_high_nibble: "unat (drop_bit 4 (x :: byte)) < 16"
proof -
  have "unat x < 256" using unsigned_less [of x] by simp
  moreover have "unat (drop_bit 4 x) = unat x div 16"
    using \<open>unat x < 256\<close> by (simp only: unsigned_drop_bit_eq) (simp add: drop_bit_eq_div take_bit_nat_eq_self)
  ultimately show ?thesis by simp
qed

lemma unat_low_nibble: "unat ((x :: byte) AND 0x0F) < 16"
proof -
  have "x AND 0x0F = take_bit 4 x" by (simp add: take_bit_eq_mask mask_eq_exp_minus_1)
  then show ?thesis by (simp add: unsigned_take_bit_eq take_bit_nat_less_exp [of 4, simplified])
qed

lemma nibbles_join:
  "(word_of_int (push_bit 4 (uint (drop_bit 4 (x :: byte))) OR uint (x AND 0x0F)) :: byte) = x"
proof (rule bit_word_eqI)
  have low: "x AND 0x0F = take_bit 4 x" by (simp add: take_bit_eq_mask mask_eq_exp_minus_1)
  fix n assume "n < LENGTH(8)"
  then show "bit (word_of_int (push_bit 4 (uint (drop_bit 4 x)) OR uint (x AND 0x0F)) :: byte) n
      = bit x n"
    unfolding low
    by (simp only: bit_word_of_int_iff bit_or_iff bit_push_bit_iff bit_unsigned_iff
        bit_drop_bit_eq bit_take_bit_iff comp_def possible_bit_int)
      (auto simp: possible_bit_def not_less)
qed

lemma from_hex_loop_to_hex: "from_hex_loop (to_hex b) out = Some (out @ b)"
  by (induction b arbitrary: out)
    (simp_all add: to_hex_Cons hex_pair_def nibble_kHex unat_high_nibble unat_low_nibble nibbles_join Let_def)

lemma from_hex_to_hex_eq: "from_hex (to_hex b) = Some b"
  by (simp add: from_hex_def from_hex_loop_to_hex)

lemma to_hex_inject [simp]: "to_hex a = to_hex b \<longleftrightarrow> a = b"
  by (metis from_hex_to_hex_eq option.inject)

lemma to_hex_eq_Nil [simp]: "to_hex b = [] \<longleftrightarrow> b = []"
  by (metis to_hex_Nil to_hex_inject)

lemma from_hex_loop_length: "from_hex_loop s out = Some b \<Longrightarrow> length b = length out + length s div 2"
  by (induction s out rule: from_hex_loop.induct) (auto simp: Let_def split: if_splits)

text \<open>
  Hex encoding and the client's hex parser are inverse: the parser returns the key a
  hex string was made from, distinct keys have distinct hex strings, and a parsed string
  of \<open>2n\<close> digits has \<open>n\<close> bytes (so a 64-digit argument is a 32-byte key).
\<close>

theorem hex_roundtrip:
  "from_hex (to_hex b) = Some b \<and> inj to_hex \<and>
   (from_hex s = None \<or> (\<exists>k. from_hex s = Some k \<and> 2 * length k = length s))"
proof (intro conjI)
  show "inj to_hex" by (simp add: inj_def)
  show "from_hex s = None \<or> (\<exists>k. from_hex s = Some k \<and> 2 * length k = length s)"
  proof (cases "from_hex s")
    case (Some k)
    then have "length k = length s div 2" "length s mod 2 = 0"
      by (auto simp: from_hex_def dest: from_hex_loop_length split: if_splits)
    then have "2 * length k = length s" by presburger
    with Some show ?thesis by simp
  qed simp
qed (rule from_hex_to_hex_eq)

end
