(* ===== verification/Endpoint.thy ===== *)
theory Endpoint
  imports Prelude
begin

text \<open>
  Endpoints and their textual form (\<^verbatim>\<open>libs/net/include/openmesh/net/endpoint.hpp\<close>), the
  \<^verbatim>\<open>strtoul\<close> of the C library in base 10, and the \<^verbatim>\<open>host:port\<close> parser that the signaling
  client, the engine and the command line share.  The text a server sends for an endpoint
  is read back as that endpoint, for every host (colons included) and port.
\<close>

record Endpoint =
  host :: string
  port :: u16

definition default_endpoint :: Endpoint where
  "default_endpoint = \<lparr>host = [], port = 0\<rparr>"

datatype ConnectPath = Direct | NatTraversal | RelayPath

definition connect_path_name :: "ConnectPath \<Rightarrow> string" where
  "connect_path_name p = (case p of
      Direct \<Rightarrow> ''direct'' | NatTraversal \<Rightarrow> ''nat-traversal'' | RelayPath \<Rightarrow> ''relay'')"

section \<open>Decimal numbers\<close>

definition digit_char :: "nat \<Rightarrow> char" where
  "digit_char d = char_of (48 + d)"

text \<open>\<^verbatim>\<open>std::to_string\<close> of an unsigned value.\<close>

fun dec_string :: "nat \<Rightarrow> string" where
  "dec_string n = (if n < 10 then [digit_char n] else dec_string (n div 10) @ [digit_char (n mod 10)])"

declare dec_string.simps [simp del]

definition is_space :: "char \<Rightarrow> bool" where
  "is_space c \<longleftrightarrow> (let n = (of_char c :: nat) in n = 32 \<or> (9 \<le> n \<and> n \<le> 13))"

definition is_digit :: "char \<Rightarrow> bool" where
  "is_digit c \<longleftrightarrow> (let n = (of_char c :: nat) in 48 \<le> n \<and> n \<le> 57)"

definition digit_value :: "char \<Rightarrow> nat" where
  "digit_value c = of_char c - 48"

text \<open>
  \<^verbatim>\<open>strtoul(s, nullptr, 10)\<close>: leading white space, an optional sign, then decimal digits up to
  the first other character.  A value beyond \<^verbatim>\<open>ULONG_MAX\<close> saturates; a minus sign negates
  modulo \<open>2^64\<close>; no digits give 0.
\<close>

definition strtoul :: "string \<Rightarrow> u64" where
  "strtoul s =
     (let s = dropWhile is_space s;
          neg = (s \<noteq> [] \<and> hd s = CHR ''-'');
          s = (if s \<noteq> [] \<and> (hd s = CHR ''-'' \<or> hd s = CHR ''+'') then tl s else s);
          v = fold (\<lambda>c n. 10 * n + digit_value c) (takeWhile is_digit s) 0
      in if v > 2 ^ 64 - 1 then - 1 else if neg then - of_nat v else of_nat v)"

definition endpoint_to_string :: "Endpoint \<Rightarrow> string" where
  "endpoint_to_string ep = host ep @ CHR '':'' # dec_string (unat (port ep))"

text \<open>\<^verbatim>\<open>s.rfind(c)\<close>: the index of the last occurrence.\<close>

definition rfind :: "char \<Rightarrow> string \<Rightarrow> nat option" where
  "rfind c s = (if c \<in> set s then Some (length s - 1 - length (takeWhile (\<lambda>x. x \<noteq> c) (rev s))) else None)"

text \<open>The \<^verbatim>\<open>parse_endpoint\<close> of the command line takes a string.\<close>

definition parse_endpoint_string :: "string \<Rightarrow> Endpoint option" where
  "parse_endpoint_string s =
     (case rfind CHR '':'' s of None \<Rightarrow> None
      | Some pos \<Rightarrow>
          if pos + 1 \<ge> length s then None
          else Some \<lparr>host = take pos s, port = ucast (strtoul (drop (pos + 1) s))\<rparr>)"

text \<open>The one of \<^verbatim>\<open>signaling_client.cpp\<close> takes a payload.\<close>

definition parse_endpoint :: "bytes \<Rightarrow> Endpoint option" where
  "parse_endpoint payload =
     (if payload = [] then None
      else let s = string_of_bytes payload in
        (case rfind CHR '':'' s of None \<Rightarrow> None
         | Some pos \<Rightarrow>
             if pos + 1 \<ge> length s then None
             else Some \<lparr>host = take pos s, port = ucast (strtoul (drop (pos + 1) s))\<rparr>))"

section \<open>Round trip\<close>

lemma of_char_digit_char: "d < 10 \<Longrightarrow> (of_char (digit_char d) :: nat) = 48 + d"
  by (simp add: digit_char_def)

lemma is_digit_digit_char [simp]: "d < 10 \<Longrightarrow> is_digit (digit_char d)"
  by (simp add: is_digit_def of_char_digit_char Let_def)

lemma digit_value_digit_char [simp]: "d < 10 \<Longrightarrow> digit_value (digit_char d) = d"
  by (simp add: digit_value_def of_char_digit_char)

lemma dec_string_digits: "\<forall>c\<in>set (dec_string n). is_digit c"
proof (induction n rule: dec_string.induct)
  case (1 n)
  then show ?case by (cases "n < 10") (simp_all add: dec_string.simps [of n])
qed

lemma dec_string_nonempty [simp]: "dec_string n \<noteq> []"
  by (simp add: dec_string.simps)

lemma dec_string_value: "fold (\<lambda>c n. 10 * n + digit_value c) (dec_string n) 0 = n"
proof (induction n rule: dec_string.induct)
  case (1 n)
  then show ?case by (cases "n < 10") (simp_all add: dec_string.simps [of n])
qed

lemma is_digit_not_sign: "is_digit c \<Longrightarrow> \<not> is_space c \<and> c \<noteq> CHR ''-'' \<and> c \<noteq> CHR ''+'' \<and> c \<noteq> CHR '':''"
  by (auto simp: is_digit_def is_space_def Let_def)

lemma strtoul_dec_string:
  assumes "n < 2 ^ 64"
  shows "strtoul (dec_string n) = of_nat n"
proof -
  obtain c cs where c: "dec_string n = c # cs" using dec_string_nonempty [of n] by (cases "dec_string n") auto
  have digits: "\<forall>x\<in>set (dec_string n). is_digit x" by (rule dec_string_digits)
  then have "takeWhile is_digit (dec_string n) = dec_string n" by (simp add: takeWhile_eq_all_conv)
  moreover have "\<not> is_space c" "c \<noteq> CHR ''-''" "c \<noteq> CHR ''+''"
    using digits is_digit_not_sign by (auto simp: c)
  ultimately show ?thesis
    using assms dec_string_value [of n] by (simp add: strtoul_def Let_def c)
qed

lemma rfind_append:
  assumes "c \<notin> set t"
  shows "rfind c (s @ c # t) = Some (length s)"
proof -
  have "takeWhile (\<lambda>x. x \<noteq> c) (rev (s @ c # t)) = rev t"
    using assms by (simp add: takeWhile_append)
  then show ?thesis by (simp add: rfind_def)
qed

lemma unat_u16_less: "unat (p :: u16) < 65536"
  using unsigned_less [of p, where 'a = nat] by simp

lemma ucast_ucast_u16 [simp]: "(ucast (ucast (p :: u16) :: u64) :: u16) = p"
  by (rule bit_word_eqI) (simp add: bit_simps)

lemma parse_endpoint_string_to_string [simp]:
  "parse_endpoint_string (endpoint_to_string ep) = Some ep"
proof -
  let ?n = "unat (port ep)"
  have "CHR '':'' \<notin> set (dec_string ?n)"
    using dec_string_digits [of ?n] is_digit_not_sign by blast
  then have "rfind CHR '':'' (endpoint_to_string ep) = Some (length (host ep))"
    by (simp add: endpoint_to_string_def rfind_append)
  moreover have "?n < 2 ^ 64" using unat_u16_less [of "port ep"] by simp
  ultimately show ?thesis
    by (simp add: parse_endpoint_string_def endpoint_to_string_def strtoul_dec_string)
qed

lemma parse_endpoint_eq:
  "parse_endpoint payload = (if payload = [] then None else parse_endpoint_string (string_of_bytes payload))"
  by (simp add: parse_endpoint_def parse_endpoint_string_def Let_def)

lemma endpoint_to_string_nonempty [simp]: "endpoint_to_string ep \<noteq> []"
  by (simp add: endpoint_to_string_def)

lemma parse_endpoint_to_string [simp]:
  "parse_endpoint (bytes_of_string (endpoint_to_string ep)) = Some ep"
  by (simp add: parse_endpoint_eq)

text \<open>
  The endpoint text sent in ACK and CONNECT payloads is read back exactly, whatever
  the host contains: the client's parser inverts \<^verbatim>\<open>Endpoint::to_string\<close>; and an empty
  payload (the peer is offline) is no endpoint.
\<close>

theorem endpoint_text_roundtrip:
  "parse_endpoint (bytes_of_string (endpoint_to_string ep)) = Some ep \<and>
   parse_endpoint_string (endpoint_to_string ep) = Some ep \<and> parse_endpoint [] = None"
  by (simp add: parse_endpoint_eq)

end
