(* ===== verification/Codec.thy ===== *)
theory Codec
  imports Prelude
begin

text \<open>
  The interface of a byte codec: an encoder that appends a value's bytes, and a decoder
  that reads a value at a cursor position of a buffer and moves the cursor behind it.
  \<open>codec\<close> asks that what was written is read back wherever it stands in the buffer;
  \<open>exact_codec\<close> adds that whatever a decoder accepts is the encoding of its result.
  The protocol's length-prefixed fields and every writer/reader pair of the storage
  format are interpretations (in \<open>Packet\<close>, \<open>Blob\<close> and \<open>Store\<close>).
\<close>

text \<open>
  A byte string behind a 16-bit big-endian length.  A string that does not fit
  (\<open>fits_u16\<close>) is written whole, behind its length modulo \<open>2^16\<close>.
\<close>

definition fits_u16 :: "'a list \<Rightarrow> bool" where
  "fits_u16 f \<longleftrightarrow> length f < 65536"

definition field_bytes :: "bytes \<Rightarrow> bytes" where
  "field_bytes f = be_bytes 2 (of_nat (length f) :: u16) @ f"

lemma length_field_bytes [simp]: "length (field_bytes f) = 2 + length f"
  by (simp add: field_bytes_def)

lemma be_word_u16 [simp]: "be_word (be_bytes 2 (v :: u16)) = v"
  by (rule be_word_be_bytes) simp

lemma be_word_u32 [simp]: "be_word (be_bytes 4 (v :: u32)) = v"
  by (rule be_word_be_bytes) simp

lemma be_word_u64 [simp]: "be_word (be_bytes 8 (v :: u64)) = v"
  by (rule be_word_be_bytes) simp

lemma be_bytes_u16 [simp]: "length b = 2 \<Longrightarrow> be_bytes 2 (be_word b :: u16) = b"
  using be_bytes_be_word [of b, where 'a = 16] by simp

lemma be_bytes_u32 [simp]: "length b = 4 \<Longrightarrow> be_bytes 4 (be_word b :: u32) = b"
  using be_bytes_be_word [of b, where 'a = 32] by simp

lemma be_bytes_u64 [simp]: "length b = 8 \<Longrightarrow> be_bytes 8 (be_word b :: u64) = b"
  using be_bytes_be_word [of b, where 'a = 64] by simp

text \<open>\<open>dec_times dec n\<close> is the counted loop of the readers: \<open>n\<close> values, one after the other.\<close>

fun dec_times :: "(bytes \<Rightarrow> nat \<Rightarrow> ('a \<times> nat) option) \<Rightarrow> nat \<Rightarrow> bytes \<Rightarrow> nat \<Rightarrow> ('a list \<times> nat) option"
where
  "dec_times dec 0 b off = Some ([], off)"
| "dec_times dec (Suc n) b off =
     (case dec b off of None \<Rightarrow> None
      | Some (x, off1) \<Rightarrow>
          (case dec_times dec n b off1 of None \<Rightarrow> None
           | Some (xs, off2) \<Rightarrow> Some (x # xs, off2)))"

locale codec =
  fixes enc :: "'a \<Rightarrow> bytes"
    and dec :: "bytes \<Rightarrow> nat \<Rightarrow> ('a \<times> nat) option"
    and ok :: "'a \<Rightarrow> bool"
  assumes dec_enc: "ok x \<Longrightarrow> dec (pre @ enc x @ post) (length pre) = Some (x, length pre + length (enc x))"
begin

lemma dec_enc_off:
  assumes "ok x" and "b = pre @ enc x @ post" and "off = length pre"
  shows "dec b off = Some (x, off + length (enc x))"
  using assms by (simp add: dec_enc)

text \<open>
  The form sequential decoders use: where the rest of the buffer starts with an encoding,
  its value is read and the cursor stands at what follows.
\<close>

lemma dec_drop:
  assumes "ok x" and "off \<le> length b" and "drop off b = enc x @ rest"
  shows "dec b off = Some (x, off + length (enc x))"
    and "drop (off + length (enc x)) b = rest" and "off + length (enc x) \<le> length b"
proof -
  have b: "b = take off b @ enc x @ rest" using assms(3) by (metis append_take_drop_id)
  show "dec b off = Some (x, off + length (enc x))"
    using assms(2) by (intro dec_enc_off [OF assms(1) b]) simp
  have "drop (length (enc x)) (drop off b) = rest" by (simp add: assms(3))
  then show "drop (off + length (enc x)) b = rest" by (simp add: add.commute)
  have "length (drop off b) = length (enc x) + length rest" by (simp add: assms(3))
  then show "off + length (enc x) \<le> length b" using assms(2) by simp
qed

text \<open>An encoding is never a proper prefix of another: concatenations split uniquely.\<close>

lemma enc_prefix_free:
  assumes "ok x" and "ok y" and "enc x @ s = enc y @ t"
  shows "x = y \<and> s = t"
proof -
  have "Some (x, length (enc x)) = dec (enc x @ s) 0"
    using dec_enc [OF assms(1), of "[]" s] by simp
  also have "\<dots> = Some (y, length (enc y))"
    using dec_enc [OF assms(2), of "[]" t] assms(3) by simp
  finally show ?thesis using assms(3) by auto
qed

lemma enc_inj: "ok x \<Longrightarrow> ok y \<Longrightarrow> enc x = enc y \<Longrightarrow> x = y"
  using enc_prefix_free [of x y "[]" "[]"] by simp

lemma dec_times_drop:
  assumes "list_all ok xs" and "off \<le> length b" and "drop off b = concat (map enc xs) @ rest"
  shows "dec_times dec (length xs) b off = Some (xs, off + length (concat (map enc xs)))"
    and "drop (off + length (concat (map enc xs))) b = rest"
    and "off + length (concat (map enc xs)) \<le> length b"
  using assms
proof (induction xs arbitrary: off)
  case (Cons x xs)
  { case 1
    note s = dec_drop [of x off b "concat (map enc xs) @ rest"]
    show ?case using 1 s Cons.IH(1) [OF _ s(3,2)] by (simp add: add.assoc) }
  { case 2
    note s = dec_drop [of x off b "concat (map enc xs) @ rest"]
    show ?case using 2 s Cons.IH(2) [OF _ s(3,2)] by (simp add: add.assoc) }
  { case 3
    note s = dec_drop [of x off b "concat (map enc xs) @ rest"]
    show ?case using 3 s Cons.IH(3) [OF _ s(3,2)] by (simp add: add.assoc) }
qed simp_all

end

locale exact_codec = codec +
  assumes dec_sound: "dec b off = Some (x, off') \<Longrightarrow> off \<le> length b \<Longrightarrow>
      ok x \<and> off' \<le> length b \<and> take off' b = take off b @ enc x"
begin

lemma dec_advances: "dec b off = Some (x, off') \<Longrightarrow> off \<le> length b \<Longrightarrow> off' = off + length (enc x)"
  by (drule (1) dec_sound) (auto dest: arg_cong [where f = length])

text \<open>Cutting an encoding short makes the decoder fail: no truncated buffer is accepted.\<close>

lemma dec_truncated:
  assumes "ok x" and "n < length (enc x)"
  shows "dec (take n (enc x)) 0 = None"
proof (rule ccontr)
  assume "dec (take n (enc x)) 0 \<noteq> None"
  then obtain y off' where dec: "dec (take n (enc x)) 0 = Some (y, off')" by auto
  with dec_sound [OF dec] have y: "ok y" "off' \<le> n" "take off' (take n (enc x)) = enc y"
    using assms(2) by auto
  then have prefix: "take off' (enc x) = enc y" by (simp add: min_def)
  then have "enc y @ drop off' (enc x) = enc x @ []" by (simp flip: prefix)
  with enc_prefix_free [OF y(1) assms(1)] have "y = x" by blast
  moreover have "length (enc y) \<le> off'" by (simp flip: prefix)
  ultimately show False using y(2) assms(2) by simp
qed

end

end
