(* ===== verification/Env.thy ===== *)
theory Env
  imports Endpoint
begin

text \<open>
  The code outside the repository that the program calls: libsodium, the C library and
  the operating system.  An \<open>env\<close> holds one function per call; every definition that
  makes such a call takes the environment as an argument.  A call whose result may differ
  from one time to the next takes the running number of the call (\<open>calls\<close> of the
  \<open>world\<close>), so the functions range over every behaviour of the environment.

  The \<open>world\<close> is what the program changes outside its own objects: the files, the open
  descriptors, and the datagrams handed to the network (\<open>sent\<close>, in order).
\<close>

record sockaddr =
  sa_family :: int
  sa_data :: bytes

text \<open>
  Writing a file through an \<^verbatim>\<open>std::ofstream\<close>: the file cannot be opened; or \<^verbatim>\<open>write\<close>
  reports failure and leaves some content; or \<^verbatim>\<open>write\<close> succeeds and closing the stream
  leaves some content (the buffered tail is written then, and its failure is not reported).
\<close>

datatype write_result = OpenFailed | WriteFailed bytes | Closed bytes

record env =
  \<comment> \<open>libsodium\<close>
  sodium_init :: int
  randombytes_buf :: "nat \<Rightarrow> nat \<Rightarrow> bytes"
  crypto_sign_keypair :: "nat \<Rightarrow> bytes \<times> bytes"
  crypto_sign_sk_to_pk :: "bytes \<Rightarrow> bytes"
  crypto_sign_detached :: "bytes \<Rightarrow> bytes \<Rightarrow> bytes"
  crypto_sign_verify_detached :: "bytes \<Rightarrow> bytes \<Rightarrow> bytes \<Rightarrow> bool"
  sk_to_curve25519 :: "bytes \<Rightarrow> bytes option"
  pk_to_curve25519 :: "bytes \<Rightarrow> bytes option"
  crypto_scalarmult :: "bytes \<Rightarrow> bytes \<Rightarrow> bytes option"
  crypto_generichash :: "nat \<Rightarrow> bytes \<Rightarrow> bytes"
  aead_encrypt :: "bytes \<Rightarrow> bytes \<Rightarrow> bytes \<Rightarrow> bytes \<Rightarrow> bytes"
  aead_decrypt :: "bytes \<Rightarrow> bytes \<Rightarrow> bytes \<Rightarrow> bytes \<Rightarrow> bytes option"
  crypto_pwhash :: "nat \<Rightarrow> string \<Rightarrow> bytes \<Rightarrow> bytes option"
  \<comment> \<open>clocks\<close>
  os_time :: "nat \<Rightarrow> int"
  steady_clock_now :: "nat \<Rightarrow> int"
  \<comment> \<open>sockets\<close>
  getaddrinfo :: "nat \<Rightarrow> string option \<Rightarrow> string \<Rightarrow> int \<Rightarrow> bool \<Rightarrow> sockaddr option"
  getnameinfo :: "nat \<Rightarrow> sockaddr \<Rightarrow> (string \<times> string) option"
  os_socket :: "nat \<Rightarrow> int \<Rightarrow> int"
  os_bind :: "nat \<Rightarrow> int \<Rightarrow> sockaddr \<Rightarrow> int"
  os_sendto :: "nat \<Rightarrow> int \<Rightarrow> bytes \<Rightarrow> sockaddr \<Rightarrow> int"
  os_poll :: "nat \<Rightarrow> int \<Rightarrow> int \<Rightarrow> int"
  os_recvfrom :: "nat \<Rightarrow> int \<Rightarrow> nat \<Rightarrow> (bytes \<times> sockaddr) option"
  os_getsockname :: "nat \<Rightarrow> int \<Rightarrow> sockaddr option"
  os_fcntl_getfl :: "nat \<Rightarrow> int \<Rightarrow> int"
  os_fcntl_setfl :: "nat \<Rightarrow> int \<Rightarrow> int \<Rightarrow> int"
  \<comment> \<open>files\<close>
  file_read_ok :: "nat \<Rightarrow> string \<Rightarrow> bool"
  file_write :: "nat \<Rightarrow> string \<Rightarrow> bytes \<Rightarrow> write_result"
  file_rename_ok :: "nat \<Rightarrow> string \<Rightarrow> string \<Rightarrow> bool"
  file_remove_ok :: "nat \<Rightarrow> string \<Rightarrow> bool"

record world =
  calls :: nat
  files :: "string \<rightharpoonup> bytes"
  fds :: "int set"
  sent :: "(Endpoint \<times> bytes) list"

definition next_call :: "world \<Rightarrow> world" where
  "next_call w = w\<lparr>calls := Suc (calls w)\<rparr>"

lemma next_call_simps [simp, frame_simps]:
  "calls (next_call w) = Suc (calls w)" "files (next_call w) = files w"
  "fds (next_call w) = fds w" "sent (next_call w) = sent w"
  by (simp_all add: next_call_def)

section \<open>What the code relies on\<close>

text \<open>
  Documented behaviour of libsodium, each as a predicate on the environment.

  \<open>aead_correct\<close>: XChaCha20-Poly1305 decryption inverts encryption under the same key,
  nonce and associated data, and adds a 16-byte tag.  \<open>aead_authentic\<close>: decryption
  succeeds only on the (deterministic) encryption of what it returns, under the very
  associated data, nonce and key it was called with, since the tag is recomputed and compared.
\<close>

definition aead_correct :: "env \<Rightarrow> bool" where
  "aead_correct E \<longleftrightarrow> (\<forall>m a n k. aead_decrypt E (aead_encrypt E m a n k) a n k = Some m \<and>
      length (aead_encrypt E m a n k) = length m + 16)"

definition aead_authentic :: "env \<Rightarrow> bool" where
  "aead_authentic E \<longleftrightarrow> (\<forall>c a n k m. aead_decrypt E c a n k = Some m \<longrightarrow> c = aead_encrypt E m a n k)"

text \<open>The generator returns as many bytes as asked for; a password hash has 32 bytes.\<close>

definition random_sized :: "env \<Rightarrow> bool" where
  "random_sized E \<longleftrightarrow> (\<forall>i n. length (randombytes_buf E i n) = n)"

definition pwhash_sized :: "env \<Rightarrow> bool" where
  "pwhash_sized E \<longleftrightarrow> (\<forall>i p s k. crypto_pwhash E i p s = Some k \<longrightarrow> length k = 32)"

text \<open>The password hash is a function of passphrase and salt where it succeeds.\<close>

definition pwhash_deterministic :: "env \<Rightarrow> bool" where
  "pwhash_deterministic E \<longleftrightarrow> (\<forall>i j p s. crypto_pwhash E i p s = crypto_pwhash E j p s)"

definition hash_sized :: "env \<Rightarrow> bool" where
  "hash_sized E \<longleftrightarrow> (\<forall>n b. length (crypto_generichash E n b) = n)"

text \<open>
  Diffie--Hellman: for two Ed25519 secret keys the shared points computed on both sides
  agree (and both computations fail together, on a low-order point).
\<close>

definition dh_commutes :: "env \<Rightarrow> bool" where
  "dh_commutes E \<longleftrightarrow>
     (\<forall>sk1 sk2 c1 c2 p1 p2.
        sk_to_curve25519 E sk1 = Some c1 \<longrightarrow> sk_to_curve25519 E sk2 = Some c2 \<longrightarrow>
        pk_to_curve25519 E (crypto_sign_sk_to_pk E sk1) = Some p1 \<longrightarrow>
        pk_to_curve25519 E (crypto_sign_sk_to_pk E sk2) = Some p2 \<longrightarrow>
        crypto_scalarmult E c1 p2 = crypto_scalarmult E c2 p1)"

text \<open>Converted public keys all have the length of a curve point.\<close>

definition curve_sized :: "env \<Rightarrow> bool" where
  "curve_sized E \<longleftrightarrow> (\<forall>pk p. pk_to_curve25519 E pk = Some p \<longrightarrow> length p = 32)"

text \<open>A signature made with a secret key verifies under its public key.\<close>

definition sign_correct :: "env \<Rightarrow> bool" where
  "sign_correct E \<longleftrightarrow> (\<forall>m sk. length (crypto_sign_detached E m sk) = 64 \<and>
      crypto_sign_verify_detached E (crypto_sign_detached E m sk) m (crypto_sign_sk_to_pk E sk))"

text \<open>\<^verbatim>\<open>recvfrom\<close> returns at most as many bytes as the buffer holds.\<close>

definition recv_bounded :: "env \<Rightarrow> bool" where
  "recv_bounded E \<longleftrightarrow> (\<forall>i fd n b a. os_recvfrom E i fd n = Some (b, a) \<longrightarrow> length b \<le> n)"

text \<open>
  No write is lost at the close: what was written to a stream is in the file afterwards.  This is
  not promised by the standard (the flush at the close may fail, and the code does not look), so it
  is an assumption on the disk under which saved files are found again, not a law of the library.
\<close>

definition disk_keeps :: "env \<Rightarrow> bool" where
  "disk_keeps E \<longleftrightarrow> (\<forall>i p b c. file_write E i p b = Closed c \<longrightarrow> c = b)"

section \<open>A concrete environment\<close>

text \<open>
  An environment in which all of the above holds, for the worked examples: a cipher that
  appends a checksum of key, nonce and associated data as its tag, a group whose shared
  point is the sum of the two points, signatures that spell out key and message, a network
  that always accepts, and a disk that always works.
\<close>

definition pad :: "nat \<Rightarrow> bytes \<Rightarrow> bytes" where
  "pad n b = take n (b @ replicate n 0)"

definition toy_tag :: "bytes \<Rightarrow> bytes \<Rightarrow> bytes \<Rightarrow> bytes" where
  "toy_tag a n k = replicate 16 (sum_list a + sum_list n + sum_list k)"

definition toy_env :: env where
  "toy_env = \<lparr>
     sodium_init = 0,
     randombytes_buf = \<lambda>i n. replicate n (of_nat i),
     crypto_sign_keypair = \<lambda>i. (pad 32 [of_nat i], pad 64 [of_nat i]),
     crypto_sign_sk_to_pk = pad 32,
     crypto_sign_detached = \<lambda>m sk. pad 32 sk @ pad 32 m,
     crypto_sign_verify_detached = \<lambda>s m pk. s = pad 32 pk @ pad 32 m,
     sk_to_curve25519 = \<lambda>sk. Some (pad 32 sk),
     pk_to_curve25519 = \<lambda>pk. Some (pad 32 pk),
     crypto_scalarmult = \<lambda>c p. Some (map2 (+) c p),
     crypto_generichash = pad,
     aead_encrypt = \<lambda>m a n k. m @ toy_tag a n k,
     aead_decrypt = \<lambda>c a n k. if length c \<ge> 16 \<and> drop (length c - 16) c = toy_tag a n k
       then Some (take (length c - 16) c) else None,
     crypto_pwhash = \<lambda>i p s. Some (pad 32 (bytes_of_string p)),
     os_time = \<lambda>i. 1000,
     steady_clock_now = \<lambda>i. int i * 300000000,
     getaddrinfo = \<lambda>i h serv fam passive.
       Some \<lparr>sa_family = 2, sa_data = bytes_of_string (case_option [] id h @ CHR '':'' # serv)\<rparr>,
     getnameinfo = \<lambda>i ss. map_option (\<lambda>ep. (host ep, dec_string (unat (port ep))))
       (parse_endpoint (sa_data ss)),
     os_socket = \<lambda>i fam. int i + 3,
     os_bind = \<lambda>i fd ss. 0,
     os_sendto = \<lambda>i fd d ss. int (length d),
     os_poll = \<lambda>i fd t. 0,
     os_recvfrom = \<lambda>i fd n. None,
     os_getsockname = \<lambda>i fd. None,
     os_fcntl_getfl = \<lambda>i fd. 0,
     os_fcntl_setfl = \<lambda>i fd fl. 0,
     file_read_ok = \<lambda>i p. True,
     file_write = \<lambda>i p b. Closed b,
     file_rename_ok = \<lambda>i p q. True,
     file_remove_ok = \<lambda>i p. True\<rparr>"

definition toy_world :: world where
  "toy_world = \<lparr>calls = 0, files = Map.empty, fds = {}, sent = []\<rparr>"

text \<open>A network that delivers one datagram, from a given address.\<close>

definition toy_net :: "string \<Rightarrow> bytes \<Rightarrow> env" where
  "toy_net addr d = toy_env\<lparr>os_poll := \<lambda>i fd t. 1,
     os_recvfrom := \<lambda>i fd n. Some (take n d, \<lparr>sa_family = 2, sa_data = bytes_of_string addr\<rparr>)\<rparr>"

lemma length_pad [simp]: "length (pad n b) = n"
  by (simp add: pad_def)

lemma pad_pad [simp]: "pad n (pad n b) = pad n b"
  by (simp add: pad_def)

lemma map2_add_commute: "map2 (+) xs ys = map2 (+) ys (xs :: bytes)"
  by (rule nth_equalityI) (simp_all add: add.commute)

lemma toy_env_sel [simp]:
  "sodium_init toy_env = (0)"
  "randombytes_buf toy_env = (\<lambda>i n. replicate n (of_nat i))"
  "crypto_sign_keypair toy_env = (\<lambda>i. (pad 32 [of_nat i], pad 64 [of_nat i]))"
  "crypto_sign_sk_to_pk toy_env = (pad 32)"
  "crypto_sign_detached toy_env = (\<lambda>m sk. pad 32 sk @ pad 32 m)"
  "crypto_sign_verify_detached toy_env = (\<lambda>s m pk. s = pad 32 pk @ pad 32 m)"
  "sk_to_curve25519 toy_env = (\<lambda>sk. Some (pad 32 sk))"
  "pk_to_curve25519 toy_env = (\<lambda>pk. Some (pad 32 pk))"
  "crypto_scalarmult toy_env = (\<lambda>c p. Some (map2 (+) c p))"
  "crypto_generichash toy_env = (pad)"
  "aead_encrypt toy_env = (\<lambda>m a n k. m @ toy_tag a n k)"
  "aead_decrypt toy_env = (\<lambda>c a n k. if length c \<ge> 16 \<and> drop (length c - 16) c = toy_tag a n k
       then Some (take (length c - 16) c) else None)"
  "crypto_pwhash toy_env = (\<lambda>i p s. Some (pad 32 (bytes_of_string p)))"
  "os_time toy_env = (\<lambda>i. 1000)"
  "steady_clock_now toy_env = (\<lambda>i. int i * 300000000)"
  "getaddrinfo toy_env = (\<lambda>i h serv fam passive.
       Some \<lparr>sa_family = 2, sa_data = bytes_of_string (case_option [] id h @ CHR '':'' # serv)\<rparr>)"
  "getnameinfo toy_env = (\<lambda>i ss. map_option (\<lambda>ep. (host ep, dec_string (unat (port ep))))
       (parse_endpoint (sa_data ss)))"
  "os_socket toy_env = (\<lambda>i fam. int i + 3)"
  "os_bind toy_env = (\<lambda>i fd ss. 0)"
  "os_sendto toy_env = (\<lambda>i fd d ss. int (length d))"
  "os_poll toy_env = (\<lambda>i fd t. 0)"
  "os_recvfrom toy_env = (\<lambda>i fd n. None)"
  "os_getsockname toy_env = (\<lambda>i fd. None)"
  "os_fcntl_getfl toy_env = (\<lambda>i fd. 0)"
  "os_fcntl_setfl toy_env = (\<lambda>i fd fl. 0)"
  "file_read_ok toy_env = (\<lambda>i p. True)"
  "file_write toy_env = (\<lambda>i p b. Closed b)"
  "file_rename_ok toy_env = (\<lambda>i p q. True)"
  "file_remove_ok toy_env = (\<lambda>i p. True)"
  by (simp_all add: toy_env_def)

lemma toy_net_sel [simp]:
  "sodium_init (toy_net addr d) = (sodium_init toy_env)"
  "randombytes_buf (toy_net addr d) = (randombytes_buf toy_env)"
  "crypto_sign_keypair (toy_net addr d) = (crypto_sign_keypair toy_env)"
  "crypto_sign_sk_to_pk (toy_net addr d) = (crypto_sign_sk_to_pk toy_env)"
  "crypto_sign_detached (toy_net addr d) = (crypto_sign_detached toy_env)"
  "crypto_sign_verify_detached (toy_net addr d) = (crypto_sign_verify_detached toy_env)"
  "sk_to_curve25519 (toy_net addr d) = (sk_to_curve25519 toy_env)"
  "pk_to_curve25519 (toy_net addr d) = (pk_to_curve25519 toy_env)"
  "crypto_scalarmult (toy_net addr d) = (crypto_scalarmult toy_env)"
  "crypto_generichash (toy_net addr d) = (crypto_generichash toy_env)"
  "aead_encrypt (toy_net addr d) = (aead_encrypt toy_env)"
  "aead_decrypt (toy_net addr d) = (aead_decrypt toy_env)"
  "crypto_pwhash (toy_net addr d) = (crypto_pwhash toy_env)"
  "os_time (toy_net addr d) = (os_time toy_env)"
  "steady_clock_now (toy_net addr d) = (steady_clock_now toy_env)"
  "getaddrinfo (toy_net addr d) = (getaddrinfo toy_env)"
  "getnameinfo (toy_net addr d) = (getnameinfo toy_env)"
  "os_socket (toy_net addr d) = (os_socket toy_env)"
  "os_bind (toy_net addr d) = (os_bind toy_env)"
  "os_sendto (toy_net addr d) = (os_sendto toy_env)"
  "os_poll (toy_net addr d) = (\<lambda>i fd t. 1)"
  "os_recvfrom (toy_net addr d) = (\<lambda>i fd n. Some (take n d, \<lparr>sa_family = 2, sa_data = bytes_of_string addr\<rparr>))"
  "os_getsockname (toy_net addr d) = (os_getsockname toy_env)"
  "os_fcntl_getfl (toy_net addr d) = (os_fcntl_getfl toy_env)"
  "os_fcntl_setfl (toy_net addr d) = (os_fcntl_setfl toy_env)"
  "file_read_ok (toy_net addr d) = (file_read_ok toy_env)"
  "file_write (toy_net addr d) = (file_write toy_env)"
  "file_rename_ok (toy_net addr d) = (file_rename_ok toy_env)"
  "file_remove_ok (toy_net addr d) = (file_remove_ok toy_env)"
  by (simp_all add: toy_net_def)

lemma toy_env_laws [simp]:
  "aead_correct toy_env" "aead_authentic toy_env" "random_sized toy_env" "pwhash_sized toy_env"
  "pwhash_deterministic toy_env" "hash_sized toy_env" "dh_commutes toy_env" "curve_sized toy_env"
  "sign_correct toy_env" "recv_bounded toy_env" "disk_keeps toy_env"
proof -
  show "aead_correct toy_env" by (simp add: aead_correct_def toy_env_def toy_tag_def)
  show "aead_authentic toy_env"
    by (auto simp: aead_authentic_def toy_env_def split: if_splits) (metis append_take_drop_id)
qed (auto simp: random_sized_def pwhash_sized_def pwhash_deterministic_def hash_sized_def dh_commutes_def
    curve_sized_def sign_correct_def recv_bounded_def disk_keeps_def toy_env_def map2_add_commute)

lemma toy_net_laws [simp]:
  "aead_correct (toy_net a d)" "aead_authentic (toy_net a d)" "random_sized (toy_net a d)"
  "hash_sized (toy_net a d)" "sign_correct (toy_net a d)" "recv_bounded (toy_net a d)"
proof -
  note laws = toy_env_laws
  show "aead_correct (toy_net a d)" using laws(1) by (simp add: aead_correct_def toy_net_def)
  show "aead_authentic (toy_net a d)" using laws(2) by (simp add: aead_authentic_def toy_net_def)
  show "random_sized (toy_net a d)" using laws(3) by (simp add: random_sized_def toy_net_def)
  show "hash_sized (toy_net a d)" using laws(6) by (simp add: hash_sized_def toy_net_def)
  show "sign_correct (toy_net a d)" using laws(9) by (simp add: sign_correct_def toy_net_def)
  show "recv_bounded (toy_net a d)" by (auto simp: recv_bounded_def toy_net_def)
qed

end
