(* ===== verification/Crypto.thy ===== *)
theory Crypto
  imports Env Hex
begin

text \<open>
  The crypto library (\<^verbatim>\<open>libs/crypto\<close>): identities, detached signatures, key agreement,
  authenticated encryption and password-based key derivation, each a thin layer of size
  checks and layout over libsodium (the environment).  \<^verbatim>\<open>ensure_init\<close> has no effect on
  any result; the operations below leave its call out.
\<close>

definition kPublicKeyBytes :: nat where "kPublicKeyBytes = 32"
definition kSecretKeyBytes :: nat where "kSecretKeyBytes = 64"
definition kSignatureBytes :: nat where "kSignatureBytes = 64"
definition kFingerprintBytes :: nat where "kFingerprintBytes = 32"
definition kSessionKeyBytes :: nat where "kSessionKeyBytes = 32"
definition kAeadNonceBytes :: nat where "kAeadNonceBytes = 24"
definition kAeadTagBytes :: nat where "kAeadTagBytes = 16"
definition kKdfSaltBytes :: nat where "kKdfSaltBytes = 16"

lemmas crypto_sizes = kPublicKeyBytes_def kSecretKeyBytes_def kSignatureBytes_def
  kFingerprintBytes_def kSessionKeyBytes_def kAeadNonceBytes_def kAeadTagBytes_def
  kKdfSaltBytes_def

definition ensure_init :: "env \<Rightarrow> bool" where
  "ensure_init E \<longleftrightarrow> sodium_init E \<ge> 0"

section \<open>Randomness and key derivation\<close>

definition random_bytes :: "env \<Rightarrow> nat \<Rightarrow> world \<Rightarrow> bytes \<times> world" where
  "random_bytes E count w =
     (if count > 0 then (randombytes_buf E (calls w) count, next_call w) else ([], w))"

definition generate_salt :: "env \<Rightarrow> world \<Rightarrow> bytes \<times> world" where
  "generate_salt E w = random_bytes E kKdfSaltBytes w"

definition derive_key :: "env \<Rightarrow> string \<Rightarrow> bytes \<Rightarrow> world \<Rightarrow> bytes \<times> world" where
  "derive_key E passphrase salt w =
     (if length salt \<noteq> kKdfSaltBytes then ([], w)
      else case crypto_pwhash E (calls w) passphrase salt of
        None \<Rightarrow> ([], next_call w)
      | Some key \<Rightarrow> (key, next_call w))"

section \<open>Identities\<close>

record Identity =
  public_key :: bytes
  secret_key :: bytes

definition identity_valid :: "Identity \<Rightarrow> bool" where
  "identity_valid i \<longleftrightarrow>
     length (public_key i) = kPublicKeyBytes \<and> length (secret_key i) = kSecretKeyBytes"

definition fingerprint :: "env \<Rightarrow> Identity \<Rightarrow> string" where
  "fingerprint E i =
     fold (\<lambda>x out. (out @ [kHex ! unat (drop_bit 4 x)]) @ [kHex ! unat (x AND 0x0F)])
       (crypto_generichash E kFingerprintBytes (public_key i)) []"

definition generate_identity :: "env \<Rightarrow> world \<Rightarrow> Identity \<times> world" where
  "generate_identity E w =
     (case crypto_sign_keypair E (calls w) of (pk, sk) \<Rightarrow>
        (\<lparr>public_key = pk, secret_key = sk\<rparr>, next_call w))"

definition identity_from_secret :: "env \<Rightarrow> bytes \<Rightarrow> Identity option" where
  "identity_from_secret E sk =
     (if length sk \<noteq> kSecretKeyBytes then None
      else Some \<lparr>public_key = crypto_sign_sk_to_pk E sk, secret_key = sk\<rparr>)"

section \<open>Signatures\<close>

definition sign_detached :: "env \<Rightarrow> bytes \<Rightarrow> bytes \<Rightarrow> bytes" where
  "sign_detached E message sk =
     (if length sk \<noteq> kSecretKeyBytes then [] else crypto_sign_detached E message sk)"

definition verify_detached :: "env \<Rightarrow> bytes \<Rightarrow> bytes \<Rightarrow> bytes \<Rightarrow> bool" where
  "verify_detached E signature message pk =
     (if length signature \<noteq> kSignatureBytes \<or> length pk \<noteq> kPublicKeyBytes then False
      else crypto_sign_verify_detached E signature message pk)"

section \<open>Key agreement\<close>

text \<open>\<^verbatim>\<open>std::memcmp(a, b, n) > 0\<close> on arrays of the same length: unsigned, byte by byte.\<close>

fun memcmp_gt :: "bytes \<Rightarrow> bytes \<Rightarrow> bool" where
  "memcmp_gt (x # xs) (y # ys) = (if x = y then memcmp_gt xs ys else x > y)"
| "memcmp_gt _ _ = False"

definition agree_shared_key :: "env \<Rightarrow> bytes \<Rightarrow> bytes \<Rightarrow> bytes option" where
  "agree_shared_key E my_secret_key their_public_key =
     (if length my_secret_key \<noteq> kSecretKeyBytes \<or> length their_public_key \<noteq> kPublicKeyBytes then None
      else let my_ed_pk = crypto_sign_sk_to_pk E my_secret_key in
        case (sk_to_curve25519 E my_secret_key, pk_to_curve25519 E my_ed_pk,
              pk_to_curve25519 E their_public_key) of
          (Some my_curve_sk, Some my_curve_pk, Some their_curve_pk) \<Rightarrow>
            (case crypto_scalarmult E my_curve_sk their_curve_pk of None \<Rightarrow> None
             | Some dh \<Rightarrow>
                 (let (lo, hi) = (if memcmp_gt my_curve_pk their_curve_pk
                                  then (their_curve_pk, my_curve_pk)
                                  else (my_curve_pk, their_curve_pk))
                  in Some (crypto_generichash E kSessionKeyBytes (dh @ lo @ hi))))
        | _ \<Rightarrow> None)"

section \<open>Authenticated encryption\<close>

definition seal :: "env \<Rightarrow> bytes \<Rightarrow> bytes \<Rightarrow> bytes \<Rightarrow> world \<Rightarrow> bytes \<times> world" where
  "seal E key plaintext aad w =
     (if length key \<noteq> kSessionKeyBytes then ([], w)
      else let nonce = randombytes_buf E (calls w) kAeadNonceBytes
           in (nonce @ aead_encrypt E plaintext aad nonce key, next_call w))"

definition open_sealed :: "env \<Rightarrow> bytes \<Rightarrow> bytes \<Rightarrow> bytes \<Rightarrow> bytes option" where
  "open_sealed E key sealed aad =
     (if length key \<noteq> kSessionKeyBytes \<or> length sealed < kAeadNonceBytes + kAeadTagBytes then None
      else let nonce = take kAeadNonceBytes sealed; cipher = drop kAeadNonceBytes sealed
           in aead_decrypt E cipher aad nonce key)"

section \<open>Lemmas\<close>

lemma seal_frame [simp, frame_simps]:
  "files (snd (seal E k m a w)) = files w" "fds (snd (seal E k m a w)) = fds w"
  "sent (snd (seal E k m a w)) = sent w"
  by (simp_all add: seal_def Let_def)

lemma seal_frameD:
  "seal E k m a w = (c, w') \<Longrightarrow> files w' = files w \<and> fds w' = fds w \<and> sent w' = sent w"
  by (auto simp: seal_def Let_def split: if_splits)

lemma open_seal:
  assumes "aead_correct E" "random_sized E" "length k = kSessionKeyBytes"
  shows "open_sealed E k (fst (seal E k m a w)) a = Some m"
  using assms by (simp add: open_sealed_def seal_def aead_correct_def random_sized_def Let_def crypto_sizes)

lemma seal_nonempty:
  assumes "random_sized E" "length k = kSessionKeyBytes"
  shows "fst (seal E k m a w) \<noteq> []"
proof -
  have "length (randombytes_buf E (calls w) 24) = 24" using assms by (simp add: random_sized_def)
  then have "randombytes_buf E (calls w) 24 \<noteq> []" by (metis list.size(3) zero_neq_numeral)
  then show ?thesis using assms by (simp add: seal_def Let_def crypto_sizes)
qed

lemma length_seal:
  assumes "aead_correct E" "random_sized E" "length k = kSessionKeyBytes"
  shows "length (fst (seal E k m a w)) = length m + 40"
  using assms by (simp add: seal_def aead_correct_def random_sized_def Let_def crypto_sizes)

lemma open_sealed_Some:
  assumes "aead_authentic E" and "open_sealed E k c a = Some m"
  shows "c = take kAeadNonceBytes c @ aead_encrypt E m a (take kAeadNonceBytes c) k \<and> length k = kSessionKeyBytes"
proof -
  from assms(2) have "aead_decrypt E (drop kAeadNonceBytes c) a (take kAeadNonceBytes c) k = Some m"
      "length k = kSessionKeyBytes"
    by (auto simp: open_sealed_def Let_def split: if_splits)
  with assms(1) have "drop kAeadNonceBytes c = aead_encrypt E m a (take kAeadNonceBytes c) k"
    by (auto simp: aead_authentic_def)
  then show ?thesis using \<open>length k = kSessionKeyBytes\<close>
    by (metis append_take_drop_id)
qed

lemma memcmp_gt_swap:
  "length xs = length ys \<Longrightarrow> memcmp_gt xs ys \<Longrightarrow> \<not> memcmp_gt ys xs"
  by (induction xs ys rule: memcmp_gt.induct) (auto split: if_splits)

lemma memcmp_gt_total:
  "length xs = length ys \<Longrightarrow> \<not> memcmp_gt xs ys \<Longrightarrow> \<not> memcmp_gt ys xs \<Longrightarrow> xs = ys"
  by (induction xs ys rule: memcmp_gt.induct) (auto split: if_splits)

lemma length_derive_key:
  "pwhash_sized E \<Longrightarrow> fst (derive_key E p s w) = [] \<or> length (fst (derive_key E p s w)) = kSessionKeyBytes"
  by (auto simp: derive_key_def pwhash_sized_def crypto_sizes split: option.splits)

lemma derive_key_frame [simp, frame_simps]:
  "files (snd (derive_key E p s w)) = files w" "sent (snd (derive_key E p s w)) = sent w"
  "fds (snd (derive_key E p s w)) = fds w"
  by (simp_all add: derive_key_def split: option.splits)

lemma derive_key_deterministic:
  "pwhash_deterministic E \<Longrightarrow> fst (derive_key E p s w) = fst (derive_key E p s w')"
  by (auto simp: derive_key_def pwhash_deterministic_def split: option.splits)
     (metis option.distinct(1) option.inject)+

lemma random_bytes_frame [simp, frame_simps]:
  "files (snd (random_bytes E n w)) = files w" "sent (snd (random_bytes E n w)) = sent w"
  "fds (snd (random_bytes E n w)) = fds w"
  by (simp_all add: random_bytes_def)

lemma length_random_bytes: "random_sized E \<Longrightarrow> length (fst (random_bytes E n w)) = n"
  by (simp add: random_bytes_def random_sized_def)

lemma fingerprint_eq: "fingerprint E i = to_hex (crypto_generichash E kFingerprintBytes (public_key i))"
  by (simp add: fingerprint_def to_hex_def)

lemma length_agree_shared_key:
  "hash_sized E \<Longrightarrow> agree_shared_key E sk pk = Some k \<Longrightarrow> length k = kSessionKeyBytes"
  by (auto simp: agree_shared_key_def hash_sized_def Let_def split: if_splits option.splits prod.splits)

lemma agree_shared_key_sym:
  assumes "dh_commutes E" "curve_sized E"
    and "length sk1 = kSecretKeyBytes" "length sk2 = kSecretKeyBytes"
    and "length (crypto_sign_sk_to_pk E sk1) = kPublicKeyBytes"
    and "length (crypto_sign_sk_to_pk E sk2) = kPublicKeyBytes"
    and "sk_to_curve25519 E sk1 \<noteq> None" "sk_to_curve25519 E sk2 \<noteq> None"
  shows "agree_shared_key E sk1 (crypto_sign_sk_to_pk E sk2)
       = agree_shared_key E sk2 (crypto_sign_sk_to_pk E sk1)"
proof (cases "pk_to_curve25519 E (crypto_sign_sk_to_pk E sk1)")
  case None
  then show ?thesis by (simp add: agree_shared_key_def Let_def split: option.splits)
next
  case p1: (Some p1)
  show ?thesis
  proof (cases "pk_to_curve25519 E (crypto_sign_sk_to_pk E sk2)")
    case None
    then show ?thesis by (simp add: agree_shared_key_def Let_def split: option.splits)
  next
    case p2: (Some p2)
    obtain c1 c2 where c: "sk_to_curve25519 E sk1 = Some c1" "sk_to_curve25519 E sk2 = Some c2"
      using assms(7,8) by auto
    have dh: "crypto_scalarmult E c1 p2 = crypto_scalarmult E c2 p1"
      using assms(1) c p1 p2 unfolding dh_commutes_def by blast
    have "length p1 = length p2"
      using assms(2) p1 p2 by (auto simp: curve_sized_def)
    note ord = memcmp_gt_swap [OF this] memcmp_gt_total [OF this]
    show ?thesis
      using assms(3-6) ord
      by (cases "memcmp_gt p1 p2"; cases "memcmp_gt p2 p1") (simp_all add: agree_shared_key_def p1 p2 c dh)
  qed
qed

text \<open>
  The laws two ends need to talk, and a usable key pair: the public key is the one the
  secret key holds, both have their sizes, and the secret key converts to the curve.
\<close>

definition crypto_laws :: "env \<Rightarrow> bool" where
  "crypto_laws E \<longleftrightarrow> aead_correct E \<and> random_sized E \<and> hash_sized E \<and> dh_commutes E \<and> curve_sized E"

definition key_pair :: "env \<Rightarrow> bytes \<Rightarrow> bytes \<Rightarrow> bool" where
  "key_pair E pk sk \<longleftrightarrow> pk = crypto_sign_sk_to_pk E sk \<and> length pk = kPublicKeyBytes \<and>
     length sk = kSecretKeyBytes \<and> sk_to_curve25519 E sk \<noteq> None"

lemma crypto_laws_toy [simp]: "crypto_laws toy_env"
  by (simp add: crypto_laws_def)

lemma toy_key_pair [simp]: "key_pair toy_env (pad 32 [k]) (pad 64 [k])"
  by (simp add: key_pair_def crypto_sizes pad_def numeral_eq_Suc)

lemma toy_agree [simp]: "agree_shared_key toy_env (pad 64 a) (pad 32 b) \<noteq> None"
  by (simp add: agree_shared_key_def crypto_sizes Let_def split: prod.splits)

lemma crypto_lawsD:
  "crypto_laws E \<Longrightarrow> aead_correct E" "crypto_laws E \<Longrightarrow> random_sized E" "crypto_laws E \<Longrightarrow> hash_sized E"
  by (simp_all add: crypto_laws_def)

lemma agree_key_pairs:
  assumes "crypto_laws E" "key_pair E pk1 sk1" "key_pair E pk2 sk2"
  shows "agree_shared_key E sk1 pk2 = agree_shared_key E sk2 pk1"
  using assms agree_shared_key_sym [of E sk1 sk2] by (auto simp: crypto_laws_def key_pair_def)

section \<open>Properties\<close>

text \<open>
  Key agreement is symmetric: two peers that each combine their own Ed25519 secret key
  with the other's public key derive the same session key (or both fail), because the
  Diffie--Hellman points agree and both sides hash the two public points in the same
  (byte-wise ascending) order; the derived key has the 32 bytes the cipher needs.
\<close>

theorem key_agreement_symmetric:
  assumes "dh_commutes E" "curve_sized E" "hash_sized E"
    and "length sk1 = kSecretKeyBytes" "length sk2 = kSecretKeyBytes"
    and "length (crypto_sign_sk_to_pk E sk1) = kPublicKeyBytes"
    and "length (crypto_sign_sk_to_pk E sk2) = kPublicKeyBytes"
    and "sk_to_curve25519 E sk1 \<noteq> None" "sk_to_curve25519 E sk2 \<noteq> None"
  shows "agree_shared_key E sk1 (crypto_sign_sk_to_pk E sk2)
       = agree_shared_key E sk2 (crypto_sign_sk_to_pk E sk1) \<and>
    (\<forall>k. agree_shared_key E sk1 (crypto_sign_sk_to_pk E sk2) = Some k \<longrightarrow> length k = kSessionKeyBytes)"
  using agree_shared_key_sym [OF assms(1,2,4-9)] length_agree_shared_key [OF assms(3)] by blast

theorem key_agreement_symmetric_witness:
  "agree_shared_key toy_env (replicate 64 1) (pad 32 (replicate 64 2))
     = agree_shared_key toy_env (replicate 64 2) (pad 32 (replicate 64 1))"
  using key_agreement_symmetric [of toy_env "replicate 64 1" "replicate 64 2"]
  by (simp add: crypto_sizes)

end
