(* ===== verification/Blob.thy ===== *)
theory Blob
  imports Codec Crypto "HOL-Library.Monad_Syntax"
begin

text \<open>
  The on-disk container of the storage library (\<^verbatim>\<open>libs/storage/src/blob.hpp\<close>, \<^verbatim>\<open>blob.cpp\<close>): the
  big-endian writers, the bounds-checked \<^verbatim>\<open>Reader\<close> and the encrypted file
  \<^verbatim>\<open>magic | version | salt | sealed\<close> that is replaced atomically.  A reader method that
  returns \<^verbatim>\<open>false\<close> is \<open>None\<close>: every caller gives the reader up then.
\<close>

definition kFileVersion :: byte where "kFileVersion = 1"
definition kSaltBytes :: nat where "kSaltBytes = 16"
definition kBlobHeaderSize :: nat where "kBlobHeaderSize = 4 + 1 + kSaltBytes"

lemmas blob_sizes = kSaltBytes_def kBlobHeaderSize_def

section \<open>Writers\<close>

definition put_u8 :: "bytes \<Rightarrow> byte \<Rightarrow> bytes" where
  "put_u8 o1 v = o1 @ [v]"

definition blob_put_u16 :: "bytes \<Rightarrow> u16 \<Rightarrow> bytes" where
  "blob_put_u16 o1 v = (o1 @ [ucast (drop_bit 8 v)]) @ [ucast (v AND 0xFF)]"

definition put_u32 :: "bytes \<Rightarrow> u32 \<Rightarrow> bytes" where
  "put_u32 o1 v = fold (\<lambda>s o1. o1 @ [byte_at s v]) [24, 16, 8, 0] o1"

definition blob_put_u64 :: "bytes \<Rightarrow> u64 \<Rightarrow> bytes" where
  "blob_put_u64 o1 v = fold (\<lambda>s o1. o1 @ [byte_at s v]) [56, 48, 40, 32, 24, 16, 8, 0] o1"

definition put_bytes :: "bytes \<Rightarrow> bytes \<Rightarrow> bytes" where
  "put_bytes o1 b = blob_put_u16 o1 (of_nat (length b)) @ b"

definition put_str :: "bytes \<Rightarrow> string \<Rightarrow> bytes" where
  "put_str o1 s = blob_put_u16 o1 (of_nat (length s)) @ bytes_of_string s"

section \<open>The reader\<close>

record Reader =
  rd_b :: bytes
  rd_off :: nat

definition reader :: "bytes \<Rightarrow> Reader" where
  "reader b = \<lparr>rd_b = b, rd_off = 0\<rparr>"

definition rd_u8 :: "Reader \<Rightarrow> (byte \<times> Reader) option" where
  "rd_u8 r = (if rd_off r + 1 > length (rd_b r) then None
     else Some (rd_b r ! rd_off r, r\<lparr>rd_off := rd_off r + 1\<rparr>))"

definition rd_u16 :: "Reader \<Rightarrow> (u16 \<times> Reader) option" where
  "rd_u16 r = (if rd_off r + 2 > length (rd_b r) then None
     else Some (push_bit 8 (ucast (rd_b r ! rd_off r)) OR ucast (rd_b r ! (rd_off r + 1)),
                r\<lparr>rd_off := rd_off r + 2\<rparr>))"

definition rd_u32 :: "Reader \<Rightarrow> (u32 \<times> Reader) option" where
  "rd_u32 r = (if rd_off r + 4 > length (rd_b r) then None
     else Some (fold (\<lambda>i v. be_step (rd_b r ! (rd_off r + i)) v) [0..<4] 0,
                r\<lparr>rd_off := rd_off r + 4\<rparr>))"

definition rd_u64 :: "Reader \<Rightarrow> (u64 \<times> Reader) option" where
  "rd_u64 r = (if rd_off r + 8 > length (rd_b r) then None
     else Some (fold (\<lambda>i v. be_step (rd_b r ! (rd_off r + i)) v) [0..<8] 0,
                r\<lparr>rd_off := rd_off r + 8\<rparr>))"

definition rd_bytes :: "Reader \<Rightarrow> (bytes \<times> Reader) option" where
  "rd_bytes r = do {
     (n, r) \<leftarrow> rd_u16 r;
     if rd_off r + unat n > length (rd_b r) then None
     else Some (take (unat n) (drop (rd_off r) (rd_b r)), r\<lparr>rd_off := rd_off r + unat n\<rparr>)
   }"

definition rd_str :: "Reader \<Rightarrow> (string \<times> Reader) option" where
  "rd_str r = do {
     (n, r) \<leftarrow> rd_u16 r;
     if rd_off r + unat n > length (rd_b r) then None
     else Some (string_of_bytes (take (unat n) (drop (rd_off r) (rd_b r))), r\<lparr>rd_off := rd_off r + unat n\<rparr>)
   }"

definition rd_done :: "Reader \<Rightarrow> bool" where
  "rd_done r \<longleftrightarrow> rd_off r = length (rd_b r)"

text \<open>The counted loops \<^verbatim>\<open>for (i = 0; i < count; ++i)\<close> around a reader.\<close>

fun rd_times :: "(Reader \<Rightarrow> ('a \<times> Reader) option) \<Rightarrow> nat \<Rightarrow> 'a list \<Rightarrow> Reader \<Rightarrow> ('a list \<times> Reader) option"
where
  "rd_times rd 0 out r = Some (out, r)"
| "rd_times rd (Suc n) out r =
     (case rd r of None \<Rightarrow> None | Some (x, r) \<Rightarrow> rd_times rd n (out @ [x]) r)"

section \<open>Encrypted files\<close>

definition read_file :: "env \<Rightarrow> string \<Rightarrow> world \<Rightarrow> bytes option \<times> world" where
  "read_file E path w =
     (if file_read_ok E (calls w) path then (files w path, next_call w) else (None, next_call w))"

definition valid_header :: "bytes \<Rightarrow> string \<Rightarrow> bool" where
  "valid_header file magic \<longleftrightarrow>
     length file \<ge> kBlobHeaderSize \<and> take (length magic) file = bytes_of_string magic \<and>
     file ! 4 = kFileVersion"

definition read_salt :: "env \<Rightarrow> string \<Rightarrow> string \<Rightarrow> world \<Rightarrow> bytes option \<times> world" where
  "read_salt E path magic w =
     (case read_file E path w of
        (None, w) \<Rightarrow> (None, w)
      | (Some file, w) \<Rightarrow>
          if \<not> valid_header file magic then (None, w)
          else (Some (take kSaltBytes (drop 5 file)), w))"

definition write_blob ::
  "env \<Rightarrow> string \<Rightarrow> string \<Rightarrow> bytes \<Rightarrow> bytes \<Rightarrow> bytes \<Rightarrow> world \<Rightarrow> bool \<times> world" where
  "write_blob E path magic salt key plaintext w =
     (if length salt \<noteq> kSaltBytes \<or> length key \<noteq> kSessionKeyBytes then (False, w)
      else let out = (bytes_of_string magic @ [kFileVersion]) @ salt in
        case seal E key plaintext out w of (sealed, w) \<Rightarrow>
          if sealed = [] then (False, w)
          else let out = out @ sealed; tmp = path @ ''.tmp'' in
            case file_write E (calls w) tmp out of
              OpenFailed \<Rightarrow> (False, next_call w)
            | WriteFailed c \<Rightarrow> (False, (next_call w)\<lparr>files := (files w)(tmp \<mapsto> c)\<rparr>)
            | Closed c \<Rightarrow>
                (let w = (next_call w)\<lparr>files := (files w)(tmp \<mapsto> c)\<rparr> in
                 if file_rename_ok E (calls w) tmp path
                 then (True, (next_call w)\<lparr>files := (files w)(path := files w tmp, tmp := None)\<rparr>)
                 else let w = next_call w in
                   (False, (next_call w)\<lparr>files := (if file_remove_ok E (calls w) tmp
                                                   then (files w)(tmp := None) else files w)\<rparr>)))"

definition read_blob :: "env \<Rightarrow> string \<Rightarrow> string \<Rightarrow> bytes \<Rightarrow> world \<Rightarrow> bytes option \<times> world" where
  "read_blob E path magic key w =
     (case read_file E path w of
        (None, w) \<Rightarrow> (None, w)
      | (Some file, w) \<Rightarrow>
          if \<not> valid_header file magic then (None, w)
          else (open_sealed E key (drop kBlobHeaderSize file) (take kBlobHeaderSize file), w))"

section \<open>Readers as codecs\<close>

text \<open>A reader method as a function of buffer and offset; every method keeps the buffer.\<close>

definition at_cursor :: "(Reader \<Rightarrow> ('a \<times> Reader) option) \<Rightarrow> bytes \<Rightarrow> nat \<Rightarrow> ('a \<times> nat) option" where
  "at_cursor rd b off = map_option (\<lambda>(x, r). (x, rd_off r)) (rd \<lparr>rd_b = b, rd_off = off\<rparr>)"

definition keeps :: "(Reader \<Rightarrow> ('a \<times> Reader) option) \<Rightarrow> bool" where
  "keeps rd \<longleftrightarrow> (\<forall>r x r'. rd r = Some (x, r') \<longrightarrow> rd_b r' = rd_b r)"

lemma keepsI: "(\<And>r x r'. rd r = Some (x, r') \<Longrightarrow> rd_b r' = rd_b r) \<Longrightarrow> keeps rd"
  by (auto simp: keeps_def)

lemma keepsD: "keeps rd \<Longrightarrow> rd r = Some (x, r') \<Longrightarrow> rd_b r' = rd_b r"
  by (auto simp: keeps_def)

lemma keeps_cursor:
  "keeps rd \<Longrightarrow> rd \<lparr>rd_b = b, rd_off = off\<rparr> = Some (x, r) \<Longrightarrow> r = \<lparr>rd_b = b, rd_off = rd_off r\<rparr>"
  by (cases r) (drule (1) keepsD, simp)

lemma at_cursor_bind:
  assumes "keeps m"
  shows "at_cursor (\<lambda>r. Option.bind (m r) (\<lambda>(x, r). f x r)) b off
       = Option.bind (at_cursor m b off) (\<lambda>(x, off). at_cursor (f x) b off)"
proof (cases "m \<lparr>rd_b = b, rd_off = off\<rparr>")
  case (Some y)
  moreover obtain x r where y: "y = (x, r)" by (cases y)
  ultimately have r: "r = \<lparr>rd_b = b, rd_off = rd_off r\<rparr>" by (metis keeps_cursor assms)
  have "at_cursor (\<lambda>r. Option.bind (m r) (\<lambda>(x, r). f x r)) b off
      = map_option (\<lambda>(x, r). (x, rd_off r)) (f x r)"
    by (simp add: at_cursor_def Some y)
  also have "\<dots> = at_cursor (f x) b (rd_off r)" by (simp add: at_cursor_def flip: r)
  finally show ?thesis by (simp add: at_cursor_def [of m] Some y)
qed (simp add: at_cursor_def)

lemma at_cursor_Some [simp]: "at_cursor (\<lambda>r. Some (v, r)) b off = Some (v, off)"
  by (simp add: at_cursor_def)

lemma keeps_bind [intro!]:
  "keeps m \<Longrightarrow> (\<And>x. keeps (f x)) \<Longrightarrow> keeps (\<lambda>r. Option.bind (m r) (\<lambda>(x, r). f x r))"
  unfolding keeps_def by (auto simp: bind_eq_Some_conv)

lemma keeps_Some [intro!, simp]: "keeps (\<lambda>r. Some (v, r))"
  by (simp add: keeps_def)

lemma keeps_prims [simp, intro!]: "keeps rd_u8" "keeps rd_u16" "keeps rd_u32" "keeps rd_u64" "keeps rd_bytes" "keeps rd_str"
  by (auto simp: keeps_def rd_u8_def rd_u16_def rd_u32_def rd_u64_def rd_bytes_def rd_str_def
      bind_eq_Some_conv split: if_splits)

lemma at_cursor_times:
  assumes "keeps rd"
  shows "at_cursor (rd_times rd n out) b off = map_option (\<lambda>(xs, off). (out @ xs, off)) (dec_times (at_cursor rd) n b off)"
proof (induction n arbitrary: out off)
  case 0
  then show ?case by (simp add: at_cursor_def)
next
  case (Suc n)
  show ?case
  proof (cases "rd \<lparr>rd_b = b, rd_off = off\<rparr>")
    case None
    then show ?thesis by (simp add: at_cursor_def)
  next
    case (Some y)
    obtain x r where y: "y = (x, r)" by (cases y)
    have r: "r = \<lparr>rd_b = b, rd_off = rd_off r\<rparr>"
      using keeps_cursor [OF assms] Some y by blast
    have cur: "at_cursor rd b off = Some (x, rd_off r)" by (simp add: at_cursor_def Some y)
    have "at_cursor (rd_times rd (Suc n) out) b off = at_cursor (rd_times rd n (out @ [x])) b (rd_off r)"
      using Some y by (simp add: at_cursor_def flip: r)
    also have "\<dots> = map_option (\<lambda>(xs, off). (out @ xs, off)) (dec_times (at_cursor rd) (Suc n) b off)"
      by (auto simp: Suc.IH cur split: option.splits)
    finally show ?thesis .
  qed
qed

lemma keeps_times [intro!]: "keeps rd \<Longrightarrow> keeps (rd_times rd n out)"
proof (induction n arbitrary: out)
  case (Suc n)
  show ?case
    by (rule keepsI) (auto split: option.splits dest!: keepsD [OF Suc.IH [OF Suc.prems]] keepsD [OF Suc.prems])
qed (simp add: keeps_def)

section \<open>Closed forms and codec interpretations\<close>

lemma ucast_u16_bytes: "(ucast (drop_bit 8 v) :: byte) = byte_at 8 v" "(ucast (v AND 0xFF) :: byte) = byte_at 0 (v :: u16)"
proof -
  show "(ucast (drop_bit 8 v) :: byte) = byte_at 8 v"
    by (rule bit_word_eqI) (simp add: bit_byte_at, simp only: bit_ucast_iff bit_drop_bit_eq comp_def possible_bit_word, auto)
qed (simp add: byte_at_def)

lemma blob_put_u16_eq [bytes_simps]: "blob_put_u16 out v = out @ be_bytes 2 v"
  unfolding blob_put_u16_def ucast_u16_bytes by (simp flip: be_bytes_2)

lemma put_u8_eq [bytes_simps]: "put_u8 out v = out @ [v]"
  by (simp add: put_u8_def)

lemma put_u32_eq [bytes_simps]: "put_u32 out v = out @ be_bytes 4 v"
  unfolding put_u32_def by (simp only: fold_push_back be_bytes_4)

lemma blob_put_u64_eq [bytes_simps]: "blob_put_u64 out v = out @ be_bytes 8 v"
  unfolding blob_put_u64_def by (simp only: fold_push_back be_bytes_8)

lemma put_bytes_eq [bytes_simps]: "put_bytes out b = out @ field_bytes b"
  by (simp add: put_bytes_def field_bytes_def blob_put_u16_eq)

lemma put_str_eq [bytes_simps]: "put_str out s = out @ field_bytes (bytes_of_string s)"
  by (simp add: put_str_def field_bytes_def blob_put_u16_eq)

lemma at_cursor_u16: "at_cursor rd_u16 b off = (if off + 2 > length b then None
    else Some (be_word (take 2 (drop off b)), off + 2))"
proof -
  have "take 2 (drop off b) = [b ! off, b ! (off + 1)]" if "off + 2 \<le> length b"
    using that by (simp add: map_nth_shift [symmetric] upt_rec)
  then show ?thesis by (auto simp: at_cursor_def rd_u16_def be_word_def be_step_def)
qed

lemma at_cursor_u8: "at_cursor rd_u8 b off = (if off + 1 > length b then None else Some (b ! off, off + 1))"
  by (simp add: at_cursor_def rd_u8_def)

lemma at_cursor_u32: "at_cursor rd_u32 b off = (if off + 4 > length b then None
    else Some (be_word (take 4 (drop off b)), off + 4))"
  using fold_be_step_nth [of off 4 b 0] by (auto simp: at_cursor_def rd_u32_def be_word_def not_less)

lemma at_cursor_u64: "at_cursor rd_u64 b off = (if off + 8 > length b then None
    else Some (be_word (take 8 (drop off b)), off + 8))"
  using fold_be_step_nth [of off 8 b 0] by (auto simp: at_cursor_def rd_u64_def be_word_def not_less)

lemma at_cursor_bytes: "at_cursor rd_bytes b off =
   (if off + 2 > length b then None
    else let n = unat (be_word (take 2 (drop off b)) :: u16) in
      if off + 2 + n > length b then None else Some (take n (drop (off + 2) b), off + 2 + n))"
  using at_cursor_u16 [of b off]
  by (auto simp: at_cursor_def rd_bytes_def Let_def keepsD [OF keeps_prims(2)] split: if_splits bind_splits)


lemma rd_str_eq: "rd_str r = map_option (\<lambda>(b, r). (string_of_bytes b, r)) (rd_bytes r)"
  by (auto simp: rd_str_def rd_bytes_def split: bind_splits)

lemma at_cursor_str:
  "at_cursor rd_str b off = map_option (\<lambda>(x, off). (string_of_bytes x, off)) (at_cursor rd_bytes b off)"
  by (cases "rd_bytes \<lparr>rd_b = b, rd_off = off\<rparr>") (auto simp: at_cursor_def rd_str_eq)

lemma take_drop_at: "off + n \<le> length b \<Longrightarrow> take (off + n) b = take off b @ take n (drop off b)"
  by (simp add: take_add)

interpretation u8: exact_codec "\<lambda>x. [x]" "at_cursor rd_u8" "\<lambda>_. True"
  by unfold_locales (auto simp: at_cursor_u8 take_Suc_conv_app_nth split: if_splits)

interpretation u32: exact_codec "be_bytes 4" "at_cursor rd_u32" "\<lambda>_ :: u32. True"
  by unfold_locales (auto simp: at_cursor_u32 take_drop_at split: if_splits)

interpretation u64: exact_codec "be_bytes 8" "at_cursor rd_u64" "\<lambda>_ :: u64. True"
  by unfold_locales (auto simp: at_cursor_u64 take_drop_at split: if_splits)

lemma at_cursor_bytes_sound:
  assumes "at_cursor rd_bytes b off = Some (f, off')"
  shows "fits_u16 f \<and> off' \<le> length b \<and> take off' b = take off b @ field_bytes f"
proof -
  let ?n = "unat (be_word (take 2 (drop off b)) :: u16)"
  from assms have b: "off + 2 + ?n \<le> length b" "off' = off + 2 + ?n" "f = take ?n (drop (off + 2) b)"
    by (auto simp: at_cursor_bytes Let_def split: if_splits)
  have "?n < 65536" using unsigned_less [of "be_word (take 2 (drop off b)) :: u16", where 'a = nat] by simp
  moreover have "be_bytes 2 (be_word (take 2 (drop off b)) :: u16) = take 2 (drop off b)"
    using b(1) by simp
  moreover have "length f = ?n" using b by simp
  ultimately have "field_bytes f = take 2 (drop off b) @ f" by (simp add: field_bytes_def)
  moreover have "take (off + (2 + ?n)) b = take off b @ take (2 + ?n) (drop off b)"
    by (rule take_add)
  moreover have "take (2 + ?n) (drop off b) = take 2 (drop off b) @ f"
    by (simp only: take_add b(3) drop_drop add.commute [of 2 off])
  ultimately have "take off' b = take off b @ field_bytes f" by (simp add: b(2) add.assoc)
  with b \<open>?n < 65536\<close> \<open>length f = ?n\<close> show ?thesis by (simp add: fits_u16_def)
qed

interpretation bytes: exact_codec field_bytes "at_cursor rd_bytes" fits_u16
proof unfold_locales
  fix x :: bytes and pre post
  assume "fits_u16 x"
  then show "at_cursor rd_bytes (pre @ field_bytes x @ post) (length pre)
      = Some (x, length pre + length (field_bytes x))"
    by (simp add: at_cursor_bytes field_bytes_def fits_u16_def)
qed (rule at_cursor_bytes_sound)

interpretation str: exact_codec "\<lambda>s. field_bytes (bytes_of_string s)" "at_cursor rd_str" fits_u16
proof unfold_locales
  fix s :: string and pre post
  assume "fits_u16 s"
  then have "fits_u16 (bytes_of_string s)" by (simp add: fits_u16_def)
  then show "at_cursor rd_str (pre @ field_bytes (bytes_of_string s) @ post) (length pre)
      = Some (s, length pre + length (field_bytes (bytes_of_string s)))"
    by (simp only: at_cursor_str bytes.dec_enc) simp
next
  fix b off x off'
  assume "at_cursor rd_str b off = Some (x, off')"
  then obtain f where "at_cursor rd_bytes b off = Some (f, off')" "x = string_of_bytes f"
    by (auto simp: at_cursor_str)
  with at_cursor_bytes_sound [of b off f off']
  show "fits_u16 x \<and> off' \<le> length b \<and> take off' b = take off b @ field_bytes (bytes_of_string x)"
    by (simp add: fits_u16_def)
qed

section \<open>Counted lists\<close>

text \<open>
  A codec whose decoder is a reader method: then a 32-bit count followed by that many
  encodings is read back by the counted loop.
\<close>

definition counted :: "('a \<Rightarrow> bytes) \<Rightarrow> 'a list \<Rightarrow> bytes" where
  "counted enc xs = be_bytes 4 (of_nat (length xs) :: u32) @ concat (map enc xs)"

definition fits_u32 :: "'a list \<Rightarrow> bool" where
  "fits_u32 xs \<longleftrightarrow> length xs < 4294967296"

lemma fold_append_enc: "fold (\<lambda>x out. out @ enc x) xs out = out @ concat (map enc xs)"
  by (induction xs arbitrary: out) auto

locale reader_codec = codec enc "at_cursor rd" ok
  for enc :: "'a \<Rightarrow> bytes" and rd :: "Reader \<Rightarrow> ('a \<times> Reader) option" and ok :: "'a \<Rightarrow> bool" +
  assumes rd_keeps: "keeps rd"
begin

lemma counted_drop:
  assumes "list_all ok xs" and "fits_u32 xs" and "off \<le> length b"
    and "drop off b = counted enc xs @ rest"
  shows "at_cursor (\<lambda>r. do { (count, r) \<leftarrow> rd_u32 r; rd_times rd (unat count) [] r }) b off
           = Some (xs, off + length (counted enc xs))"
    and "drop (off + length (counted enc xs)) b = rest"
    and "off + length (counted enc xs) \<le> length b"
proof -
  have len: "unat (of_nat (length xs) :: u32) = length xs" using assms(2) by (simp add: fits_u32_def)
  note s1 = u32.dec_drop [OF TrueI assms(3) assms(4) [unfolded counted_def append_assoc]]
  note s2 = dec_times_drop [OF assms(1) s1(3,2)]
  show "at_cursor (\<lambda>r. do { (count, r) \<leftarrow> rd_u32 r; rd_times rd (unat count) [] r }) b off
      = Some (xs, off + length (counted enc xs))"
    using s1 s2 len by (simp add: at_cursor_bind at_cursor_times rd_keeps counted_def add.assoc)
  show "drop (off + length (counted enc xs)) b = rest" "off + length (counted enc xs) \<le> length b"
    using s2 by (simp_all add: counted_def add.assoc)
qed

end

section \<open>Files\<close>

lemma read_file_frame [simp, frame_simps]: "files (snd (read_file E p w)) = files w" "sent (snd (read_file E p w)) = sent w"
  "fds (snd (read_file E p w)) = fds w"
  by (simp_all add: read_file_def)

lemma write_blob_True:
  assumes "write_blob E path magic salt key plaintext w = (True, w')" and "disk_keeps E"
  shows "length salt = kSaltBytes \<and> length key = kSessionKeyBytes \<and>
    files w' = (files w)(path \<mapsto> (bytes_of_string magic @ [kFileVersion] @ salt)
       @ fst (seal E key plaintext (bytes_of_string magic @ [kFileVersion] @ salt) w),
      path @ ''.tmp'' := None) \<and> sent w' = sent w"
  using assms
  by (auto simp: write_blob_def Let_def disk_keeps_def seal_def fun_eq_iff split: if_splits prod.splits write_result.splits)

lemma write_blob_False:
  assumes "write_blob E path magic salt key plaintext w = (False, w')"
  shows "(\<forall>q. q \<noteq> path @ ''.tmp'' \<longrightarrow> files w' q = files w q) \<and> sent w' = sent w"
  using assms
  by (auto simp: write_blob_def Let_def seal_def split: if_splits prod.splits write_result.splits)

text \<open>What \<^verbatim>\<open>write_blob\<close> wrote, \<^verbatim>\<open>read_salt\<close> and \<^verbatim>\<open>read_blob\<close> read back under the same key.\<close>

lemma written_blob_readable:
  assumes "write_blob E path magic salt key plaintext w = (True, w')"
    and "disk_keeps E" "aead_correct E" "random_sized E" "length magic = 4"
    and "files w'' path = files w' path" "file_read_ok E (calls w'') path"
  shows "read_salt E path magic w'' = (Some salt, next_call w'')"
    and "read_blob E path magic key w'' = (Some plaintext, next_call w'')"
proof -
  let ?h = "bytes_of_string magic @ [kFileVersion] @ salt"
  let ?f = "?h @ fst (seal E key plaintext ?h w)"
  from write_blob_True [OF assms(1,2)]
  have len: "length salt = 16" "length key = kSessionKeyBytes" and "files w'' path = Some ?f"
    using assms(6) by (auto simp: kSaltBytes_def)
  then have readf: "read_file E path w'' = (Some ?f, next_call w'')"
    using assms(7) by (simp add: read_file_def)
  have "length ?h = kBlobHeaderSize" using len assms(5) by (simp add: blob_sizes)
  moreover have "valid_header ?f magic"
    using len assms(5) by (simp add: valid_header_def blob_sizes nth_append)
  ultimately show "read_salt E path magic w'' = (Some salt, next_call w'')"
      "read_blob E path magic key w'' = (Some plaintext, next_call w'')"
    using len assms(3-5) readf
    by (simp_all add: read_salt_def read_blob_def blob_sizes open_seal)
qed

section \<open>Properties\<close>

text \<open>
  (C33) Replacing a storage file is atomic, whatever the file system does: a call of \<^verbatim>\<open>write_blob\<close> writes
  to no file but the target and \<^verbatim>\<open>path.tmp\<close>; if it reports failure the target keeps its old content; if it
  reports success the temporary is gone and the target is, as a whole, what the temporary file held after the
  stream for the complete image (header and sealed payload) was closed.  That is the image itself unless the flush
  at the close failed, which the code does not check.
\<close>

theorem write_blob_atomic:
  assumes "write_blob E path magic salt key plaintext w = (ok, w')"
  shows "(\<forall>q. q \<noteq> path \<longrightarrow> q \<noteq> path @ ''.tmp'' \<longrightarrow> files w' q = files w q) \<and>
    (if ok then files w' (path @ ''.tmp'') = None \<and>
       (let header = bytes_of_string magic @ [kFileVersion] @ salt; image = header @ fst (seal E key plaintext header w) in
        \<exists>i c. file_write E i (path @ ''.tmp'') image = Closed c \<and> files w' path = Some c)
     else files w' path = files w path)"
proof (cases ok)
  case True
  with assms show ?thesis
    by (auto simp: write_blob_def Let_def seal_def split: if_splits prod.splits write_result.splits)
next
  case False
  with write_blob_False [of E path magic salt key plaintext w w'] assms show ?thesis by simp
qed

theorem write_blob_atomic_witness:
  "\<exists>w'. write_blob toy_env ''db'' ''OMDB'' (pad 16 []) (pad 32 [5]) [1, 2] toy_world = (True, w') \<and>
     files w' ''db.tmp'' = None \<and>
     files w' ''db'' = Some ((bytes_of_string ''OMDB'' @ [kFileVersion] @ pad 16 [])
       @ fst (seal toy_env (pad 32 [5]) [1, 2] (bytes_of_string ''OMDB'' @ [kFileVersion] @ pad 16 []) toy_world))"
proof -
  obtain ok w' where w: "write_blob toy_env ''db'' ''OMDB'' (pad 16 []) (pad 32 [5]) [1, 2] toy_world = (ok, w')"
    by fastforce
  moreover from w have ok
    by (auto simp: write_blob_def seal_def crypto_sizes kSaltBytes_def Let_def pad_def split: if_splits)
  ultimately show ?thesis using write_blob_atomic [OF w] by simp
qed

text \<open>
  The failure the code does not see: on a disk that loses the buffered bytes when the stream is closed,
  \<^verbatim>\<open>write_blob\<close> reports success and has replaced the target by an empty file.
\<close>

lemma blob_lost_at_close:
  assumes "write_blob (toy_env\<lparr>file_write := \<lambda>i p b. Closed []\<rparr>) ''db'' ''OMDB'' (pad 16 []) (pad 32 [5]) [1, 2] toy_world = (ok, w')"
  shows "ok \<and> files w' ''db'' = Some []"
  using assms
  by (auto simp: write_blob_def seal_def random_bytes_def crypto_sizes kSaltBytes_def Let_def toy_world_def split: prod.splits if_splits)

end
