(* ===== verification/IdentityStore.thy ===== *)
theory IdentityStore
  imports Blob
begin

text \<open>
  At-rest storage of the local identity (\<^verbatim>\<open>libs/storage/src/identity_store.cpp\<close>): the key pair,
  as two length-prefixed fields, in an encrypted file with its own magic.
\<close>

definition kIdentityMagic :: string where "kIdentityMagic = ''OMID''"

definition save_identity :: "env \<Rightarrow> string \<Rightarrow> Identity \<Rightarrow> string \<Rightarrow> world \<Rightarrow> bool \<times> world" where
  "save_identity E path i passphrase w =
     (if \<not> identity_valid i then (False, w)
      else case generate_salt E w of (salt, w) \<Rightarrow>
        (case derive_key E passphrase salt w of (key, w) \<Rightarrow>
           if key = [] then (False, w)
           else let plaintext = put_bytes [] (public_key i);
                    plaintext = put_bytes plaintext (secret_key i)
                in write_blob E path kIdentityMagic salt key plaintext w))"

text \<open>The two fields and \<^verbatim>\<open>done()\<close>.\<close>

definition rd_identity :: "Reader \<Rightarrow> (Identity \<times> Reader) option" where
  "rd_identity r = do {
     (pk, r) \<leftarrow> rd_bytes r;
     (sk, r) \<leftarrow> rd_bytes r;
     Some (\<lparr>public_key = pk, secret_key = sk\<rparr>, r)
   }"

definition load_identity :: "env \<Rightarrow> string \<Rightarrow> string \<Rightarrow> world \<Rightarrow> Identity option \<times> world" where
  "load_identity E path passphrase w =
     (case read_salt E path kIdentityMagic w of
        (None, w) \<Rightarrow> (None, w)
      | (Some salt, w) \<Rightarrow>
          (case derive_key E passphrase salt w of (key, w) \<Rightarrow>
             if key = [] then (None, w)
             else case read_blob E path kIdentityMagic key w of
                 (None, w) \<Rightarrow> (None, w)
               | (Some plaintext, w) \<Rightarrow>
                   (case rd_identity (reader plaintext) of
                      None \<Rightarrow> (None, w)
                    | Some (i, r) \<Rightarrow>
                        if \<not> rd_done r \<or> \<not> identity_valid i then (None, w) else (Some i, w))))"

lemma keeps_rd_identity [simp, intro!]: "keeps rd_identity"
  unfolding rd_identity_def by (intro keeps_bind keeps_prims keeps_Some)

lemma rd_identity_written:
  assumes "identity_valid i"
  shows "\<exists>r. rd_identity (reader (field_bytes (public_key i) @ field_bytes (secret_key i))) = Some (i, r) \<and>
     rd_done r"
proof -
  let ?b = "field_bytes (public_key i) @ field_bytes (secret_key i)"
  have fits: "fits_u16 (public_key i)" "fits_u16 (secret_key i)"
    using assms by (simp_all add: identity_valid_def fits_u16_def crypto_sizes)
  have b: "drop 0 ?b = field_bytes (public_key i) @ field_bytes (secret_key i) @ []" by simp
  note s1 = bytes.dec_drop [OF fits(1) le0 b]
  note s2 = bytes.dec_drop [OF fits(2) s1(3,2)]
  have "at_cursor rd_identity ?b 0 = Some (i, length ?b)"
    using s1(1) s2(1) unfolding rd_identity_def by (simp add: at_cursor_bind)
  then obtain r where r: "rd_identity (reader ?b) = Some (i, r)" "rd_off r = length ?b"
    by (auto simp: at_cursor_def reader_def)
  moreover have "rd_b r = ?b" using keepsD [OF keeps_rd_identity r(1)] by (simp add: reader_def)
  ultimately show ?thesis by (auto simp: rd_done_def)
qed

lemma identity_reload:
  assumes laws: "disk_keeps E" "aead_correct E" "random_sized E" "pwhash_deterministic E"
    and saved: "save_identity E path i pass w = (True, w1)"
    and files: "files w2 path = files w1 path" "\<forall>k. file_read_ok E k path"
  shows "fst (load_identity E path pass w2) = Some i"
proof -
  obtain salt w' where salt: "generate_salt E w = (salt, w')" by fastforce
  obtain key w'' where key: "derive_key E pass salt w' = (key, w'')" by fastforce
  let ?p = "field_bytes (public_key i) @ field_bytes (secret_key i)"
  from saved have valid: "identity_valid i" and "key \<noteq> []"
    and blob: "write_blob E path kIdentityMagic salt key ?p w'' = (True, w1)"
    by (auto simp: save_identity_def salt key bytes_simps Let_def split: if_splits)
  have magic: "length kIdentityMagic = 4" by (simp add: kIdentityMagic_def)
  note rd = written_blob_readable [OF blob laws(1-3) magic]
  have "fst (derive_key E pass salt (next_call w2)) = key"
    using derive_key_deterministic [OF laws(4), of pass salt _ w'] by (simp add: key)
  then obtain w3 where w3: "derive_key E pass salt (next_call w2) = (key, w3)" by (metis prod.collapse)
  have "files w3 path = files w1 path"
    using derive_key_frame(1) [of E pass salt "next_call w2"] files(1) by (simp add: w3)
  then show ?thesis
    using rd(1) [OF files(1)] rd(2) [of w3] files(2) w3 \<open>key \<noteq> []\<close> rd_identity_written [OF valid] valid
    by (auto simp: load_identity_def)
qed

text \<open>
  A saved identity is restored: if \<^verbatim>\<open>save_identity\<close> reports success, loading the file
  with the same passphrase returns exactly that identity (for a correct AEAD, a
  deterministic password hash and a disk that keeps what was written).
\<close>

theorem identity_restored:
  assumes laws: "disk_keeps E" "aead_correct E" "random_sized E" "pwhash_deterministic E"
    and saved: "save_identity E path i pass w = (True, w1)"
    and files: "files w2 = files w1" "\<forall>k. file_read_ok E k path"
  shows "fst (load_identity E path pass w2) = Some i"
  by (rule identity_reload [OF assms(1-5)]) (simp_all add: assms(6,7))

theorem identity_restored_witness:
  "\<exists>w1. save_identity toy_env ''id'' \<lparr>public_key = pad 32 [1], secret_key = pad 64 [1]\<rparr> ''pass'' toy_world = (True, w1) \<and>
     fst (load_identity toy_env ''id'' ''pass'' w1) = Some \<lparr>public_key = pad 32 [1], secret_key = pad 64 [1]\<rparr>"
proof -
  let ?i = "\<lparr>public_key = pad 32 [1], secret_key = pad 64 [1]\<rparr>"
  obtain ok w1 where w: "save_identity toy_env ''id'' ?i ''pass'' toy_world = (ok, w1)" by fastforce
  have "pad 32 x \<noteq> []" for x by (metis length_pad list.size(3) zero_neq_numeral)
  with w have ok
    by (auto simp: save_identity_def identity_valid_def generate_salt_def random_bytes_def derive_key_def
        write_blob_def seal_def crypto_sizes kSaltBytes_def Let_def split: if_splits)
  then show ?thesis
    using identity_restored [OF toy_env_laws(11,1,3,5), of "''id''" ?i "''pass''" toy_world w1 w1] w by simp
qed

end
