(* ===== verification/Packet.thy ===== *)
theory Packet
  imports Codec
begin

text \<open>
  The wire envelope of protocol version 1 (\<^verbatim>\<open>libs/protocol\<close>): packet types, the packet
  record, the big-endian writers and readers, \<^verbatim>\<open>serialize\<close>, \<^verbatim>\<open>associated_data\<close>,
  \<^verbatim>\<open>parse\<close> and \<^verbatim>\<open>deserialize\<close>.  Offsets and sizes (\<^verbatim>\<open>std::size_t\<close>) are \<open>nat\<close>: every
  offset is bounded by the buffer's length plus 65537, far below \<open>2^64\<close>.  The
  \<^verbatim>\<open>assert\<close> of \<^verbatim>\<open>put_field\<close> is compiled out in the release builds that the
  deployment images use; the model is that build (the length prefix wraps), and
  \<open>fits_u16\<close> is the asserted condition, the documented precondition of \<^verbatim>\<open>serialize\<close>.
\<close>

section \<open>Packet types\<close>

text \<open>
  \<^verbatim>\<open>enum class PacketType : std::uint8_t\<close>.  The parser casts any byte to it, so a packet
  may carry a value without an enumerator: \<open>UnnamedType\<close>.
\<close>

datatype PacketType =
    Hello | Register | Discover | Connect | ContactRequest | ContactResponse
  | Message | Ack | Heartbeat | Disconnect | UnnamedType byte

fun wire_value :: "PacketType \<Rightarrow> byte" where
  "wire_value Hello = 0x01"
| "wire_value Register = 0x02"
| "wire_value Discover = 0x03"
| "wire_value Connect = 0x04"
| "wire_value ContactRequest = 0x05"
| "wire_value ContactResponse = 0x06"
| "wire_value Message = 0x07"
| "wire_value Ack = 0x08"
| "wire_value Heartbeat = 0x09"
| "wire_value Disconnect = 0x0A"
| "wire_value (UnnamedType b) = b"

definition packet_type_of :: "byte \<Rightarrow> PacketType" where
  "packet_type_of b =
     (if b = 0x01 then Hello else if b = 0x02 then Register else if b = 0x03 then Discover
      else if b = 0x04 then Connect else if b = 0x05 then ContactRequest
      else if b = 0x06 then ContactResponse else if b = 0x07 then Message
      else if b = 0x08 then Ack else if b = 0x09 then Heartbeat
      else if b = 0x0A then Disconnect else UnnamedType b)"

definition packet_type_name :: "PacketType \<Rightarrow> string" where
  "packet_type_name t = (case t of
      Hello \<Rightarrow> ''HELLO'' | Register \<Rightarrow> ''REGISTER'' | Discover \<Rightarrow> ''DISCOVER''
    | Connect \<Rightarrow> ''CONNECT'' | ContactRequest \<Rightarrow> ''CONTACT_REQUEST''
    | ContactResponse \<Rightarrow> ''CONTACT_RESPONSE'' | Message \<Rightarrow> ''MESSAGE'' | Ack \<Rightarrow> ''ACK''
    | Heartbeat \<Rightarrow> ''HEARTBEAT'' | Disconnect \<Rightarrow> ''DISCONNECT'' | UnnamedType _ \<Rightarrow> ''UNKNOWN'')"

text \<open>The values an object of the enumeration type can hold: one representation per byte.\<close>

definition wf_type :: "PacketType \<Rightarrow> bool" where
  "wf_type t \<longleftrightarrow> packet_type_of (wire_value t) = t"

section \<open>The packet\<close>

definition kMagic :: u16 where "kMagic = 0x4F4D"
definition kProtocolVersion :: byte where "kProtocolVersion = 1"
definition kHeaderSize :: nat where "kHeaderSize = 13"
definition kMinPacketSize :: nat where "kMinPacketSize = kHeaderSize + 3 * 2"
definition kMaxDatagramSize :: nat where "kMaxDatagramSize = 1232"

definition kFlagNone :: byte where "kFlagNone = 0x00"
definition kFlagEncrypted :: byte where "kFlagEncrypted = 0x01"
definition kFlagAckRequested :: byte where "kFlagAckRequested = 0x02"
definition kFlagFragmented :: byte where "kFlagFragmented = 0x04"

record Packet =
  version :: byte
  ptype :: PacketType
  flags :: byte
  counter :: u64
  source :: bytes
  destination :: bytes
  payload :: bytes

text \<open>The default member initialisers of the struct.\<close>

definition default_packet :: Packet where
  "default_packet = \<lparr>version = kProtocolVersion, ptype = Hello, flags = kFlagNone, counter = 0,
     source = [], destination = [], payload = []\<rparr>"

definition has_flag :: "Packet \<Rightarrow> byte \<Rightarrow> bool" where
  "has_flag p f \<longleftrightarrow> (flags p AND f) \<noteq> 0"

definition encrypted :: "Packet \<Rightarrow> bool" where
  "encrypted p = has_flag p kFlagEncrypted"

datatype ParseError =
  Ok | TooShort | BadMagic | UnsupportedVersion | TruncatedField | TrailingBytes

definition parse_error_name :: "ParseError \<Rightarrow> string" where
  "parse_error_name e = (case e of
      Ok \<Rightarrow> ''ok'' | TooShort \<Rightarrow> ''too-short'' | BadMagic \<Rightarrow> ''bad-magic''
    | UnsupportedVersion \<Rightarrow> ''unsupported-version'' | TruncatedField \<Rightarrow> ''truncated-field''
    | TrailingBytes \<Rightarrow> ''trailing-bytes'')"

section \<open>Writers\<close>

definition put_u16 :: "bytes \<Rightarrow> u16 \<Rightarrow> bytes" where
  "put_u16 out value = (out @ [byte_at 8 value]) @ [byte_at 0 value]"

definition put_u64 :: "bytes \<Rightarrow> u64 \<Rightarrow> bytes" where
  "put_u64 out value =
     fold (\<lambda>shift out. out @ [byte_at shift value]) [56, 48, 40, 32, 24, 16, 8, 0] out"

definition put_field :: "bytes \<Rightarrow> bytes \<Rightarrow> bytes" where
  "put_field out field = put_u16 out (of_nat (length field)) @ field"

definition write_header_and_routing :: "bytes \<Rightarrow> Packet \<Rightarrow> bytes" where
  "write_header_and_routing out packet =
     (let out = put_u16 out kMagic;
          out = out @ [version packet];
          out = out @ [wire_value (ptype packet)];
          out = out @ [flags packet];
          out = put_u64 out (counter packet);
          out = put_field out (source packet)
      in put_field out (destination packet))"

definition serialize :: "Packet \<Rightarrow> bytes" where
  "serialize packet = put_field (write_header_and_routing [] packet) (payload packet)"

definition associated_data :: "Packet \<Rightarrow> bytes" where
  "associated_data packet = write_header_and_routing [] packet"

section \<open>Readers\<close>

definition get_u16 :: "bytes \<Rightarrow> nat \<Rightarrow> u16" where
  "get_u16 b offset = push_bit 8 (ucast (b ! offset)) OR ucast (b ! (offset + 1))"

definition get_u64 :: "bytes \<Rightarrow> nat \<Rightarrow> u64" where
  "get_u64 b offset = fold (\<lambda>i value. be_step (b ! (offset + i)) value) [0..<8] 0"

text \<open>
  \<^verbatim>\<open>read_field\<close> returns whether it succeeded, the advanced \<^verbatim>\<open>offset\<close> and the \<^verbatim>\<open>out\<close>
  argument; a declared length past the end leaves \<^verbatim>\<open>out\<close> alone but has moved \<^verbatim>\<open>offset\<close>.
\<close>

definition read_field :: "bytes \<Rightarrow> nat \<Rightarrow> bytes \<Rightarrow> bool \<times> nat \<times> bytes" where
  "read_field b offset out =
     (if offset + 2 > length b then (False, offset, out)
      else let len = unat (get_u16 b offset); offset = offset + 2
           in if offset + len > length b then (False, offset, out)
              else (True, offset + len, take len (drop offset b)))"

definition parse :: "bytes \<Rightarrow> Packet \<Rightarrow> ParseError \<times> Packet" where
  "parse b out =
     (if length b < kHeaderSize then (TooShort, out)
      else if get_u16 b 0 \<noteq> kMagic then (BadMagic, out)
      else let offset = 2; ver = b ! offset;
               offset = offset + 1; ty = packet_type_of (b ! offset);
               offset = offset + 1; fl = b ! offset;
               offset = offset + 1; cnt = get_u64 b offset;
               offset = offset + 8
           in if ver \<noteq> kProtocolVersion then (UnsupportedVersion, out)
              else case read_field b offset [] of (ok1, offset, src) \<Rightarrow>
                if \<not> ok1 then (TruncatedField, out)
                else case read_field b offset [] of (ok2, offset, dst) \<Rightarrow>
                  if \<not> ok2 then (TruncatedField, out)
                  else case read_field b offset [] of (ok3, offset, pay) \<Rightarrow>
                    if \<not> ok3 then (TruncatedField, out)
                    else if offset \<noteq> length b then (TrailingBytes, out)
                    else (Ok, out\<lparr>version := ver, ptype := ty, flags := fl, counter := cnt,
                            source := src, destination := dst, payload := pay\<rparr>))"

text \<open>The callers pass a default-initialised packet and use it only on success.\<close>

definition deserialize :: "bytes \<Rightarrow> Packet \<Rightarrow> bool \<times> Packet" where
  "deserialize b out = (case parse b out of (e, out) \<Rightarrow> (e = Ok, out))"

text \<open>
  The same readers with every element access checked: \<^verbatim>\<open>operator[]\<close> and the iterator
  range of \<^verbatim>\<open>assign\<close> are undefined outside the buffer, here \<open>None\<close>.
\<close>

definition at_checked :: "bytes \<Rightarrow> nat \<Rightarrow> byte option" where
  "at_checked b i = (if i < length b then Some (b ! i) else None)"

definition get_u16_checked :: "bytes \<Rightarrow> nat \<Rightarrow> u16 option" where
  "get_u16_checked b offset =
     (case (at_checked b offset, at_checked b (offset + 1)) of
        (Some hi, Some lo) \<Rightarrow> Some (push_bit 8 (ucast hi) OR ucast lo)
      | _ \<Rightarrow> None)"

definition get_u64_checked :: "bytes \<Rightarrow> nat \<Rightarrow> u64 option" where
  "get_u64_checked b offset =
     fold (\<lambda>i acc. case (acc, at_checked b (offset + i)) of
             (Some value, Some x) \<Rightarrow> Some (be_step x value)
           | _ \<Rightarrow> None) [0..<8] (Some 0)"

definition read_field_checked :: "bytes \<Rightarrow> nat \<Rightarrow> bytes \<Rightarrow> (bool \<times> nat \<times> bytes) option" where
  "read_field_checked b offset out =
     (if offset + 2 > length b then Some (False, offset, out)
      else case get_u16_checked b offset of None \<Rightarrow> None
      | Some len \<Rightarrow>
          (let len = unat len; offset = offset + 2
           in if offset + len > length b then Some (False, offset, out)
              else if offset \<le> length b \<and> offset + len \<le> length b
              then Some (True, offset + len, take len (drop offset b)) else None))"

definition parse_checked :: "bytes \<Rightarrow> Packet \<Rightarrow> (ParseError \<times> Packet) option" where
  "parse_checked b out =
     (if length b < kHeaderSize then Some (TooShort, out)
      else case get_u16_checked b 0 of None \<Rightarrow> None
      | Some magic \<Rightarrow>
          if magic \<noteq> kMagic then Some (BadMagic, out)
          else case (at_checked b 2, at_checked b 3, at_checked b 4, get_u64_checked b 5) of
            (Some ver, Some ty, Some fl, Some cnt) \<Rightarrow>
              if ver \<noteq> kProtocolVersion then Some (UnsupportedVersion, out)
              else (case read_field_checked b 13 [] of None \<Rightarrow> None
              | Some (ok1, offset, src) \<Rightarrow>
                  if \<not> ok1 then Some (TruncatedField, out)
                  else (case read_field_checked b offset [] of None \<Rightarrow> None
                  | Some (ok2, offset, dst) \<Rightarrow>
                      if \<not> ok2 then Some (TruncatedField, out)
                      else (case read_field_checked b offset [] of None \<Rightarrow> None
                      | Some (ok3, offset, pay) \<Rightarrow>
                          if \<not> ok3 then Some (TruncatedField, out)
                          else if offset \<noteq> length b then Some (TrailingBytes, out)
                          else Some (Ok, out\<lparr>version := ver, ptype := packet_type_of ty, flags := fl,
                                 counter := cnt, source := src, destination := dst,
                                 payload := pay\<rparr>))))
          | _ \<Rightarrow> None)"

section \<open>Closed forms\<close>

definition header_bytes :: "Packet \<Rightarrow> bytes" where
  "header_bytes p = be_bytes 2 kMagic @ [version p, wire_value (ptype p), flags p] @ be_bytes 8 (counter p)"

definition wf_packet :: "Packet \<Rightarrow> bool" where
  "wf_packet p \<longleftrightarrow> version p = kProtocolVersion \<and> wf_type (ptype p) \<and>
     fits_u16 (source p) \<and> fits_u16 (destination p) \<and> fits_u16 (payload p)"

lemma put_u16_eq [bytes_simps]: "put_u16 out v = out @ be_bytes 2 v"
  by (simp add: put_u16_def flip: be_bytes_2)

lemma put_u64_eq [bytes_simps]: "put_u64 out v = out @ be_bytes 8 v"
  unfolding put_u64_def by (simp only: fold_push_back be_bytes_8)

lemma put_field_eq [bytes_simps]: "put_field out f = out @ field_bytes f"
  by (simp add: put_field_def field_bytes_def put_u16_eq)

lemma associated_data_eq:
  "associated_data p = header_bytes p @ field_bytes (source p) @ field_bytes (destination p)"
  by (simp add: associated_data_def write_header_and_routing_def header_bytes_def Let_def bytes_simps)

lemma serialize_eq:
  "serialize p = header_bytes p @ field_bytes (source p) @ field_bytes (destination p)
     @ field_bytes (payload p)"
  by (simp add: serialize_def associated_data_eq [unfolded associated_data_def] put_field_eq)

lemma length_header_bytes [simp]: "length (header_bytes p) = 13"
  by (simp add: header_bytes_def)

lemma get_u16_eq: "offset + 2 \<le> length b \<Longrightarrow> get_u16 b offset = be_word (take 2 (drop offset b))"
proof -
  assume "offset + 2 \<le> length b"
  then have "take 2 (drop offset b) = [b ! offset, b ! (offset + 1)]"
    by (simp add: map_nth_shift [symmetric] upt_rec)
  then show ?thesis by (simp add: get_u16_def be_word_def be_step_def)
qed

lemma get_u64_eq: "offset + 8 \<le> length b \<Longrightarrow> get_u64 b offset = be_word (take 8 (drop offset b))"
  unfolding get_u64_def be_word_def by (rule fold_be_step_nth)

section \<open>Fields form an exact codec\<close>

definition read_field_at :: "bytes \<Rightarrow> nat \<Rightarrow> (bytes \<times> nat) option" where
  "read_field_at b offset =
     (case read_field b offset [] of (ok, offset', f) \<Rightarrow> if ok then Some (f, offset') else None)"

lemma read_field_at_enc:
  assumes "fits_u16 f"
  shows "read_field_at (pre @ field_bytes f @ post) (length pre)
       = Some (f, length pre + length (field_bytes f))"
  using assms by (simp add: read_field_at_def read_field_def get_u16_eq field_bytes_def fits_u16_def Let_def)

lemma read_field_at_sound:
  assumes "read_field_at b off = Some (f, off')" and "off \<le> length b"
  shows "fits_u16 f \<and> off' \<le> length b \<and> take off' b = take off b @ field_bytes f"
proof -
  let ?len = "unat (get_u16 b off)"
  from assms have b: "off + 2 + ?len \<le> length b" "off' = off + 2 + ?len"
      "f = take ?len (drop (off + 2) b)"
    by (auto simp: read_field_at_def read_field_def Let_def split: if_splits)
  have len: "length f = ?len" using b by simp
  have "?len < 65536" using unsigned_less [of "get_u16 b off"] by simp
  moreover have "be_bytes 2 (get_u16 b off) = take 2 (drop off b)"
    using b(1) by (simp add: get_u16_eq)
  ultimately have "field_bytes f = take 2 (drop off b) @ f"
    by (simp add: field_bytes_def len)
  also have "\<dots> = take (2 + ?len) (drop off b)"
    by (simp only: b(3) take_add drop_drop add.commute [of off 2])
  finally have "take off' b = take off b @ field_bytes f"
    by (simp only: b(2) take_add add.assoc append_assoc)
  with b \<open>?len < 65536\<close> show ?thesis by (simp add: fits_u16_def len)
qed

interpretation field: exact_codec field_bytes read_field_at fits_u16
  by unfold_locales (simp_all add: read_field_at_enc read_field_at_sound)

text \<open>\<open>parse\<close> in terms of the field codec: the header check, three fields, nothing left.\<close>

lemma parse_eq:
  "parse b out =
     (if length b < 13 then (TooShort, out)
      else if take 2 b \<noteq> be_bytes 2 kMagic then (BadMagic, out)
      else if b ! 2 \<noteq> kProtocolVersion then (UnsupportedVersion, out)
      else case read_field_at b 13 of None \<Rightarrow> (TruncatedField, out)
      | Some (src, o1) \<Rightarrow> (case read_field_at b o1 of None \<Rightarrow> (TruncatedField, out)
      | Some (dst, o2) \<Rightarrow> (case read_field_at b o2 of None \<Rightarrow> (TruncatedField, out)
      | Some (pay, o3) \<Rightarrow>
          if o3 \<noteq> length b then (TrailingBytes, out)
          else (Ok, \<lparr>version = b ! 2, ptype = packet_type_of (b ! 3), flags = b ! 4,
                  counter = be_word (take 8 (drop 5 b)), source = src, destination = dst,
                  payload = pay\<rparr>))))"
proof (cases "length b < 13")
  case True
  then show ?thesis by (simp add: parse_def kHeaderSize_def)
next
  case False
  have len: "2 \<le> length b" using False by simp
  then have magic: "get_u16 b 0 = kMagic \<longleftrightarrow> take 2 b = be_bytes 2 kMagic"
    by (metis (no_types, lifting) get_u16_eq be_word_u16 be_bytes_u16 add_0 drop0 length_take min.absorb2)
  have cnt: "get_u64 b 5 = be_word (take 8 (drop 5 b))"
    using False by (simp add: get_u64_eq)
  show ?thesis
    using False
    by (auto simp: parse_def kHeaderSize_def Let_def magic cnt read_field_at_def
        split: prod.splits if_splits)
qed

lemma packet_type_of_wf [simp]: "wf_type (packet_type_of b)"
  by (auto simp: wf_type_def packet_type_of_def)

lemma wire_value_packet_type_of [simp]: "wire_value (packet_type_of b) = b"
  by (auto simp: packet_type_of_def)

text \<open>The three fields of a serialized packet, and where they end.\<close>

lemma read_fields_serialize:
  assumes "wf_packet p"
  obtains o1 o2 where "read_field_at (serialize p) 13 = Some (source p, o1)"
    and "read_field_at (serialize p) o1 = Some (destination p, o2)"
    and "read_field_at (serialize p) o2 = Some (payload p, length (serialize p))"
proof -
  let ?h = "header_bytes p" and ?s = "field_bytes (source p)" and ?d = "field_bytes (destination p)"
    and ?y = "field_bytes (payload p)"
  let ?b = "serialize p"
  have fits: "fits_u16 (source p)" "fits_u16 (destination p)" "fits_u16 (payload p)"
    using assms by (simp_all add: wf_packet_def)
  have "read_field_at ?b 13 = Some (source p, 13 + length ?s)"
    by (rule field.dec_enc_off [where pre = ?h, OF fits(1)]) (simp_all add: serialize_eq)
  moreover have "read_field_at ?b (13 + length ?s) = Some (destination p, 13 + length ?s + length ?d)"
    by (rule field.dec_enc_off [where pre = "?h @ ?s", OF fits(2)]) (simp_all add: serialize_eq)
  moreover have "read_field_at ?b (13 + length ?s + length ?d)
      = Some (payload p, 13 + length ?s + length ?d + length ?y)"
    by (rule field.dec_enc_off [where pre = "?h @ ?s @ ?d" and post = "[]", OF fits(3)])
       (simp_all add: serialize_eq)
  moreover have "length ?b = 13 + length ?s + length ?d + length ?y"
    by (simp add: serialize_eq)
  ultimately show ?thesis using that by metis
qed

lemma serialize_header:
  "take 2 (serialize p) = be_bytes 2 kMagic" "serialize p ! 2 = version p"
  "serialize p ! 3 = wire_value (ptype p)" "serialize p ! 4 = flags p"
  "take 8 (drop 5 (serialize p)) = be_bytes 8 (counter p)" "\<not> length (serialize p) < 13"
  by (simp_all add: serialize_eq header_bytes_def nth_append)

lemma parse_serialize_ok:
  assumes "wf_packet p"
  shows "parse (serialize p) out = (Ok, p)"
proof -
  obtain o1 o2 where "read_field_at (serialize p) 13 = Some (source p, o1)"
      "read_field_at (serialize p) o1 = Some (destination p, o2)"
      "read_field_at (serialize p) o2 = Some (payload p, length (serialize p))"
    using assms by (rule read_fields_serialize)
  with assms show ?thesis
    by (simp add: parse_eq wf_packet_def wf_type_def serialize_header)
qed

lemma header_bytes_parsed:
  assumes "13 \<le> length b" and "take 2 b = be_bytes 2 kMagic"
    and "version p = b ! 2" and "wire_value (ptype p) = b ! 3" and "flags p = b ! 4"
    and "counter p = be_word (take 8 (drop 5 b))"
  shows "header_bytes p = take 13 b"
proof -
  have "take 3 (drop 2 b) = [b ! 2, b ! 3, b ! 4]"
    using assms(1) by (simp add: map_nth_shift [symmetric] upt_rec) (simp add: numeral_eq_Suc)
  moreover have "take 13 b = take 2 b @ take 3 (drop 2 b) @ take 8 (drop 5 b)"
    by (simp flip: take_add [of 3 8 "drop 2 b", simplified] take_add [of 2 11 b, simplified])
  ultimately show ?thesis using assms by (simp add: header_bytes_def)
qed

lemma parse_Ok_sound:
  assumes "parse b out = (Ok, p)"
  shows "wf_packet p \<and> serialize p = b"
proof -
  from assms obtain src dst pay o1 o2 o3 where
    f: "read_field_at b 13 = Some (src, o1)" "read_field_at b o1 = Some (dst, o2)"
      "read_field_at b o2 = Some (pay, o3)" and o3: "o3 = length b"
    and hdr: "13 \<le> length b" "take 2 b = be_bytes 2 kMagic" "b ! 2 = kProtocolVersion"
    and p: "p = \<lparr>version = b ! 2, ptype = packet_type_of (b ! 3), flags = b ! 4,
        counter = be_word (take 8 (drop 5 b)), source = src, destination = dst, payload = pay\<rparr>"
    by (auto simp: parse_eq split: if_splits option.splits prod.splits)
  note s1 = field.dec_sound [OF f(1) hdr(1)]
  note s2 = field.dec_sound [OF f(2), OF conjunct1 [OF conjunct2 [OF s1]]]
  note s3 = field.dec_sound [OF f(3), OF conjunct1 [OF conjunct2 [OF s2]]]
  have "header_bytes p = take 13 b"
    using hdr by (intro header_bytes_parsed) (simp_all add: p)
  then have "serialize p = take o3 b"
    using s1 s2 s3 by (simp add: serialize_eq p)
  with s1 s2 s3 hdr o3 show ?thesis by (simp add: wf_packet_def p)
qed


section \<open>Memory safety of the parser\<close>

lemma get_u16_checked_eq: "offset + 2 \<le> length b \<Longrightarrow> get_u16_checked b offset = Some (get_u16 b offset)"
  by (simp add: get_u16_checked_def at_checked_def get_u16_def)

lemma fold_checked:
  assumes "\<forall>i\<in>set is. offset + i < length b"
  shows "fold (\<lambda>i acc. case (acc, at_checked b (offset + i)) of
             (Some value, Some x) \<Rightarrow> Some (be_step x value) | _ \<Rightarrow> None) is (Some v)
       = Some (fold (\<lambda>i. be_step (b ! (offset + i))) is v)"
  using assms by (induction "is" arbitrary: v) (auto simp: at_checked_def)

lemma get_u64_checked_eq: "offset + 8 \<le> length b \<Longrightarrow> get_u64_checked b offset = Some (get_u64 b offset)"
  unfolding get_u64_checked_def get_u64_def by (rule fold_checked) auto

lemma read_field_checked_eq: "read_field_checked b offset out = Some (read_field b offset out)"
  by (simp add: read_field_checked_def read_field_def get_u16_checked_eq Let_def)

lemma parse_checked_eq: "parse_checked b out = Some (parse b out)"
proof (cases "length b < kHeaderSize")
  case True
  then show ?thesis by (simp add: parse_checked_def parse_def)
next
  case False
  then have len: "13 \<le> length b" by (simp add: kHeaderSize_def)
  then have "get_u16_checked b 0 = Some (get_u16 b 0)" "at_checked b 2 = Some (b ! 2)"
      "at_checked b 3 = Some (b ! 3)" "at_checked b 4 = Some (b ! 4)"
      "get_u64_checked b 5 = Some (get_u64 b 5)"
    by (simp_all add: get_u16_checked_eq get_u64_checked_eq at_checked_def)
  with len show ?thesis
    by (simp add: parse_checked_def parse_def kHeaderSize_def Let_def read_field_checked_eq
        split: prod.splits)
qed

section \<open>Truncated datagrams\<close>

lemma read_field_at_bound:
  "read_field_at b off = Some (f, off') \<Longrightarrow> off \<le> off' \<and> off' \<le> length b"
  by (auto simp: read_field_at_def read_field_def Let_def split: if_splits)

text \<open>A field that fits in a prefix of the buffer reads the same in the whole buffer.\<close>

lemma read_field_at_mono:
  assumes "read_field_at (take n b) off = Some (f, off')"
  shows "read_field_at b off = Some (f, off')"
proof -
  have "get_u16 (take n b) off = get_u16 b off" if "off + 2 \<le> length (take n b)"
    using that by (simp add: get_u16_def)
  with assms show ?thesis
    by (auto simp: read_field_at_def read_field_def Let_def take_drop min_def
        split: if_splits)
qed

lemma parse_serialize_truncated:
  assumes "wf_packet p" and "n < length (serialize p)"
  shows "fst (parse (take n (serialize p)) out) = (if n < 13 then TooShort else TruncatedField)"
proof (cases "n < 13")
  case True
  then have "length (take n (serialize p)) < kHeaderSize" by (simp add: kHeaderSize_def)
  with True show ?thesis by (simp only: parse_def if_True if_False fst_conv)
next
  case False
  let ?b = "serialize p"
  have "take 2 (take n ?b) = be_bytes 2 kMagic" "take n ?b ! 2 = kProtocolVersion"
      "\<not> length (take n ?b) < 13"
    using False assms by (simp_all add: serialize_header wf_packet_def min_def)
  moreover have "False"
    if "read_field_at (take n ?b) 13 = Some (s, o1)" "read_field_at (take n ?b) o1 = Some (d, o2)"
      "read_field_at (take n ?b) o2 = Some (y, o3)" for s d y o1 o2 o3
  proof -
    obtain p1 p2 where "read_field_at ?b 13 = Some (source p, p1)"
        "read_field_at ?b p1 = Some (destination p, p2)"
        "read_field_at ?b p2 = Some (payload p, length ?b)"
      using assms(1) by (rule read_fields_serialize)
    with that have "o3 = length ?b"
      by (auto dest!: read_field_at_mono)
    with read_field_at_bound [OF that(3)] assms(2) show False by simp
  qed
  ultimately show ?thesis
    using False by (simp add: parse_eq split: option.splits) blast
qed

section \<open>Associated data\<close>

lemma header_bytes_inj:
  assumes "header_bytes p = header_bytes q"
  shows "version p = version q \<and> wire_value (ptype p) = wire_value (ptype q) \<and>
    flags p = flags q \<and> counter p = counter q"
proof -
  have "be_bytes 8 (counter p) = be_bytes 8 (counter q)"
    using assms by (simp add: header_bytes_def)
  then have "counter p = counter q" by (metis be_word_u64)
  with assms show ?thesis by (simp add: header_bytes_def)
qed

lemma associated_data_cong:
  "version p = version q \<Longrightarrow> ptype p = ptype q \<Longrightarrow> flags p = flags q \<Longrightarrow> counter p = counter q \<Longrightarrow>
   source p = source q \<Longrightarrow> destination p = destination q \<Longrightarrow> associated_data p = associated_data q"
  by (simp add: associated_data_eq header_bytes_def)

lemma deserialize_serialize [simp]: "wf_packet p \<Longrightarrow> deserialize (serialize p) out = (True, p)"
  by (simp add: deserialize_def parse_serialize_ok)

lemma deserialize_True_iff: "deserialize b out = (True, p) \<longleftrightarrow> parse b out = (Ok, p)"
  by (auto simp: deserialize_def split: prod.splits)

text \<open>What a length prefix promises and the bytes do not hold.\<close>

definition cut_short :: "bytes \<Rightarrow> bool" where
  "cut_short rest \<longleftrightarrow> length rest < 2 + (if length rest < 2 then 0 else unat (be_word (take 2 rest) :: u16))"

lemma read_field_at_None: "off \<le> length b \<Longrightarrow> read_field_at b off = None \<longleftrightarrow> cut_short (drop off b)"
  by (auto simp: read_field_at_def read_field_def cut_short_def get_u16_eq Let_def)

lemma cut_short_field: "fits_u16 f \<Longrightarrow> \<not> cut_short (field_bytes f @ r)"
  by (simp add: cut_short_def field_bytes_def fits_u16_def)

lemma read_field_at_Some:
  assumes "off \<le> length b" "read_field_at b off = Some (f, off')"
  shows "fits_u16 f \<and> off' \<le> length b \<and> drop off b = field_bytes f @ drop off' b"
proof -
  note s = read_field_at_sound [OF assms(2,1)]
  then have "b = take off b @ field_bytes f @ drop off' b" by (metis append_assoc append_take_drop_id)
  then have "drop off b = field_bytes f @ drop off' b" by (metis append_take_drop_id same_append_eq)
  with s show ?thesis by blast
qed

lemma parse_header_ok:
  assumes "kHeaderSize \<le> length b" "take 2 b = be_bytes 2 kMagic" "b ! 2 = kProtocolVersion"
  shows "fst (parse b out) = (case read_field_at b 13 of None \<Rightarrow> TruncatedField
      | Some (src, o1) \<Rightarrow> (case read_field_at b o1 of None \<Rightarrow> TruncatedField
      | Some (dst, o2) \<Rightarrow> (case read_field_at b o2 of None \<Rightarrow> TruncatedField
      | Some (pay, o3) \<Rightarrow> if o3 \<noteq> length b then TrailingBytes else Ok)))"
  using assms by (auto simp: parse_eq kHeaderSize_def split: option.splits)

text \<open>The body, read as whole fields and what is left after the last of them.\<close>

definition body_is :: "bytes \<Rightarrow> bytes list \<Rightarrow> bytes \<Rightarrow> bool" where
  "body_is b fs rest \<longleftrightarrow> drop kHeaderSize b = concat (map field_bytes fs) @ rest \<and> list_all fits_u16 fs"

lemma parse_body:
  assumes "kHeaderSize \<le> length b" "take 2 b = be_bytes 2 kMagic" "b ! 2 = kProtocolVersion"
  shows "\<exists>fs rest. body_is b fs rest \<and> (length fs < 3 \<and> cut_short rest \<and> fst (parse b out) = TruncatedField \<or>
     length fs = 3 \<and> fst (parse b out) = (if rest = [] then Ok else TrailingBytes))"
proof -
  note p = parse_header_ok [OF assms, of out]
  have len: "13 \<le> length b" using assms(1) by (simp add: kHeaderSize_def)
  show ?thesis
  proof (cases "read_field_at b 13")
    case None
    with p len show ?thesis
      by (intro exI [of _ "[]"] exI [of _ "drop 13 b"]) (simp add: body_is_def kHeaderSize_def read_field_at_None)
  next
    case (Some s)
    obtain f1 o1 where s: "s = (f1, o1)" by fastforce
    note 1 = read_field_at_Some [OF len Some [unfolded s]]
    show ?thesis
    proof (cases "read_field_at b o1")
      case None
      with p Some s 1 show ?thesis
        by (intro exI [of _ "[f1]"] exI [of _ "drop o1 b"]) (simp add: body_is_def kHeaderSize_def read_field_at_None)
    next
      case (Some t)
      obtain f2 o2 where t: "t = (f2, o2)" by fastforce
      have 2: "fits_u16 f2 \<and> o2 \<le> length b \<and> drop o1 b = field_bytes f2 @ drop o2 b"
        using read_field_at_Some [of o1 b f2 o2] 1 Some t by blast
      show ?thesis
      proof (cases "read_field_at b o2")
        case None
        with p Some \<open>read_field_at b 13 = Some s\<close> s t 1 2 show ?thesis
          by (intro exI [of _ "[f1, f2]"] exI [of _ "drop o2 b"]) (simp add: body_is_def kHeaderSize_def read_field_at_None)
      next
        case (Some u)
        obtain f3 o3 where u: "u = (f3, o3)" by fastforce
        have 3: "fits_u16 f3 \<and> o3 \<le> length b \<and> drop o2 b = field_bytes f3 @ drop o3 b"
          using read_field_at_Some [of o2 b f3 o3] 2 Some u by blast
        with p Some \<open>read_field_at b 13 = Some s\<close> \<open>read_field_at b o1 = Some t\<close> s t u 1 2 show ?thesis
          by (intro exI [of _ "[f1, f2, f3]"] exI [of _ "drop o3 b"]) (simp add: body_is_def kHeaderSize_def)
      qed
    qed
  qed
qed

text \<open>There is one way to read the body.\<close>

lemma fields_unique:
  assumes "concat (map field_bytes fs) @ r = concat (map field_bytes gs) @ s" "list_all fits_u16 fs" "list_all fits_u16 gs"
    and "length fs < length gs"
  shows "\<not> cut_short r \<and> r \<noteq> []"
  using assms
proof (induction fs arbitrary: gs)
  case Nil
  then obtain g gs' where "gs = g # gs'" by (cases gs) auto
  with Nil have r: "r = field_bytes g @ (concat (map field_bytes gs') @ s)" "fits_u16 g" by simp_all
  then have "length r \<ge> 2" by simp
  then have "r \<noteq> []" by auto
  with r cut_short_field show ?case by blast
next
  case (Cons f fs)
  then obtain g gs' where gs: "gs = g # gs'" by (cases gs) auto
  with Cons.prems have "f = g \<and> concat (map field_bytes fs) @ r = concat (map field_bytes gs') @ s"
    using field.enc_prefix_free [of f g] by simp
  with Cons gs show ?case by auto
qed

lemma fields_unique_rest:
  assumes "concat (map field_bytes fs) @ r = concat (map field_bytes gs) @ s" "list_all fits_u16 fs" "list_all fits_u16 gs"
    and "length fs = length gs"
  shows "fs = gs \<and> r = s"
  using assms
proof (induction fs arbitrary: gs)
  case (Cons f fs)
  then obtain g gs' where gs: "gs = g # gs'" by (cases gs) auto
  with Cons.prems have "f = g \<and> concat (map field_bytes fs) @ r = concat (map field_bytes gs') @ s"
    using field.enc_prefix_free [of f g] by simp
  with Cons gs show ?case by auto
qed simp

lemma body_unique:
  assumes "body_is b fs r" "length fs < 3 \<and> cut_short r \<or> length fs = 3"
    and "body_is b gs s" "length gs < 3 \<and> cut_short s \<or> length gs = 3"
  shows "fs = gs \<and> r = s"
proof -
  have "length fs = length gs"
    using fields_unique [of fs r gs s] fields_unique [of gs s fs r] assms unfolding body_is_def
    by (metis nat_neq_iff less_irrefl)
  with fields_unique_rest [of fs r gs s] assms(1,3) show ?thesis by (simp add: body_is_def)
qed

section \<open>Properties\<close>

text \<open>
  (C1) The parser accepts exactly the serializations: \<^verbatim>\<open>parse\<close> reports \<^verbatim>\<open>Ok\<close> with packet
  \<open>p\<close> if and only if \<open>p\<close> is a version-1 packet whose fields fit their length prefixes
  and the datagram is byte for byte \<open>serialize p\<close>.  So parsing inverts serializing, and
  no two datagrams parse to the same packet.
\<close>

theorem parse_iff_serialize: "parse b out = (Ok, p) \<longleftrightarrow> wf_packet p \<and> serialize p = b"
  using parse_Ok_sound parse_serialize_ok by blast

text \<open>
  (C26) Memory safety of the parser: with every element access bounds-checked it computes
  the same result on every input, so no input makes it read outside the datagram.
\<close>

theorem parse_reads_in_bounds: "parse_checked b out = Some (parse b out)"
  by (rule parse_checked_eq)

text \<open>
  (C27) The rejection reasons of the wire-format document, each exactly in its situation: too short for the
  header; another magic; another version; a field whose length prefix is missing or promises more bytes than there are;
  bytes left after the third field; accepted if three whole fields fill the datagram.  A
  rejected datagram leaves the output packet as it was.
\<close>

theorem parse_rejections:
  "(fst (parse b out) = TooShort \<longleftrightarrow> length b < kHeaderSize) \<and>
   (fst (parse b out) = BadMagic \<longleftrightarrow>
      kHeaderSize \<le> length b \<and> take 2 b \<noteq> be_bytes 2 kMagic) \<and>
   (fst (parse b out) = UnsupportedVersion \<longleftrightarrow>
      kHeaderSize \<le> length b \<and> take 2 b = be_bytes 2 kMagic \<and> b ! 2 \<noteq> kProtocolVersion) \<and>
   (fst (parse b out) = TruncatedField \<longleftrightarrow>
      kHeaderSize \<le> length b \<and> take 2 b = be_bytes 2 kMagic \<and> b ! 2 = kProtocolVersion \<and>
      (\<exists>fs rest. body_is b fs rest \<and> length fs < 3 \<and> cut_short rest)) \<and>
   (fst (parse b out) = TrailingBytes \<longleftrightarrow>
      kHeaderSize \<le> length b \<and> take 2 b = be_bytes 2 kMagic \<and> b ! 2 = kProtocolVersion \<and>
      (\<exists>fs rest. body_is b fs rest \<and> length fs = 3 \<and> rest \<noteq> [])) \<and>
   (fst (parse b out) = Ok \<longleftrightarrow>
      kHeaderSize \<le> length b \<and> take 2 b = be_bytes 2 kMagic \<and> b ! 2 = kProtocolVersion \<and>
      (\<exists>fs. body_is b fs [] \<and> length fs = 3)) \<and>
   (fst (parse b out) = Ok \<or> snd (parse b out) = out)"
proof -
  have bad: "fst (parse b out) = (if length b < kHeaderSize then TooShort else if take 2 b \<noteq> be_bytes 2 kMagic then BadMagic
      else UnsupportedVersion)" if "\<not> (kHeaderSize \<le> length b \<and> take 2 b = be_bytes 2 kMagic \<and> b ! 2 = kProtocolVersion)"
    using that by (auto simp: parse_eq kHeaderSize_def)
  have out: "fst (parse b out) = Ok \<or> snd (parse b out) = out" by (auto simp: parse_eq split: option.splits)
  show ?thesis
  proof (cases "kHeaderSize \<le> length b \<and> take 2 b = be_bytes 2 kMagic \<and> b ! 2 = kProtocolVersion")
    case False
    with bad out show ?thesis by auto
  next
    case True
    from parse_body [of b out] True obtain fs rest where f: "body_is b fs rest"
      "length fs < 3 \<and> cut_short rest \<and> fst (parse b out) = TruncatedField \<or>
       length fs = 3 \<and> fst (parse b out) = (if rest = [] then Ok else TrailingBytes)" by blast
    have u: "fs = gs \<and> rest = s" if "body_is b gs s" "length gs < 3 \<and> cut_short s \<or> length gs = 3" for gs s
      using body_unique [OF f(1) _ that] f(2) by blast
    have t: "(\<exists>gs s. body_is b gs s \<and> length gs < 3 \<and> cut_short s) \<longleftrightarrow> length fs < 3 \<and> cut_short rest"
      "(\<exists>gs s. body_is b gs s \<and> length gs = 3 \<and> s \<noteq> []) \<longleftrightarrow> length fs = 3 \<and> rest \<noteq> []"
      "(\<exists>gs. body_is b gs [] \<and> length gs = 3) \<longleftrightarrow> length fs = 3 \<and> rest = []"
      using u f(1) by blast+
    show ?thesis unfolding t using True out f(2) by (auto split: if_splits)
  qed
qed

text \<open>
  A truncated datagram is never accepted: any proper prefix of a packet's wire bytes
  is rejected, as too short inside the fixed header and as a truncated field behind it.
  In particular a packet cut off by a receive buffer is dropped, not misread.
\<close>

theorem parse_truncated_rejected:
  assumes "wf_packet p" and "n < length (serialize p)"
  shows "fst (parse (take n (serialize p)) out) = (if n < kHeaderSize then TooShort else TruncatedField)"
  using parse_serialize_truncated [OF assms] by (simp add: kHeaderSize_def)

theorem parse_truncated_rejected_witness:
  "fst (parse (take 18 (serialize (default_packet\<lparr>payload := [1, 2]\<rparr>))) default_packet) = TruncatedField"
proof -
  let ?p = "default_packet\<lparr>payload := [1, 2]\<rparr>"
  have "wf_packet ?p"
    by (simp add: wf_packet_def default_packet_def wf_type_def packet_type_of_def fits_u16_def)
  moreover have "18 < length (serialize ?p)" by (simp add: serialize_eq default_packet_def)
  ultimately show ?thesis
    using parse_truncated_rejected [of ?p 18 default_packet] by (simp add: kHeaderSize_def)
qed

text \<open>
  (C35) The associated data binds the whole envelope: two packets whose routing fields fit
  their length prefixes have the same associated data only if they agree on version, type,
  flags, counter, source and destination.  (The payload does not take part.)
\<close>

theorem associated_data_binds_envelope:
  assumes "wf_type (ptype p)" "wf_type (ptype q)"
    and "fits_u16 (source p)" "fits_u16 (destination p)" "fits_u16 (source q)" "fits_u16 (destination q)"
  shows "associated_data p = associated_data q \<longleftrightarrow>
    p\<lparr>payload := []\<rparr> = q\<lparr>payload := []\<rparr>"
proof
  assume "associated_data p = associated_data q"
  then have "header_bytes p = header_bytes q" and
    fields: "field_bytes (source p) @ field_bytes (destination p) @ []
      = field_bytes (source q) @ field_bytes (destination q) @ []"
    by (simp_all add: associated_data_eq append_eq_append_conv)
  from field.enc_prefix_free [OF assms(3,5) fields]
  have src: "source p = source q"
    and dst: "field_bytes (destination p) = field_bytes (destination q)"
    by auto
  have "destination p = destination q"
    by (rule field.enc_inj [OF assms(4,6) dst])
  moreover have "ptype p = ptype q"
    using header_bytes_inj [OF \<open>header_bytes p = header_bytes q\<close>] assms(1,2)
    by (metis wf_type_def)
  ultimately show "p\<lparr>payload := []\<rparr> = q\<lparr>payload := []\<rparr>"
    using src header_bytes_inj [OF \<open>header_bytes p = header_bytes q\<close>] by (cases p; cases q) simp
next
  assume "p\<lparr>payload := []\<rparr> = q\<lparr>payload := []\<rparr>"
  then show "associated_data p = associated_data q"
    by (cases p; cases q) (simp add: associated_data_eq header_bytes_def)
qed

theorem associated_data_binds_envelope_witness:
  "associated_data (default_packet\<lparr>counter := 7\<rparr>) \<noteq> associated_data (default_packet\<lparr>counter := 8\<rparr>)"
  using associated_data_binds_envelope
    [of "default_packet\<lparr>counter := 7\<rparr>" "default_packet\<lparr>counter := 8\<rparr>"]
  by (simp add: default_packet_def wf_type_def packet_type_of_def fits_u16_def)

end
