(* ===== verification/Session.thy ===== *)
theory Session
  imports Packet Crypto
begin

text \<open>
  The end-to-end encrypted session with one peer (\<^verbatim>\<open>libs/messaging/src/session.cpp\<close>): key
  agreement at construction, encryption under the envelope as associated data with a
  64-bit send counter, and decryption behind the replay check.
\<close>

record Session =
  ses_local :: bytes
  ses_remote :: bytes
  ses_key :: bytes
  ses_valid :: bool
  ses_send_counter :: u64
  ses_have_received :: bool
  ses_last_received :: u64

definition new_session :: "env \<Rightarrow> bytes \<Rightarrow> bytes \<Rightarrow> bytes \<Rightarrow> Session" where
  "new_session E local_public local_secret remote_public =
     (let s = \<lparr>ses_local = local_public, ses_remote = remote_public, ses_key = [], ses_valid = False,
               ses_send_counter = 0, ses_have_received = False, ses_last_received = 0\<rparr>
      in case agree_shared_key E local_secret remote_public of
           None \<Rightarrow> s
         | Some key \<Rightarrow> s\<lparr>ses_key := key, ses_valid := True\<rparr>)"

definition encrypt_as ::
  "env \<Rightarrow> Session \<Rightarrow> PacketType \<Rightarrow> bytes \<Rightarrow> world \<Rightarrow> Packet \<times> Session \<times> world" where
  "encrypt_as E s type plaintext w =
     (let packet = default_packet\<lparr>ptype := type, flags := kFlagEncrypted,
                     counter := ses_send_counter s\<rparr>;
          s = s\<lparr>ses_send_counter := ses_send_counter s + 1\<rparr>;
          packet = packet\<lparr>source := ses_local s, destination := ses_remote s\<rparr>
      in if \<not> ses_valid s then (packet, s, w)
         else let aad = associated_data packet in
           case seal E (ses_key s) plaintext aad w of (sealed, w) \<Rightarrow>
             (packet\<lparr>payload := sealed\<rparr>, s, w))"

definition encrypt :: "env \<Rightarrow> Session \<Rightarrow> bytes \<Rightarrow> world \<Rightarrow> Packet \<times> Session \<times> world" where
  "encrypt E s plaintext w = encrypt_as E s Message plaintext w"

definition decrypt :: "env \<Rightarrow> Session \<Rightarrow> Packet \<Rightarrow> bytes option \<times> Session" where
  "decrypt E s packet =
     (if \<not> ses_valid s then (None, s)
      else if \<not> encrypted packet then (None, s)
      else if source packet \<noteq> ses_remote s \<or> destination packet \<noteq> ses_local s then (None, s)
      else if ses_have_received s \<and> counter packet \<le> ses_last_received s then (None, s)
      else let aad = associated_data packet in
        case open_sealed E (ses_key s) (payload packet) aad of
          None \<Rightarrow> (None, s)
        | Some plaintext \<Rightarrow>
            (Some plaintext, s\<lparr>ses_have_received := True, ses_last_received := counter packet\<rparr>))"

section \<open>The replay window\<close>

text \<open>
  Abstractly a session remembers the last accepted counter; the packet counter is fresh
  if it is greater.
\<close>

definition last_seen :: "Session \<Rightarrow> u64 option" where
  "last_seen s = (if ses_have_received s then Some (ses_last_received s) else None)"

definition fresh_counter :: "u64 option \<Rightarrow> u64 \<Rightarrow> bool" where
  "fresh_counter l c \<longleftrightarrow> (case l of None \<Rightarrow> True | Some x \<Rightarrow> x < c)"

text \<open>A receiver fed a sequence of packets: the accepted ones, with counter and plaintext.\<close>

fun decrypt_all :: "env \<Rightarrow> Session \<Rightarrow> Packet list \<Rightarrow> (u64 \<times> bytes) list" where
  "decrypt_all E s [] = []"
| "decrypt_all E s (p # ps) =
     (case decrypt E s p of
        (None, s) \<Rightarrow> decrypt_all E s ps
      | (Some m, s) \<Rightarrow> (counter p, m) # decrypt_all E s ps)"

text \<open>A sender encrypting a sequence of plaintexts of one packet type.\<close>

fun encrypt_all :: "env \<Rightarrow> Session \<Rightarrow> PacketType \<Rightarrow> bytes list \<Rightarrow> world \<Rightarrow> Packet list \<times> Session \<times> world" where
  "encrypt_all E s ty [] w = ([], s, w)"
| "encrypt_all E s ty (m # ms) w =
     (case encrypt_as E s ty m w of (p, s, w) \<Rightarrow>
        case encrypt_all E s ty ms w of (ps, s, w) \<Rightarrow> (p # ps, s, w))"

text \<open>The checks in front of the decryption, as one condition.\<close>

definition gate :: "Session \<Rightarrow> Packet \<Rightarrow> bool" where
  "gate s p \<longleftrightarrow> ses_valid s \<and> encrypted p \<and> source p = ses_remote s \<and> destination p = ses_local s \<and>
     fresh_counter (last_seen s) (counter p)"

lemma decrypt_eq:
  "decrypt E s p =
     (if gate s p then case open_sealed E (ses_key s) (payload p) (associated_data p) of
          None \<Rightarrow> (None, s)
        | Some m \<Rightarrow> (Some m, s\<lparr>ses_have_received := True, ses_last_received := counter p\<rparr>)
      else (None, s))"
  by (auto simp: decrypt_def gate_def fresh_counter_def last_seen_def not_le)

lemma decrypt_cases:
  obtains (rejected) "decrypt E s p = (None, s)"
  | (accepted) m where "decrypt E s p = (Some m, s\<lparr>ses_have_received := True, ses_last_received := counter p\<rparr>)"
      and "gate s p" and "open_sealed E (ses_key s) (payload p) (associated_data p) = Some m"
proof (cases "gate s p \<and> open_sealed E (ses_key s) (payload p) (associated_data p) \<noteq> None")
  case True
  then show ?thesis by (auto simp: decrypt_eq intro: accepted)
next
  case False
  then have "decrypt E s p = (None, s)" by (auto simp: decrypt_eq)
  then show ?thesis by (rule rejected)
qed

lemma decrypt_SomeD:
  assumes "decrypt E s p = (Some m, s')"
  shows "s' = s\<lparr>ses_have_received := True, ses_last_received := counter p\<rparr>" and "gate s p"
    and "open_sealed E (ses_key s) (payload p) (associated_data p) = Some m"
  using assms by (cases rule: decrypt_cases [of E s p]; simp)+

lemma decrypt_NoneD: "decrypt E s p = (None, s') \<Longrightarrow> s' = s"
  by (cases rule: decrypt_cases [of E s p]) simp_all

lemma decrypt_frame:
  "decrypt E s p = (m, s') \<Longrightarrow> ses_local s' = ses_local s \<and> ses_remote s' = ses_remote s \<and>
     ses_key s' = ses_key s \<and> ses_valid s' = ses_valid s \<and> ses_send_counter s' = ses_send_counter s"
  by (cases rule: decrypt_cases [of E s p]) auto

lemma encrypt_as_fields:
  assumes "encrypt_as E s ty m w = (p, s', w')"
  shows "s' = s\<lparr>ses_send_counter := ses_send_counter s + 1\<rparr>"
    and "version p = kProtocolVersion" and "ptype p = ty" and "encrypted p"
    and "counter p = ses_send_counter s" and "source p = ses_local s" and "destination p = ses_remote s"
    and "files w' = files w" and "sent w' = sent w" and "fds w' = fds w"
    and "ses_valid s \<Longrightarrow> payload p = fst (seal E (ses_key s) m (associated_data p) w)"
proof -
  let ?q = "default_packet\<lparr>ptype := ty, flags := kFlagEncrypted, counter := ses_send_counter s,
      source := ses_local s, destination := ses_remote s\<rparr>"
  have q: "associated_data (?q\<lparr>payload := x\<rparr>) = associated_data ?q" for x
    by (rule associated_data_cong) simp_all
  show "s' = s\<lparr>ses_send_counter := ses_send_counter s + 1\<rparr>"
    "version p = kProtocolVersion" "ptype p = ty" "encrypted p"
    "counter p = ses_send_counter s" "source p = ses_local s" "destination p = ses_remote s"
    using assms
    by (auto simp: encrypt_as_def Let_def default_packet_def encrypted_def has_flag_def kFlagEncrypted_def
        split: if_splits prod.splits)
  show "files w' = files w" "sent w' = sent w" "fds w' = fds w"
    using assms by (auto simp: encrypt_as_def Let_def split: if_splits prod.splits dest!: seal_frameD)
  show "payload p = fst (seal E (ses_key s) m (associated_data p) w)" if "ses_valid s"
    using assms that q by (auto simp: encrypt_as_def Let_def split: prod.splits)
qed

text \<open>Two ends of a session: each names the other, and they hold the same 32-byte key.\<close>

definition paired :: "Session \<Rightarrow> Session \<Rightarrow> bool" where
  "paired a b \<longleftrightarrow> ses_valid a \<and> ses_valid b \<and> ses_key a = ses_key b \<and> length (ses_key a) = kSessionKeyBytes \<and>
     ses_local a = ses_remote b \<and> ses_remote a = ses_local b"

lemma decrypt_encrypt:
  assumes "aead_correct E" "random_sized E" "paired a b"
    and "encrypt_as E a ty m w = (p, a', w')" and "fresh_counter (last_seen b) (ses_send_counter a)"
  shows "decrypt E b p = (Some m, b\<lparr>ses_have_received := True, ses_last_received := ses_send_counter a\<rparr>)"
proof -
  note p = encrypt_as_fields [OF assms(4)]
  have key: "length (ses_key b) = kSessionKeyBytes" "ses_key a = ses_key b" "ses_valid a"
    using assms(3) by (auto simp: paired_def)
  have "open_sealed E (ses_key b) (payload p) (associated_data p) = Some m"
    using p(11) key assms(1,2) by (simp add: open_seal)
  moreover have "gate b p" using assms(3,5) p(4-7) by (simp add: gate_def paired_def)
  ultimately show ?thesis using p(5) by (simp add: decrypt_eq)
qed

lemma fresh_counter_mono: "fresh_counter l c \<Longrightarrow> fresh_counter (Some c) d \<Longrightarrow> fresh_counter l d"
  by (auto simp: fresh_counter_def split: option.splits)

lemma decrypt_all_counters:
  "sorted_wrt (<) (map fst (decrypt_all E s ps)) \<and>
   (\<forall>x\<in>set (decrypt_all E s ps). fresh_counter (last_seen s) (fst x))"
proof (induction ps arbitrary: s)
  case (Cons p ps)
  show ?case
  proof (cases rule: decrypt_cases [of E s p])
    case rejected
    then show ?thesis using Cons.IH [of s] by simp
  next
    case (accepted m)
    let ?s = "s\<lparr>ses_have_received := True, ses_last_received := counter p\<rparr>"
    have last: "last_seen ?s = Some (counter p)" by (simp add: last_seen_def)
    from Cons.IH [of ?s] show ?thesis
      using accepted by (auto simp: last gate_def fresh_counter_def split: option.splits)
  qed
qed simp

section \<open>Streams of packets\<close>

lemma encrypt_all_in_order:
  assumes "aead_correct E" "random_sized E"
  shows "paired a b \<Longrightarrow> fresh_counter (last_seen b) (ses_send_counter a) \<Longrightarrow>
    unat (ses_send_counter a) + length ms < 2 ^ 64 \<Longrightarrow>
    map snd (decrypt_all E b (fst (encrypt_all E a ty ms w))) = ms"
proof (induction ms arbitrary: a b w)
  case (Cons m ms)
  obtain p a' w' where enc: "encrypt_as E a ty m w = (p, a', w')" by (metis prod_cases3)
  note p = encrypt_as_fields [OF enc]
  let ?b = "b\<lparr>ses_have_received := True, ses_last_received := ses_send_counter a\<rparr>"
  have dec: "decrypt E b p = (Some m, ?b)"
    by (rule decrypt_encrypt [OF assms Cons.prems(1) enc Cons.prems(2)])
  have up: "unat (ses_send_counter a') = unat (ses_send_counter a) + 1"
    unfolding p(1) using Cons.prems(3) by (simp add: unat_word_ariths)
  have "paired a' ?b" using Cons.prems(1) by (auto simp: p(1) paired_def)
  moreover have "fresh_counter (last_seen ?b) (ses_send_counter a')"
    using up by (simp add: fresh_counter_def last_seen_def word_less_nat_alt)
  moreover have "unat (ses_send_counter a') + length ms < 2 ^ 64" using up Cons.prems(3) by simp
  ultimately have "map snd (decrypt_all E ?b (fst (encrypt_all E a' ty ms w'))) = ms" by (rule Cons.IH)
  then show ?case by (auto simp: enc dec split: prod.splits)
qed simp

lemma decrypt_all_subset: "fst ` set (decrypt_all E s ps) \<subseteq> counter ` set ps"
proof (induction ps arbitrary: s)
  case (Cons p ps)
  show ?case
    by (cases rule: decrypt_cases [of E s p]) (use Cons.IH in \<open>fastforce\<close>)+
qed simp

section \<open>Two ends\<close>

lemma new_session_fields [simp]:
  "ses_local (new_session E lp ls rp) = lp" "ses_remote (new_session E lp ls rp) = rp"
  "ses_send_counter (new_session E lp ls rp) = 0" "ses_have_received (new_session E lp ls rp) = False"
  "last_seen (new_session E lp ls rp) = None"
  by (simp_all add: new_session_def last_seen_def Let_def split: option.splits)

lemma new_session_valid:
  "ses_valid (new_session E lp ls rp) \<longleftrightarrow> agree_shared_key E ls rp \<noteq> None"
  "agree_shared_key E ls rp = Some k \<Longrightarrow> ses_key (new_session E lp ls rp) = k"
  by (auto simp: new_session_def Let_def split: option.splits)

lemma fresh_counter_None [simp]: "fresh_counter None c"
  by (simp add: fresh_counter_def)

lemma paired_new_session:
  assumes "crypto_laws E" "key_pair E pk1 sk1" "key_pair E pk2 sk2"
    and "ses_valid (new_session E pk1 sk1 pk2)"
  shows "paired (new_session E pk1 sk1 pk2) (new_session E pk2 sk2 pk1)"
proof -
  obtain k where k: "agree_shared_key E sk1 pk2 = Some k" using assms(4) by (auto simp: new_session_valid)
  then have k': "agree_shared_key E sk2 pk1 = Some k" using agree_key_pairs [OF assms(1-3)] by simp
  from k have "length k = kSessionKeyBytes"
    using length_agree_shared_key crypto_lawsD(3) [OF assms(1)] by blast
  with k k' show ?thesis by (simp add: paired_def new_session_valid)
qed

lemma decrypt_stale: "\<not> fresh_counter (last_seen s) (counter p) \<Longrightarrow> decrypt E s p = (None, s)"
  by (simp add: decrypt_eq gate_def)

section \<open>Properties\<close>

text \<open>
  (C10) End-to-end delivery of a stream: two peers that open sessions from their own
  secret key and the other's public key are both valid and hold the same key, and every sequence of
  plaintexts one encrypts (of any packet type, fewer than \<open>2^64\<close>) is decrypted by the other
  completely and in order.
\<close>

theorem session_delivers_stream:
  assumes "crypto_laws E" "key_pair E pk1 sk1" "key_pair E pk2 sk2"
    and "ses_valid (new_session E pk1 sk1 pk2)" "length ms < 2 ^ 64"
  shows "ses_valid (new_session E pk2 sk2 pk1) \<and>
    ses_key (new_session E pk1 sk1 pk2) = ses_key (new_session E pk2 sk2 pk1) \<and>
    map snd (decrypt_all E (new_session E pk2 sk2 pk1)
      (fst (encrypt_all E (new_session E pk1 sk1 pk2) ty ms w))) = ms"
  using encrypt_all_in_order [OF crypto_lawsD(1,2) [OF assms(1)] paired_new_session [OF assms(1-4)]] assms(1,5)
    paired_new_session [OF assms(1-4)]
  by (simp add: paired_def)

theorem session_delivers_stream_witness:
  "ses_key (new_session toy_env (pad 32 [1]) (pad 64 [1]) (pad 32 [2])) = ses_key (new_session toy_env (pad 32 [2]) (pad 64 [2]) (pad 32 [1])) \<and>
   map snd (decrypt_all toy_env (new_session toy_env (pad 32 [2]) (pad 64 [2]) (pad 32 [1]))
      (fst (encrypt_all toy_env (new_session toy_env (pad 32 [1]) (pad 64 [1]) (pad 32 [2]))
        Message [[104, 105], [], [33]] toy_world))) = [[104, 105], [], [33]]"
  using session_delivers_stream [of toy_env "pad 32 [1]" "pad 64 [1]" "pad 32 [2]" "pad 64 [2]"
      "[[104, 105], [], [33]]" Message toy_world] by (simp add: new_session_valid)

text \<open>
  (C3) No replay and no reordering: whatever packets a session is fed, the counters of the
  ones it accepts are strictly increasing and beyond the last one accepted before, so no
  packet is ever delivered twice; and every accepted counter is one of the input's.
\<close>

theorem session_replay_free:
  "sorted_wrt (<) (map fst (decrypt_all E s ps)) \<and> distinct (map fst (decrypt_all E s ps)) \<and>
   list_all (fresh_counter (last_seen s)) (map fst (decrypt_all E s ps)) \<and>
   fst ` set (decrypt_all E s ps) \<subseteq> counter ` set ps"
  using decrypt_all_counters [of E s ps] decrypt_all_subset [of E s ps]
  by (auto simp: list_all_iff strict_sorted_iff)

text \<open>
  (C22) Authenticity of what is accepted: a packet is delivered only if the session is valid,
  the packet is flagged encrypted, comes from the peer and is addressed to us, its
  counter is fresh, and its payload is nonce and AEAD ciphertext of the delivered plaintext
  under the session key with the packet's whole envelope as associated data; the session
  then remembers that counter and nothing else, and a rejected packet leaves it unchanged.
\<close>

theorem decrypt_authentic:
  assumes "aead_authentic E"
  shows "case decrypt E s p of
      (None, s') \<Rightarrow> s' = s
    | (Some m, s') \<Rightarrow> ses_valid s \<and> encrypted p \<and> source p = ses_remote s \<and> destination p = ses_local s \<and>
        fresh_counter (last_seen s) (counter p) \<and>
        (\<exists>nonce. length nonce = kAeadNonceBytes \<and>
           payload p = nonce @ aead_encrypt E m (associated_data p) nonce (ses_key s)) \<and>
        s' = s\<lparr>ses_have_received := True, ses_last_received := counter p\<rparr>"
proof (cases rule: decrypt_cases [of E s p])
  case (accepted m)
  have "length (take kAeadNonceBytes (payload p)) = kAeadNonceBytes"
    using accepted(3) by (auto simp: open_sealed_def crypto_sizes split: if_splits)
  with open_sealed_Some [OF assms accepted(3)]
  have "\<exists>nonce. length nonce = kAeadNonceBytes \<and>
      payload p = nonce @ aead_encrypt E m (associated_data p) nonce (ses_key s)" by blast
  with accepted(1,2) show ?thesis by (simp add: gate_def)
qed simp

theorem decrypt_authentic_witness:
  "\<exists>p s' nonce. decrypt toy_env (new_session toy_env (pad 32 [2]) (pad 64 [2]) (pad 32 [1])) p = (Some [104], s') \<and>
     source p = pad 32 [1] \<and> payload p = nonce @ aead_encrypt toy_env [104] (associated_data p) nonce
       (ses_key (new_session toy_env (pad 32 [2]) (pad 64 [2]) (pad 32 [1])))"
proof -
  let ?a = "new_session toy_env (pad 32 [1]) (pad 64 [1]) (pad 32 [2])"
  let ?b = "new_session toy_env (pad 32 [2]) (pad 64 [2]) (pad 32 [1])"
  obtain p a' w' where p: "encrypt_as toy_env ?a Message [104] toy_world = (p, a', w')" by (metis prod_cases3)
  have "paired ?a ?b" by (rule paired_new_session) (simp_all add: new_session_valid)
  from decrypt_encrypt [OF toy_env_laws(1,3) this p]
  obtain s' where s': "decrypt toy_env ?b p = (Some [104], s')" by simp
  from decrypt_authentic [OF toy_env_laws(2), of ?b p] obtain nonce where "source p = pad 32 [1]"
      "payload p = nonce @ aead_encrypt toy_env [104] (associated_data p) nonce (ses_key ?b)"
    unfolding s' prod.case option.case new_session_fields by blast
  with s' show ?thesis by blast
qed

text \<open>
  Counters do not survive a restart, since a session always starts from zero: after
  one delivered packet the running receiver rejects that packet's replay, but a receiver
  restarted with the same keys accepts it again; and a sender restarted with the same keys
  has its next packet rejected by the receiver that kept running.
\<close>

theorem session_restart:
  assumes "crypto_laws E" "key_pair E pk1 sk1" "key_pair E pk2 sk2"
    and "ses_valid (new_session E pk1 sk1 pk2)"
    and "encrypt_as E (new_session E pk1 sk1 pk2) ty m w = (p, a', w')"
    and "decrypt E (new_session E pk2 sk2 pk1) p = (r, b')"
    and "encrypt_as E (new_session E pk1 sk1 pk2) ty2 m2 w2 = (p2, a2, w2')"
  shows "r = Some m \<and> decrypt E b' p = (None, b') \<and>
    fst (decrypt E (new_session E pk2 sk2 pk1) p) = Some m \<and>
    decrypt E b' p2 = (None, b')"
proof -
  let ?b = "new_session E pk2 sk2 pk1"
  have "decrypt E ?b p = (Some m, ?b\<lparr>ses_have_received := True, ses_last_received := 0\<rparr>)"
    using decrypt_encrypt [OF crypto_lawsD(1,2) [OF assms(1)] paired_new_session [OF assms(1-4)] assms(5)] assms(1)
    by simp
  then have r: "r = Some m" "fst (decrypt E ?b p) = Some m" "last_seen b' = Some 0"
    using assms(6) by (simp_all add: last_seen_def)
  moreover have "counter p = 0" "counter p2 = 0"
    using encrypt_as_fields(5) [OF assms(5)] encrypt_as_fields(5) [OF assms(7)] by simp_all
  ultimately show ?thesis by (simp add: decrypt_stale fresh_counter_def)
qed

theorem session_restart_witness:
  "\<exists>p b'. decrypt toy_env b' p = (None, b') \<and>
     fst (decrypt toy_env (new_session toy_env (pad 32 [2]) (pad 64 [2]) (pad 32 [1])) p) = Some [104]"
proof -
  let ?a = "new_session toy_env (pad 32 [1]) (pad 64 [1]) (pad 32 [2])"
  let ?b = "new_session toy_env (pad 32 [2]) (pad 64 [2]) (pad 32 [1])"
  obtain p a' w' where p: "encrypt_as toy_env ?a Message [104] toy_world = (p, a', w')" by (metis prod_cases3)
  obtain r b' where b': "decrypt toy_env ?b p = (r, b')" by fastforce
  have "ses_valid ?a" by (simp add: new_session_valid)
  from session_restart [OF crypto_laws_toy toy_key_pair toy_key_pair this p b' p] show ?thesis by blast
qed

end
