(* ===== verification/Store.thy ===== *)
theory Store
  imports Blob
begin

text \<open>
  The local database (\<^verbatim>\<open>libs/storage/src/store.cpp\<close>): contacts, conversation messages and
  pending requests, their binary payload (version 2, with the contacts-only legacy form)
  and the auto-saving \<^verbatim>\<open>Store\<close>.  Every mutation returns the new store and the new world;
  the result of an automatic save is ignored, as in the code.  \<^verbatim>\<open>out.reserve(count)\<close> is
  left out: its allocation failure is not modelled.  The locale \<open>contact_db\<close> is what the
  messaging engine relies on.
\<close>

section \<open>Data\<close>

text \<open>\<^verbatim>\<open>enum class TrustStatus\<close>; a decoded byte beyond the enumerators is \<open>UnnamedTrust\<close>.\<close>

datatype TrustStatus = Pending | Accepted | Rejected | Blocked | UnnamedTrust byte

fun trust_value :: "TrustStatus \<Rightarrow> byte" where
  "trust_value Pending = 0"
| "trust_value Accepted = 1"
| "trust_value Rejected = 2"
| "trust_value Blocked = 3"
| "trust_value (UnnamedTrust b) = b"

definition trust_status_of :: "byte \<Rightarrow> TrustStatus" where
  "trust_status_of b = (if b = 0 then Pending else if b = 1 then Accepted else if b = 2 then Rejected
     else if b = 3 then Blocked else UnnamedTrust b)"

record Contact =
  c_key :: bytes
  c_nickname :: string
  c_trust :: TrustStatus
  c_last_seen :: int

definition default_contact :: Contact where
  "default_contact = \<lparr>c_key = [], c_nickname = [], c_trust = Pending, c_last_seen = 0\<rparr>"

record StoredMessage =
  m_peer :: bytes
  m_text :: string
  m_outgoing :: bool
  m_timestamp :: int

record Request =
  q_peer :: bytes
  q_greeting :: string
  q_timestamp :: int

record Store =
  st_contacts :: "Contact list"
  st_messages :: "StoredMessage list"
  st_requests :: "Request list"
  st_persistent :: bool
  st_path :: string
  st_key :: bytes
  st_salt :: bytes

definition default_store :: Store where
  "default_store = \<lparr>st_contacts = [], st_messages = [], st_requests = [], st_persistent = False,
     st_path = [], st_key = [], st_salt = []\<rparr>"

section \<open>The payload\<close>

definition kStoreMagic :: string where "kStoreMagic = ''OMDB''"
definition kPayloadVersion :: byte where "kPayloadVersion = 2"

definition encode_contacts :: "bytes \<Rightarrow> Contact list \<Rightarrow> bytes" where
  "encode_contacts out cs =
     fold (\<lambda>c out. let out = put_bytes out (c_key c);
                       out = put_str out (c_nickname c);
                       out = put_u8 out (trust_value (c_trust c))
                   in blob_put_u64 out (u64_of_i64 (c_last_seen c)))
       cs (put_u32 out (of_nat (length cs)))"

definition encode :: "Contact list \<Rightarrow> StoredMessage list \<Rightarrow> Request list \<Rightarrow> bytes" where
  "encode cs ms qs =
     (let out = put_u8 [] kPayloadVersion;
          out = encode_contacts out cs;
          out = put_u32 out (of_nat (length ms));
          out = fold (\<lambda>m out. let out = put_bytes out (m_peer m);
                                  out = put_str out (m_text m);
                                  out = put_u8 out (if m_outgoing m then 1 else 0)
                              in blob_put_u64 out (u64_of_i64 (m_timestamp m))) ms out;
          out = put_u32 out (of_nat (length qs))
      in fold (\<lambda>q out. let out = put_bytes out (q_peer q);
                           out = put_str out (q_greeting q)
                       in blob_put_u64 out (u64_of_i64 (q_timestamp q))) qs out)"

definition rd_contact :: "Reader \<Rightarrow> (Contact \<times> Reader) option" where
  "rd_contact r = do {
     (pk, r) \<leftarrow> rd_bytes r;
     (nick, r) \<leftarrow> rd_str r;
     (t, r) \<leftarrow> rd_u8 r;
     (seen, r) \<leftarrow> rd_u64 r;
     Some (\<lparr>c_key = pk, c_nickname = nick, c_trust = trust_status_of t,
            c_last_seen = i64_of_u64 seen\<rparr>, r)
   }"

definition rd_message :: "Reader \<Rightarrow> (StoredMessage \<times> Reader) option" where
  "rd_message r = do {
     (pk, r) \<leftarrow> rd_bytes r;
     (txt, r) \<leftarrow> rd_str r;
     (out, r) \<leftarrow> rd_u8 r;
     (ts, r) \<leftarrow> rd_u64 r;
     Some (\<lparr>m_peer = pk, m_text = txt, m_outgoing = (out \<noteq> 0), m_timestamp = i64_of_u64 ts\<rparr>, r)
   }"

definition rd_request :: "Reader \<Rightarrow> (Request \<times> Reader) option" where
  "rd_request r = do {
     (pk, r) \<leftarrow> rd_bytes r;
     (txt, r) \<leftarrow> rd_str r;
     (ts, r) \<leftarrow> rd_u64 r;
     Some (\<lparr>q_peer = pk, q_greeting = txt, q_timestamp = i64_of_u64 ts\<rparr>, r)
   }"

definition decode_contacts :: "Reader \<Rightarrow> (Contact list \<times> Reader) option" where
  "decode_contacts r = do { (count, r) \<leftarrow> rd_u32 r; rd_times rd_contact (unat count) [] r }"

text \<open>The two counted loops of \<^verbatim>\<open>decode\<close> behind the contacts.\<close>

definition decode_messages :: "Reader \<Rightarrow> (StoredMessage list \<times> Reader) option" where
  "decode_messages r = do { (mcount, r) \<leftarrow> rd_u32 r; rd_times rd_message (unat mcount) [] r }"

definition decode_requests :: "Reader \<Rightarrow> (Request list \<times> Reader) option" where
  "decode_requests r = do { (qcount, r) \<leftarrow> rd_u32 r; rd_times rd_request (unat qcount) [] r }"

definition decode_v2 ::
  "Reader \<Rightarrow> ((Contact list \<times> StoredMessage list \<times> Request list) \<times> Reader) option" where
  "decode_v2 r = do {
     (ver, r) \<leftarrow> rd_u8 r;
     (cs, r) \<leftarrow> decode_contacts r;
     (ms, r) \<leftarrow> decode_messages r;
     (qs, r) \<leftarrow> decode_requests r;
     Some ((cs, ms, qs), r)
   }"

definition decode :: "bytes \<Rightarrow> (Contact list \<times> StoredMessage list \<times> Request list) option" where
  "decode blob =
     (let r = reader blob in
      if blob \<noteq> [] \<and> blob ! 0 = kPayloadVersion
      then do { (lists, r) \<leftarrow> decode_v2 r; if rd_done r then Some lists else None }
      else do { (cs, r) \<leftarrow> decode_contacts r; if rd_done r then Some (cs, [], []) else None })"

section \<open>Operations\<close>

definition store_save :: "env \<Rightarrow> Store \<Rightarrow> world \<Rightarrow> bool \<times> world" where
  "store_save E s w =
     (if \<not> st_persistent s then (False, w)
      else write_blob E (st_path s) kStoreMagic (st_salt s) (st_key s)
             (encode (st_contacts s) (st_messages s) (st_requests s)) w)"

definition store_open :: "env \<Rightarrow> Store \<Rightarrow> string \<Rightarrow> string \<Rightarrow> world \<Rightarrow> bool \<times> Store \<times> world" where
  "store_open E s path passphrase w =
     (if path \<in> dom (files w)
      then case read_salt E path kStoreMagic w of
          (None, w) \<Rightarrow> (False, s, w)
        | (Some salt, w) \<Rightarrow>
            (case derive_key E passphrase salt w of (key, w) \<Rightarrow>
               if key = [] then (False, s, w)
               else case read_blob E path kStoreMagic key w of
                   (None, w) \<Rightarrow> (False, s, w)
                 | (Some plaintext, w) \<Rightarrow>
                     (case decode plaintext of None \<Rightarrow> (False, s, w)
                      | Some (c, m, q) \<Rightarrow>
                          (True, s\<lparr>st_contacts := c, st_messages := m, st_requests := q,
                             st_salt := salt, st_key := key, st_path := path,
                             st_persistent := True\<rparr>, w)))
      else case generate_salt E w of (salt, w) \<Rightarrow>
        (case derive_key E passphrase salt w of (key, w) \<Rightarrow>
           if key = [] then (False, s, w)
           else let s = s\<lparr>st_salt := salt, st_key := key, st_path := path, st_persistent := True\<rparr>
                in case store_save E s w of (ok, w) \<Rightarrow> (ok, s, w)))"

text \<open>\<^verbatim>\<open>if (persistent_) save();\<close> at the end of a mutation.\<close>

definition autosave :: "env \<Rightarrow> Store \<Rightarrow> world \<Rightarrow> Store \<times> world" where
  "autosave E s w = (s, if st_persistent s then snd (store_save E s w) else w)"

definition store_add_contact :: "env \<Rightarrow> Contact \<Rightarrow> Store \<Rightarrow> world \<Rightarrow> Store \<times> world" where
  "store_add_contact E c s w = autosave E (s\<lparr>st_contacts := st_contacts s @ [c]\<rparr>) w"

fun upsert_contact :: "Contact \<Rightarrow> Contact list \<Rightarrow> Contact list" where
  "upsert_contact c [] = [c]"
| "upsert_contact c (d # ds) = (if c_key d = c_key c then c # ds else d # upsert_contact c ds)"

definition store_upsert :: "env \<Rightarrow> Contact \<Rightarrow> Store \<Rightarrow> world \<Rightarrow> Store \<times> world" where
  "store_upsert E c s w = autosave E (s\<lparr>st_contacts := upsert_contact c (st_contacts s)\<rparr>) w"

fun find_contact :: "Contact list \<Rightarrow> bytes \<Rightarrow> Contact option" where
  "find_contact [] k = None"
| "find_contact (c # cs) k = (if c_key c = k then Some c else find_contact cs k)"

definition store_find :: "Store \<Rightarrow> bytes \<Rightarrow> Contact option" where
  "store_find s k = find_contact (st_contacts s) k"

definition store_trust_of :: "Store \<Rightarrow> bytes \<Rightarrow> TrustStatus option" where
  "store_trust_of s k = map_option c_trust (find_contact (st_contacts s) k)"

definition store_append_message :: "env \<Rightarrow> StoredMessage \<Rightarrow> Store \<Rightarrow> world \<Rightarrow> Store \<times> world" where
  "store_append_message E m s w = autosave E (s\<lparr>st_messages := st_messages s @ [m]\<rparr>) w"

definition store_conversation :: "Store \<Rightarrow> bytes \<Rightarrow> StoredMessage list" where
  "store_conversation s peer = filter (\<lambda>m. m_peer m = peer) (st_messages s)"

definition store_add_request :: "env \<Rightarrow> Request \<Rightarrow> Store \<Rightarrow> world \<Rightarrow> Store \<times> world" where
  "store_add_request E q s w =
     (if \<exists>p\<in>set (st_requests s). q_peer p = q_peer q then (s, w)
      else autosave E (s\<lparr>st_requests := st_requests s @ [q]\<rparr>) w)"

definition store_remove_request :: "env \<Rightarrow> bytes \<Rightarrow> Store \<Rightarrow> world \<Rightarrow> Store \<times> world" where
  "store_remove_request E peer s w =
     (let before = length (st_requests s);
          s = s\<lparr>st_requests := filter (\<lambda>q. q_peer q \<noteq> peer) (st_requests s)\<rparr>
      in (s, if st_persistent s \<and> length (st_requests s) \<noteq> before then snd (store_save E s w) else w))"

section \<open>The payload codecs\<close>

definition contact_bytes :: "Contact \<Rightarrow> bytes" where
  "contact_bytes c = field_bytes (c_key c) @ field_bytes (bytes_of_string (c_nickname c)) @
     [trust_value (c_trust c)] @ be_bytes 8 (u64_of_i64 (c_last_seen c))"

definition message_bytes :: "StoredMessage \<Rightarrow> bytes" where
  "message_bytes m = field_bytes (m_peer m) @ field_bytes (bytes_of_string (m_text m)) @
     [if m_outgoing m then 1 else 0] @ be_bytes 8 (u64_of_i64 (m_timestamp m))"

definition request_bytes :: "Request \<Rightarrow> bytes" where
  "request_bytes q = field_bytes (q_peer q) @ field_bytes (bytes_of_string (q_greeting q)) @
     be_bytes 8 (u64_of_i64 (q_timestamp q))"

text \<open>What the format can represent: the values of the C++ types that fit their prefixes.\<close>

definition wf_trust :: "TrustStatus \<Rightarrow> bool" where
  "wf_trust t \<longleftrightarrow> trust_status_of (trust_value t) = t"

definition wf_contact :: "Contact \<Rightarrow> bool" where
  "wf_contact c \<longleftrightarrow> fits_u16 (c_key c) \<and> fits_u16 (c_nickname c) \<and> wf_trust (c_trust c) \<and>
     is_i64 (c_last_seen c)"

definition wf_message :: "StoredMessage \<Rightarrow> bool" where
  "wf_message m \<longleftrightarrow> fits_u16 (m_peer m) \<and> fits_u16 (m_text m) \<and> is_i64 (m_timestamp m)"

definition wf_request :: "Request \<Rightarrow> bool" where
  "wf_request q \<longleftrightarrow> fits_u16 (q_peer q) \<and> fits_u16 (q_greeting q) \<and> is_i64 (q_timestamp q)"

lemma encode_contacts_eq [bytes_simps]: "encode_contacts out cs = out @ counted contact_bytes cs"
proof -
  have "(\<lambda>c out. let out = put_bytes out (c_key c); out = put_str out (c_nickname c);
            out = put_u8 out (trust_value (c_trust c))
          in blob_put_u64 out (u64_of_i64 (c_last_seen c))) = (\<lambda>c out. out @ contact_bytes c)"
    by (simp add: fun_eq_iff Let_def bytes_simps contact_bytes_def)
  then show ?thesis
    by (simp add: encode_contacts_def fold_append_enc counted_def bytes_simps)
qed

lemma encode_eq:
  "encode cs ms qs = [kPayloadVersion] @ counted contact_bytes cs @ counted message_bytes ms @
     counted request_bytes qs"
proof -
  have m: "(\<lambda>m out. let out = put_bytes out (m_peer m); out = put_str out (m_text m);
            out = put_u8 out (if m_outgoing m then 1 else 0)
          in blob_put_u64 out (u64_of_i64 (m_timestamp m))) = (\<lambda>m out. out @ message_bytes m)"
    by (simp add: fun_eq_iff Let_def bytes_simps message_bytes_def)
  have q: "(\<lambda>q out. let out = put_bytes out (q_peer q); out = put_str out (q_greeting q)
          in blob_put_u64 out (u64_of_i64 (q_timestamp q))) = (\<lambda>q out. out @ request_bytes q)"
    by (simp add: fun_eq_iff Let_def bytes_simps request_bytes_def)
  show ?thesis
    unfolding encode_def m q Let_def
    by (simp add: fold_append_enc counted_def bytes_simps message_bytes_def [abs_def]
        request_bytes_def [abs_def])
qed

lemma keeps_store [simp, intro!]: "keeps rd_contact" "keeps rd_message" "keeps rd_request"
  unfolding rd_contact_def rd_message_def rd_request_def by (intro keeps_bind keeps_prims keeps_Some)+

lemma at_cursor_contact:
  "at_cursor rd_contact b off = do {
     (pk, off) \<leftarrow> at_cursor rd_bytes b off;
     (nick, off) \<leftarrow> at_cursor rd_str b off;
     (t, off) \<leftarrow> at_cursor rd_u8 b off;
     (seen, off) \<leftarrow> at_cursor rd_u64 b off;
     Some (\<lparr>c_key = pk, c_nickname = nick, c_trust = trust_status_of t,
            c_last_seen = i64_of_u64 seen\<rparr>, off)
   }"
  unfolding rd_contact_def by (simp add: at_cursor_bind)

lemma at_cursor_message:
  "at_cursor rd_message b off = do {
     (pk, off) \<leftarrow> at_cursor rd_bytes b off;
     (txt, off) \<leftarrow> at_cursor rd_str b off;
     (out, off) \<leftarrow> at_cursor rd_u8 b off;
     (ts, off) \<leftarrow> at_cursor rd_u64 b off;
     Some (\<lparr>m_peer = pk, m_text = txt, m_outgoing = (out \<noteq> 0), m_timestamp = i64_of_u64 ts\<rparr>, off)
   }"
  unfolding rd_message_def by (simp add: at_cursor_bind)

lemma at_cursor_request:
  "at_cursor rd_request b off = do {
     (pk, off) \<leftarrow> at_cursor rd_bytes b off;
     (txt, off) \<leftarrow> at_cursor rd_str b off;
     (ts, off) \<leftarrow> at_cursor rd_u64 b off;
     Some (\<lparr>q_peer = pk, q_greeting = txt, q_timestamp = i64_of_u64 ts\<rparr>, off)
   }"
  unfolding rd_request_def by (simp add: at_cursor_bind)


lemma trust_status_of_wf [simp]: "wf_trust (trust_status_of b)"
  by (auto simp: wf_trust_def trust_status_of_def)

lemma contact_dec:
  assumes "wf_contact c" "off \<le> length b" "drop off b = contact_bytes c @ rest"
  shows "at_cursor rd_contact b off = Some (c, off + length (contact_bytes c))"
proof -
  note s1 = bytes.dec_drop [of "c_key c" off b, OF _ assms(2), OF _ assms(3) [unfolded contact_bytes_def append_assoc]]
  note s2 = str.dec_drop [of "c_nickname c", OF _ s1(3,2)]
  note s3 = u8.dec_drop [OF _ s2(3,2), simplified]
  note s4 = u64.dec_drop [OF _ s3(3,2), simplified]
  show ?thesis
    using assms(1) [unfolded wf_contact_def] s1 s2 s3 s4
    by (simp add: at_cursor_contact contact_bytes_def wf_trust_def add.assoc)
qed

lemma message_dec:
  assumes "wf_message m" "off \<le> length b" "drop off b = message_bytes m @ rest"
  shows "at_cursor rd_message b off = Some (m, off + length (message_bytes m))"
proof -
  note s1 = bytes.dec_drop [of "m_peer m" off b, OF _ assms(2), OF _ assms(3) [unfolded message_bytes_def append_assoc]]
  note s2 = str.dec_drop [of "m_text m", OF _ s1(3,2)]
  note s3 = u8.dec_drop [OF _ s2(3,2), simplified]
  note s4 = u64.dec_drop [OF _ s3(3,2), simplified]
  show ?thesis
    using assms(1) [unfolded wf_message_def] s1 s2 s3 s4
    by (simp add: at_cursor_message message_bytes_def add.assoc)
qed

lemma request_dec:
  assumes "wf_request q" "off \<le> length b" "drop off b = request_bytes q @ rest"
  shows "at_cursor rd_request b off = Some (q, off + length (request_bytes q))"
proof -
  note s1 = bytes.dec_drop [of "q_peer q" off b, OF _ assms(2), OF _ assms(3) [unfolded request_bytes_def append_assoc]]
  note s2 = str.dec_drop [of "q_greeting q", OF _ s1(3,2)]
  note s3 = u64.dec_drop [OF _ s2(3,2), simplified]
  show ?thesis
    using assms(1) [unfolded wf_request_def] s1 s2 s3
    by (simp add: at_cursor_request request_bytes_def add.assoc)
qed

interpretation contact: reader_codec contact_bytes rd_contact wf_contact
  by unfold_locales (simp_all add: contact_dec)

interpretation message: reader_codec message_bytes rd_message wf_message
  by unfold_locales (simp_all add: message_dec)

interpretation request: reader_codec request_bytes rd_request wf_request
  by unfold_locales (simp_all add: request_dec)

definition wf_lists :: "Contact list \<Rightarrow> StoredMessage list \<Rightarrow> Request list \<Rightarrow> bool" where
  "wf_lists cs ms qs \<longleftrightarrow> list_all wf_contact cs \<and> list_all wf_message ms \<and> list_all wf_request qs \<and>
     fits_u32 cs \<and> fits_u32 ms \<and> fits_u32 qs"

lemma keeps_lists [simp, intro!]: "keeps decode_contacts" "keeps decode_messages" "keeps decode_requests"
  unfolding decode_contacts_def decode_messages_def decode_requests_def
  by (intro keeps_bind keeps_prims keeps_times keeps_store)+

lemma keeps_decode_v2 [simp, intro!]: "keeps decode_v2"
  unfolding decode_v2_def by (intro keeps_bind keeps_prims keeps_lists keeps_Some)

text \<open>A reader run to the end of its buffer, in terms of offsets.\<close>

lemma run_done:
  assumes "keeps m"
  shows "Option.bind (m (reader b)) (\<lambda>(x, r). if rd_done r then Some (f x) else None)
       = Option.bind (at_cursor m b 0) (\<lambda>(x, off). if off = length b then Some (f x) else None)"
proof (cases "m (reader b)")
  case (Some y)
  then obtain x r where y: "m (reader b) = Some (x, r)" by (cases y) auto
  moreover have "rd_b r = b" using keepsD [OF assms y] by (simp add: reader_def)
  ultimately show ?thesis by (simp add: at_cursor_def reader_def rd_done_def)
qed (simp add: at_cursor_def reader_def)

lemma decode_eq:
  "decode b = (if b \<noteq> [] \<and> b ! 0 = kPayloadVersion
     then do { (lists, off) \<leftarrow> at_cursor decode_v2 b 0; if off = length b then Some lists else None }
     else do { (cs, off) \<leftarrow> at_cursor decode_contacts b 0;
               if off = length b then Some (cs, [], []) else None })"
  unfolding decode_def Let_def
  by (simp only: run_done [OF keeps_decode_v2, where f = "\<lambda>x. x"]
      run_done [OF keeps_lists(1), where f = "\<lambda>cs. (cs, [], [])"])

lemma decode_encode_eq:
  assumes "wf_lists cs ms qs"
  shows "decode (encode cs ms qs) = Some (cs, ms, qs)"
proof -
  let ?b = "encode cs ms qs"
  note wf = assms [unfolded wf_lists_def]
  have b: "drop 0 ?b = [kPayloadVersion] @ counted contact_bytes cs @ counted message_bytes ms @
      counted request_bytes qs @ []" by (simp add: encode_eq)
  note s1 = u8.dec_drop [OF TrueI le0 b]
  note s2 = contact.counted_drop [OF _ _ s1(3,2), folded decode_contacts_def]
  note s3 = message.counted_drop [OF _ _ s2(3,2), folded decode_messages_def]
  note s4 = request.counted_drop [OF _ _ s3(3,2), folded decode_requests_def]
  have "at_cursor decode_v2 ?b 0 = Some ((cs, ms, qs), length ?b)"
    using wf s1(1) s2(1) s3(1) s4(1)
    unfolding decode_v2_def by (simp add: at_cursor_bind) (simp add: encode_eq)
  then show ?thesis by (simp add: decode_eq) (simp add: encode_eq)
qed

text \<open>A version-1 payload (contacts only) is still read.\<close>

lemma decode_legacy_eq:
  assumes "list_all wf_contact cs" "length cs < 2 ^ 25"
  shows "decode (encode_contacts [] cs) = Some (cs, [], [])"
proof -
  let ?b = "encode_contacts [] cs"
  have fits: "fits_u32 cs" using assms(2) by (simp add: fits_u32_def)
  have b: "drop 0 ?b = counted contact_bytes cs @ []" by (simp add: bytes_simps)
  note s = contact.counted_drop [OF assms(1) fits le0 b, folded decode_contacts_def]
  have "\<not> bit (of_nat (length cs) :: u32) 25"
    using assms(2) bit_word_of_int_iff [of "int (length cs)" 25, where 'a = 32]
    by (simp add: bit_iff_odd [of "int (length cs)"])
  then have "\<not> bit (byte_at 24 (of_nat (length cs) :: u32)) 1" by (simp add: bit_byte_at)
  moreover have "bit kPayloadVersion 1" by (simp add: kPayloadVersion_def)
  ultimately have "byte_at 24 (of_nat (length cs) :: u32) \<noteq> kPayloadVersion" by metis
  then have "?b ! 0 \<noteq> kPayloadVersion"
    by (simp add: bytes_simps counted_def nth_append nth_be_bytes)
  then show ?thesis using s(1) by (simp add: decode_eq bytes_simps)
qed

section \<open>The contact database interface\<close>

text \<open>
  What the engine relies on: a lookup after an insertion, whatever else the insertion does
  to the world.  A read-modify-write of one contact then changes that contact only.
\<close>

locale contact_db =
  fixes lookup :: "'s \<Rightarrow> bytes \<Rightarrow> Contact option"
    and put :: "Contact \<Rightarrow> 's \<Rightarrow> 'w \<Rightarrow> 's \<times> 'w"
  assumes lookup_put: "lookup (fst (put c s w)) k = (if k = c_key c then Some c else lookup s k)"
begin

lemma lookup_put_other: "k \<noteq> c_key c \<Longrightarrow> lookup (fst (put c s w)) k = lookup s k"
  by (simp add: lookup_put)

lemma lookup_put_twice:
  "c_key c = c_key d \<Longrightarrow> lookup (fst (put c (fst (put d s w)) w')) = lookup (fst (put c s w''))"
  by (auto simp: lookup_put)

lemma lookup_put_commute:
  "c_key c \<noteq> c_key d \<Longrightarrow>
   lookup (fst (put c (fst (put d s w1)) w2)) = lookup (fst (put d (fst (put c s w3)) w4))"
  by (auto simp: lookup_put)

end

lemma fst_autosave [simp]: "fst (autosave E s w) = s"
  by (simp add: autosave_def)

lemma find_upsert_contact: "find_contact (upsert_contact c cs) k = (if k = c_key c then Some c else find_contact cs k)"
  by (induction cs) auto

interpretation db: contact_db store_find "store_upsert E" for E
  by unfold_locales (simp add: store_find_def store_upsert_def find_upsert_contact)

lemma store_trust_of_find: "store_trust_of s k = map_option c_trust (store_find s k)"
  by (simp add: store_trust_of_def store_find_def)

lemma find_contact_key: "find_contact cs k = Some c \<Longrightarrow> c_key c = k \<and> c \<in> set cs"
  by (induction cs) (auto split: if_splits)

lemma find_contact_None: "find_contact cs k = None \<longleftrightarrow> k \<notin> c_key ` set cs"
  by (induction cs) auto

lemma set_upsert_contact: "c_key ` set (upsert_contact c cs) = insert (c_key c) (c_key ` set cs)"
  by (induction cs) auto

lemma distinct_upsert_contact:
  "distinct (map c_key cs) \<Longrightarrow> distinct (map c_key (upsert_contact c cs))"
  by (induction cs) (auto simp: set_upsert_contact)

text \<open>Every operation changes one list; saving changes the files only.\<close>

lemma store_save_frame [frame_simps]: "sent (snd (store_save E s w)) = sent w"
proof -
  obtain ok w' where *: "write_blob E (st_path s) kStoreMagic (st_salt s) (st_key s)
      (encode (st_contacts s) (st_messages s) (st_requests s)) w = (ok, w')"
    by (metis prod.exhaust)
  then have "sent w' = sent w"
    by (auto simp: write_blob_def Let_def seal_def split: if_splits prod.splits write_result.splits)
  with * show ?thesis by (simp add: store_save_def)
qed

lemma autosave_sent [frame_simps]: "sent (snd (autosave E s w)) = sent w"
  by (simp add: autosave_def store_save_frame)

lemma store_ops_frame [frame_simps]:
  "sent (snd (store_upsert E c s w)) = sent w"
  "sent (snd (store_append_message E m s w)) = sent w"
  "sent (snd (store_add_request E q s w)) = sent w"
  "sent (snd (store_remove_request E p s w)) = sent w"
  by (simp_all add: store_upsert_def store_append_message_def store_add_request_def
      store_remove_request_def Let_def autosave_sent store_save_frame)

lemma store_upsert_fields [simp]:
  "st_contacts (fst (store_upsert E c s w)) = upsert_contact c (st_contacts s)"
  "st_messages (fst (store_upsert E c s w)) = st_messages s"
  "st_requests (fst (store_upsert E c s w)) = st_requests s"
  by (simp_all add: store_upsert_def)

lemma store_append_message_fields [simp]:
  "st_contacts (fst (store_append_message E m s w)) = st_contacts s"
  "st_messages (fst (store_append_message E m s w)) = st_messages s @ [m]"
  "st_requests (fst (store_append_message E m s w)) = st_requests s"
  by (simp_all add: store_append_message_def)

lemma store_add_request_fields [simp]:
  "st_contacts (fst (store_add_request E q s w)) = st_contacts s"
  "st_messages (fst (store_add_request E q s w)) = st_messages s"
  "st_requests (fst (store_add_request E q s w)) =
     (if q_peer q \<in> q_peer ` set (st_requests s) then st_requests s else st_requests s @ [q])"
  by (auto simp: store_add_request_def) (metis imageI)

lemma store_remove_request_fields [simp]:
  "st_contacts (fst (store_remove_request E p s w)) = st_contacts s"
  "st_messages (fst (store_remove_request E p s w)) = st_messages s"
  "st_requests (fst (store_remove_request E p s w)) = filter (\<lambda>q. q_peer q \<noteq> p) (st_requests s)"
  by (simp_all add: store_remove_request_def Let_def)

text \<open>One contact per key, one pending request per peer.\<close>

definition store_inv :: "Store \<Rightarrow> bool" where
  "store_inv s \<longleftrightarrow> distinct (map c_key (st_contacts s)) \<and> distinct (map q_peer (st_requests s))"

lemma store_inv_ops [intro, simp]:
  "store_inv s \<Longrightarrow> store_inv (fst (store_upsert E c s w))"
  "store_inv s \<Longrightarrow> store_inv (fst (store_append_message E m s w))"
  "store_inv s \<Longrightarrow> store_inv (fst (store_add_request E q s w))"
  "store_inv s \<Longrightarrow> store_inv (fst (store_remove_request E p s w))"
  by (auto simp: store_inv_def distinct_upsert_contact distinct_map_filter)

section \<open>Persistence\<close>

lemma store_open_existing_False:
  assumes "path \<in> dom (files w)" and "store_open E s path pass w = (False, s', w')"
  shows "s' = s"
  using assms by (auto simp: store_open_def split: prod.splits option.splits if_splits)

lemma store_reopen_eq:
  assumes laws: "disk_keeps E" "aead_correct E" "random_sized E" "pwhash_deterministic E"
    and saved: "store_save E s w = (True, w1)"
    and key: "fst (derive_key E pass (st_salt s) w0) = st_key s" "st_key s \<noteq> []"
    and wf: "wf_lists (st_contacts s) (st_messages s) (st_requests s)"
    and files: "files w2 = files w1" "\<And>i. file_read_ok E i (st_path s)"
  shows "\<exists>w3. store_open E s0 (st_path s) pass w2 =
    (True, s0\<lparr>st_contacts := st_contacts s, st_messages := st_messages s, st_requests := st_requests s,
       st_salt := st_salt s, st_key := st_key s, st_path := st_path s, st_persistent := True\<rparr>, w3)
    \<and> files w3 = files w1"
proof -
  let ?path = "st_path s"
  have blob: "write_blob E ?path kStoreMagic (st_salt s) (st_key s)
      (encode (st_contacts s) (st_messages s) (st_requests s)) w = (True, w1)"
    using saved by (simp add: store_save_def split: if_splits)
  have magic: "length kStoreMagic = 4" by (simp add: kStoreMagic_def)
  note rd = written_blob_readable [OF blob laws(1-3) magic]
  have dom: "?path \<in> dom (files w2)"
    using write_blob_True [OF blob laws(1)] files(1) by auto
  obtain w3 where w3: "derive_key E pass (st_salt s) (next_call w2) = (st_key s, w3)"
    using derive_key_deterministic [OF laws(4)] key(1) by (metis prod.collapse)
  have "files w3 = files w1"
    using derive_key_frame(1) [of E pass "st_salt s" "next_call w2"] files(1) by (simp add: w3)
  then show ?thesis
    using dom rd(1) [OF _ files(2), of w2] rd(2) [of w3, OF _ files(2)] files(1) key(2) w3 wf
    by (simp add: store_open_def decode_encode_eq)
qed

section \<open>Properties\<close>

text \<open>
  The storage payload round-trips: decoding what \<^verbatim>\<open>encode\<close> wrote gives the same
  contacts, messages and requests, in order, as long as the strings fit their 16-bit
  lengths and the lists their 32-bit counts; and a legacy contacts-only payload (of fewer
  than \<open>2^25\<close> contacts) still loads as those contacts.
\<close>

theorem payload_roundtrip:
  assumes "wf_lists cs ms qs"
  shows "decode (encode cs ms qs) = Some (cs, ms, qs) \<and>
    (length cs < 2 ^ 25 \<longrightarrow> decode (encode_contacts [] cs) = Some (cs, [], []))"
  using assms decode_encode_eq decode_legacy_eq by (auto simp: wf_lists_def)

theorem payload_roundtrip_witness:
  "decode (encode [\<lparr>c_key = [1, 2], c_nickname = ''bob'', c_trust = Accepted, c_last_seen = - 5\<rparr>]
      [\<lparr>m_peer = [1, 2], m_text = ''hi'', m_outgoing = True, m_timestamp = 77\<rparr>] [])
   = Some ([\<lparr>c_key = [1, 2], c_nickname = ''bob'', c_trust = Accepted, c_last_seen = - 5\<rparr>],
      [\<lparr>m_peer = [1, 2], m_text = ''hi'', m_outgoing = True, m_timestamp = 77\<rparr>], [])"
proof -
  have "wf_lists [\<lparr>c_key = [1, 2], c_nickname = ''bob'', c_trust = Accepted, c_last_seen = - 5\<rparr>]
      [\<lparr>m_peer = [1, 2], m_text = ''hi'', m_outgoing = True, m_timestamp = 77\<rparr>] []"
    by (simp add: wf_lists_def wf_contact_def wf_message_def wf_trust_def trust_status_of_def
        fits_u16_def fits_u32_def is_i64_def)
  then show ?thesis using payload_roundtrip by blast
qed

text \<open>
  What a persistent store saved is what the next process loads: if \<^verbatim>\<open>save\<close> reported
  success, opening the same path with the passphrase its key was derived from succeeds and
  yields exactly the contacts, messages and requests in memory at the save, and leaves the
  files as they are.
\<close>

theorem store_reopened:
  assumes "disk_keeps E" "aead_correct E" "random_sized E" "pwhash_deterministic E"
    and "store_save E s w = (True, w1)"
    and "fst (derive_key E pass (st_salt s) w0) = st_key s" "st_key s \<noteq> []"
    and "wf_lists (st_contacts s) (st_messages s) (st_requests s)"
    and "files w2 = files w1" "\<And>i. file_read_ok E i (st_path s)"
  shows "\<exists>s' w3. store_open E s0 (st_path s) pass w2 = (True, s', w3) \<and> files w3 = files w1 \<and>
    st_contacts s' = st_contacts s \<and> st_messages s' = st_messages s \<and> st_requests s' = st_requests s \<and>
    st_persistent s' \<and> st_path s' = st_path s \<and> st_key s' = st_key s"
  using store_reopen_eq [OF assms, of s0] by auto

theorem store_reopened_witness:
  "\<exists>w1 s' w3. store_save toy_env
      \<lparr>st_contacts = [\<lparr>c_key = [7], c_nickname = ''bob'', c_trust = Accepted, c_last_seen = 3\<rparr>],
       st_messages = [], st_requests = [], st_persistent = True, st_path = ''db'',
       st_key = pad 32 (bytes_of_string ''pw''), st_salt = pad 16 []\<rparr> toy_world = (True, w1) \<and>
     store_open toy_env default_store ''db'' ''pw'' w1 = (True, s', w3) \<and>
     st_contacts s' = [\<lparr>c_key = [7], c_nickname = ''bob'', c_trust = Accepted, c_last_seen = 3\<rparr>]"
proof -
  let ?s = "\<lparr>st_contacts = [\<lparr>c_key = [7], c_nickname = ''bob'', c_trust = Accepted, c_last_seen = 3\<rparr>],
       st_messages = [], st_requests = [], st_persistent = True, st_path = ''db'',
       st_key = pad 32 (bytes_of_string ''pw''), st_salt = pad 16 []\<rparr>"
  obtain ok w1 where w: "store_save toy_env ?s toy_world = (ok, w1)" by fastforce
  have ne: "pad 32 x \<noteq> []" for x by (metis length_pad list.size(3) zero_neq_numeral)
  from w have ok
    by (auto simp: store_save_def write_blob_def seal_def crypto_sizes kSaltBytes_def Let_def split: if_splits)
  moreover have "wf_lists (st_contacts ?s) (st_messages ?s) (st_requests ?s)"
    by (simp add: wf_lists_def wf_contact_def wf_trust_def trust_status_of_def fits_u16_def fits_u32_def is_i64_def)
  moreover have "fst (derive_key toy_env ''pw'' (st_salt ?s) toy_world) = st_key ?s"
    by (simp add: derive_key_def crypto_sizes)
  ultimately show ?thesis
    using store_reopened [OF toy_env_laws(11,1,3,5), of ?s toy_world w1 "''pw''" toy_world w1 default_store] w ne
    by auto
qed

end
