(* ===== verification/Socket.thy ===== *)
theory Socket
  imports Env "HOL-Library.Sublist"
begin

text \<open>
  The UDP socket (\<^verbatim>\<open>libs/net/src/udp_socket.cpp\<close>): a descriptor and an address family over
  the system calls of the environment.  \<open>sent\<close> of the world records the datagrams that
  \<^verbatim>\<open>send_to\<close> handed over completely; \<open>fds\<close> the descriptors that are open.  The locale
  \<open>transport\<close> is what the engine, the signaling client and the servers rely on.
\<close>

record UdpSocket =
  sock_fd :: int
  sock_family :: int

record Datagram =
  dg_from :: Endpoint
  dg_data :: bytes

definition AF_UNSPEC :: int where "AF_UNSPEC = 0"
definition kReceiveBufferSize :: nat where "kReceiveBufferSize = 2048"

definition default_socket :: UdpSocket where
  "default_socket = \<lparr>sock_fd = -1, sock_family = 0\<rparr>"

definition is_open :: "UdpSocket \<Rightarrow> bool" where
  "is_open s \<longleftrightarrow> sock_fd s \<ge> 0"

section \<open>Addresses\<close>

definition resolve :: "env \<Rightarrow> string \<Rightarrow> u16 \<Rightarrow> int \<Rightarrow> bool \<Rightarrow> world \<Rightarrow> sockaddr option \<times> world" where
  "resolve E hst prt family passive w =
     (getaddrinfo E (calls w) (if hst = [] then None else Some hst) (dec_string (unat prt)) family passive,
      next_call w)"

definition endpoint_from_sockaddr :: "env \<Rightarrow> sockaddr \<Rightarrow> world \<Rightarrow> Endpoint \<times> world" where
  "endpoint_from_sockaddr E ss w =
     (case getnameinfo E (calls w) ss of
        Some (h, serv) \<Rightarrow> (\<lparr>host = h, port = ucast (strtoul serv)\<rparr>, next_call w)
      | None \<Rightarrow> (default_endpoint, next_call w))"

section \<open>Operations\<close>

definition socket_close :: "UdpSocket \<Rightarrow> world \<Rightarrow> UdpSocket \<times> world" where
  "socket_close s w =
     (if sock_fd s \<ge> 0 then (s\<lparr>sock_fd := -1, sock_family := 0\<rparr>, w\<lparr>fds := fds w - {sock_fd s}\<rparr>) else (s, w))"

text \<open>Move construction and move assignment: the new object and the moved-from one.\<close>

definition socket_move :: "UdpSocket \<Rightarrow> UdpSocket \<times> UdpSocket" where
  "socket_move other = (\<lparr>sock_fd = sock_fd other, sock_family = sock_family other\<rparr>, other\<lparr>sock_fd := -1, sock_family := 0\<rparr>)"

definition socket_move_assign ::
  "UdpSocket \<Rightarrow> UdpSocket \<Rightarrow> world \<Rightarrow> UdpSocket \<times> UdpSocket \<times> world" where
  "socket_move_assign this other w =
     (case socket_close this w of (this, w) \<Rightarrow>
        (this\<lparr>sock_fd := sock_fd other, sock_family := sock_family other\<rparr>, other\<lparr>sock_fd := -1, sock_family := 0\<rparr>, w))"

definition open_fd :: "env \<Rightarrow> int \<Rightarrow> world \<Rightarrow> int \<times> world" where
  "open_fd E family w =
     (let fd = os_socket E (calls w) family; w = next_call w
      in (fd, if fd \<ge> 0 then w\<lparr>fds := insert fd (fds w)\<rparr> else w))"

definition socket_bind :: "env \<Rightarrow> UdpSocket \<Rightarrow> Endpoint \<Rightarrow> world \<Rightarrow> bool \<times> UdpSocket \<times> world" where
  "socket_bind E s local w =
     (case socket_close s w of (s, w) \<Rightarrow>
      case resolve E (host local) (port local) AF_UNSPEC True w of
        (None, w) \<Rightarrow> (False, s, w)
      | (Some ss, w) \<Rightarrow>
          (case open_fd E (sa_family ss) w of (fd, w) \<Rightarrow>
             let s = s\<lparr>sock_fd := fd\<rparr> in
             if fd < 0 then (False, s, w)
             else let s = s\<lparr>sock_family := sa_family ss\<rparr> in
               if os_bind E (calls w) fd ss \<noteq> 0
               then (case socket_close s (next_call w) of (s, w) \<Rightarrow> (False, s, w))
               else (True, s, next_call w)))"

definition send_to ::
  "env \<Rightarrow> UdpSocket \<Rightarrow> Endpoint \<Rightarrow> bytes \<Rightarrow> world \<Rightarrow> bool \<times> UdpSocket \<times> world" where
  "send_to E s to data w =
     (let family = (if is_open s then sock_family s else AF_UNSPEC) in
      case resolve E (host to) (port to) family False w of
        (None, w) \<Rightarrow> (False, s, w)
      | (Some ss, w) \<Rightarrow>
          (case (if is_open s then (True, s, w)
                 else case open_fd E (sa_family ss) w of (fd, w) \<Rightarrow>
                   if fd < 0 then (False, s\<lparr>sock_fd := fd\<rparr>, w)
                   else (True, s\<lparr>sock_fd := fd, sock_family := sa_family ss\<rparr>, w)) of
             (False, s, w) \<Rightarrow> (False, s, w)
           | (True, s, w) \<Rightarrow>
               (let n = os_sendto E (calls w) (sock_fd s) data ss; w = next_call w;
                    ok = (n \<ge> 0 \<and> nat n = length data)
                in (ok, s, if ok then w\<lparr>sent := sent w @ [(to, data)]\<rparr> else w))))"

definition receive ::
  "env \<Rightarrow> UdpSocket \<Rightarrow> int \<Rightarrow> nat \<Rightarrow> world \<Rightarrow> Datagram option \<times> world" where
  "receive E s timeout_ms max_size w =
     (if \<not> is_open s then (None, w)
      else case (if timeout_ms \<ge> 0 then (os_poll E (calls w) (sock_fd s) timeout_ms, next_call w)
                 else (1, w)) of (ready, w) \<Rightarrow>
        if ready \<le> 0 then (None, w)
        else case os_recvfrom E (calls w) (sock_fd s) max_size of
          None \<Rightarrow> (None, next_call w)
        | Some (b, ss) \<Rightarrow>
            (case endpoint_from_sockaddr E ss (next_call w) of (ep, w) \<Rightarrow>
               (Some \<lparr>dg_from = ep, dg_data = b\<rparr>, w)))"

definition O_NONBLOCK :: int where "O_NONBLOCK = 2048"

definition set_nonblocking :: "env \<Rightarrow> UdpSocket \<Rightarrow> bool \<Rightarrow> world \<Rightarrow> bool \<times> world" where
  "set_nonblocking E s on w =
     (if \<not> is_open s then (False, w)
      else let fl = os_fcntl_getfl E (calls w) (sock_fd s); w = next_call w in
        if fl < 0 then (False, w)
        else let fl = (if on then fl OR O_NONBLOCK else fl AND NOT O_NONBLOCK)
             in (os_fcntl_setfl E (calls w) (sock_fd s) fl = 0, next_call w))"

definition local_endpoint :: "env \<Rightarrow> UdpSocket \<Rightarrow> world \<Rightarrow> Endpoint option \<times> world" where
  "local_endpoint E s w =
     (if \<not> is_open s then (None, w)
      else case os_getsockname E (calls w) (sock_fd s) of
        None \<Rightarrow> (None, next_call w)
      | Some ss \<Rightarrow> (case endpoint_from_sockaddr E ss (next_call w) of (ep, w) \<Rightarrow> (Some ep, w)))"

section \<open>The transport interface\<close>

text \<open>\<open>send_each\<close> is the loop of the servers: every datagram of a list, one after the other.\<close>

fun send_each ::
  "('s \<Rightarrow> Endpoint \<Rightarrow> bytes \<Rightarrow> world \<Rightarrow> bool \<times> 's \<times> world) \<Rightarrow> 's \<Rightarrow> (Endpoint \<times> bytes) list \<Rightarrow> world
    \<Rightarrow> 's \<times> world"
where
  "send_each snd_dg s [] w = (s, w)"
| "send_each snd_dg s ((to, d) # out) w =
     (case snd_dg s to d w of (_, s, w) \<Rightarrow> send_each snd_dg s out w)"

locale transport =
  fixes snd_dg :: "'s \<Rightarrow> Endpoint \<Rightarrow> bytes \<Rightarrow> world \<Rightarrow> bool \<times> 's \<times> world"
  assumes snd_dg_files: "snd_dg s to d w = (ok, s', w') \<Longrightarrow> files w' = files w"
    and snd_dg_sent: "snd_dg s to d w = (ok, s', w') \<Longrightarrow> sent w' = sent w @ (if ok then [(to, d)] else [])"
begin

lemma send_each_files: "files (snd (send_each snd_dg s out w)) = files w"
proof (induction out arbitrary: s w)
  case (Cons o1 out)
  then show ?case by (cases o1) (auto simp: snd_dg_files split: prod.splits)
qed simp

text \<open>A loop of sends puts a subsequence of the list on the wire, and nothing else.\<close>

lemma send_each_sent:
  "\<exists>ds. subseq ds out \<and> sent (snd (send_each snd_dg s out w)) = sent w @ ds"
proof (induction out arbitrary: s w)
  case (Cons o1 out)
  obtain to d where o1: "o1 = (to, d)" by (cases o1)
  obtain ok s' w' where step: "snd_dg s to d w = (ok, s', w')" by (metis prod_cases3)
  obtain ds where ds: "subseq ds out" "sent (snd (send_each snd_dg s' out w')) = sent w' @ ds"
    using Cons.IH by blast
  let ?ds = "(if ok then [o1] else []) @ ds"
  have "subseq ?ds (o1 # out)" using ds(1) by auto
  moreover have "sent (snd (send_each snd_dg s (o1 # out) w)) = sent w @ ?ds"
    using ds(2) by (simp add: o1 step snd_dg_sent [OF step])
  ultimately show ?case by blast
qed simp

end

lemma resolve_frame [simp, frame_simps]:
  "files (snd (resolve E h p f b w)) = files w" "sent (snd (resolve E h p f b w)) = sent w"
  "fds (snd (resolve E h p f b w)) = fds w"
  by (simp_all add: resolve_def)

lemma send_to_frame:
  assumes "send_to E s to d w = (ok, s', w')"
  shows "files w' = files w" and "sent w' = sent w @ (if ok then [(to, d)] else [])"
  using assms
  by (auto simp: send_to_def resolve_def open_fd_def Let_def split: if_splits option.splits prod.splits)

interpretation udp: transport "send_to E" for E
  by unfold_locales (auto simp: send_to_frame)

section \<open>Descriptors\<close>

text \<open>The descriptor a socket object owns, as a set.\<close>

definition owned :: "UdpSocket \<Rightarrow> int set" where
  "owned s = (if sock_fd s \<ge> 0 then {sock_fd s} else {})"

lemma socket_close_owned:
  assumes "fds w = B \<union> owned s" "B \<inter> owned s = {}" "socket_close s w = (s', w')"
  shows "fds w' = B" and "sock_fd s' < 0" and "owned s' = {}"
  using assms by (auto simp: socket_close_def owned_def split: if_splits)

lemma socket_bind_owned:
  assumes w: "fds w = B \<union> owned s" "B \<inter> owned s = {}" and fresh: "\<And>i fam. os_socket E i fam \<notin> B"
    and b: "socket_bind E s local w = (ok, s', w')"
  shows "fds w' = B \<union> owned s' \<and> (ok \<longrightarrow> is_open s')"
proof -
  obtain s1 w1 where c: "socket_close s w = (s1, w1)" by fastforce
  note c1 = socket_close_owned [OF w c]
  obtain a where a: "resolve E (host local) (port local) AF_UNSPEC True w1 = (a, next_call w1)"
    by (simp add: resolve_def)
  show ?thesis
  proof (cases a)
    case None
    with b c1 show ?thesis by (auto simp: socket_bind_def c a)
  next
    case (Some ss)
    let ?fd = "os_socket E (calls (next_call w1)) (sa_family ss)"
    let ?s = "s1\<lparr>sock_fd := ?fd, sock_family := sa_family ss\<rparr>"
    let ?w = "(next_call (next_call w1))\<lparr>fds := insert ?fd B\<rparr>"
    have "fds (snd (socket_close ?s (next_call ?w))) = B" "owned (fst (socket_close ?s (next_call ?w))) = {}"
      if "?fd \<ge> 0" using that fresh by (auto simp: socket_close_def owned_def)
    then show ?thesis
      using b c1 Some by (auto simp: socket_bind_def c a open_fd_def Let_def owned_def is_open_def next_call_def
          split: if_splits prod.splits)
  qed
qed

lemma send_to_owned:
  assumes w: "fds w = B \<union> owned s" and b: "send_to E s to d w = (ok, s', w')"
  shows "fds w' = B \<union> owned s'"
proof (cases "is_open s")
  case True
  then have "s' = s \<and> fds w' = fds w"
    using b by (cases "getaddrinfo E (calls w) (if host to = [] then None else Some (host to))
        (dec_string (unat (port to))) (sock_family s) False")
       (simp_all add: send_to_def resolve_def Let_def split: if_splits, auto)
  with w show ?thesis by simp
next
  case False
  then have fds: "fds w = B" "owned s = {}" using w by (simp_all add: owned_def is_open_def)
  obtain a where a: "resolve E (host to) (port to) AF_UNSPEC False w = (a, next_call w)"
    by (simp add: resolve_def)
  show ?thesis
  proof (cases a)
    case None
    with b fds False show ?thesis by (auto simp: send_to_def a Let_def)
  next
    case (Some ss)
    obtain fd w1 where fd: "open_fd E (sa_family ss) (next_call w) = (fd, w1)" by fastforce
    then have w1: "fds w1 = B \<union> (if fd \<ge> 0 then {fd} else {})"
      using fds by (auto simp: open_fd_def Let_def split: if_splits)
    show ?thesis
    proof (cases "fd < 0")
      case True
      with b w1 Some False fd show ?thesis by (auto simp: send_to_def a Let_def owned_def)
    next
      case False
      with b w1 Some \<open>\<not> is_open s\<close> fd show ?thesis
        by (simp add: send_to_def a Let_def) (auto simp: owned_def split: if_splits)
    qed
  qed
qed

text \<open>
  No descriptor leaks: with \<open>B\<close> the descriptors of the rest of the program, if the open
  descriptors are \<open>B\<close> and this socket's own, then after binding (successful or not,
  re-binding an open socket included), sending (with its lazy opening), closing, and move
  construction and assignment they are \<open>B\<close> and what the socket objects own afterwards.
\<close>

theorem socket_no_fd_leak:
  assumes "fds w = B \<union> owned s" "B \<inter> owned s = {}" and "\<And>i fam. os_socket E i fam \<notin> B"
  shows "(case socket_bind E s local w of (ok, s', w') \<Rightarrow> fds w' = B \<union> owned s' \<and> (ok \<longrightarrow> is_open s')) \<and>
    (case send_to E s to d w of (ok, s', w') \<Rightarrow> fds w' = B \<union> owned s') \<and>
    (case socket_close s w of (s', w') \<Rightarrow> fds w' = B \<and> owned s' = {}) \<and>
    (case socket_move s of (s', old) \<Rightarrow> owned s' = owned s \<and> owned old = {}) \<and>
    (case socket_move_assign s other w of (s', old, w') \<Rightarrow>
       fds w' = B \<and> owned s' = owned other \<and> owned old = {})"
proof (intro conjI)
  show "case socket_close s w of (s', w') \<Rightarrow> fds w' = B \<and> owned s' = {}"
    using assms by (auto simp: socket_close_def owned_def)
  show "case socket_move s of (s', old) \<Rightarrow> owned s' = owned s \<and> owned old = {}"
    by (simp add: socket_move_def owned_def)
  show "case socket_move_assign s other w of (s', old, w') \<Rightarrow>
       fds w' = B \<and> owned s' = owned other \<and> owned old = {}"
    using assms by (auto simp: socket_move_assign_def socket_close_def owned_def)
  show "case send_to E s to d w of (ok, s', w') \<Rightarrow> fds w' = B \<union> owned s'"
    using send_to_owned [OF assms(1)] by (auto split: prod.splits)
  show "case socket_bind E s local w of (ok, s', w') \<Rightarrow> fds w' = B \<union> owned s' \<and> (ok \<longrightarrow> is_open s')"
    using socket_bind_owned [OF assms] by (auto split: prod.splits)
qed

theorem socket_no_fd_leak_witness:
  "case socket_bind toy_env default_socket \<lparr>host = ''h'', port = 1\<rparr> toy_world of
     (ok, s', w') \<Rightarrow> fds w' = {} \<union> owned s' \<and> (ok \<longrightarrow> is_open s')"
  using socket_no_fd_leak [of toy_world "{}" default_socket toy_env "\<lparr>host = ''h'', port = 1\<rparr>"]
  by (simp add: toy_world_def owned_def default_socket_def)

text \<open>
  A received datagram never exceeds the buffer handed to \<^verbatim>\<open>recvfrom\<close> and a
  closed socket receives nothing and makes no system call; receiving puts nothing on the
  wire and opens or closes no descriptor.
\<close>

theorem receive_bounded:
  assumes "recv_bounded E" and "receive E s timeout_ms max_size w = (dg, w')"
  shows "(case dg of None \<Rightarrow> True | Some d \<Rightarrow> length (dg_data d) \<le> max_size \<and> is_open s) \<and>
    (\<not> is_open s \<longrightarrow> dg = None \<and> w' = w) \<and> sent w' = sent w \<and> files w' = files w \<and> fds w' = fds w"
proof -
  have len: "length b \<le> n" if "os_recvfrom E i fd n = Some (b, a)" for i fd n b a
    using assms(1) that unfolding recv_bounded_def by blast
  show ?thesis
    using assms(2)
    by (auto simp: receive_def endpoint_from_sockaddr_def Let_def dest: len
        split: if_splits option.splits prod.splits)
qed

theorem receive_bounded_witness:
  "case receive (toy_net ''h:1'' [1, 2, 3]) \<lparr>sock_fd = 3, sock_family = 2\<rparr> 10 2 toy_world of
     (dg, w') \<Rightarrow> (case dg of None \<Rightarrow> True | Some d \<Rightarrow> length (dg_data d) \<le> 2)"
proof -
  obtain dg w' where r: "receive (toy_net ''h:1'' [1, 2, 3]) \<lparr>sock_fd = 3, sock_family = 2\<rparr> 10 2 toy_world = (dg, w')"
    by fastforce
  show ?thesis using receive_bounded [OF toy_net_laws(6) r] unfolding r by (simp split: option.splits)
qed

end
