(* ===== verification/Engine.thy ===== *)
theory Engine
  imports Session Store Socket
begin

text \<open>
  The messaging engine (\<^verbatim>\<open>libs/messaging/src/engine.cpp\<close>): it ties sessions, the UDP socket
  and the local database together and enforces the contact-request flow.

  The unordered maps and sets of the class, keyed by the hex of a public key, are HOL maps
  and sets; the one loop over such a map (\<^verbatim>\<open>tick\<close>) takes the iteration order as an
  argument.  A \<^verbatim>\<open>Session*\<close> returned by \<^verbatim>\<open>ensure_session\<close> points into the session map: the
  caller's changes are written back under its key.  The three application callbacks are
  flags (installed or not), and the calls made to them are appended to \<open>eng_events\<close>.
\<close>

section \<open>State\<close>

record Message =
  msg_peer :: bytes
  msg_plaintext :: bytes
  msg_outgoing :: bool

datatype Event =
    MessageEvent Message
  | RequestEvent bytes bytes
  | ResponseEvent bytes bool

record Probe =
  pr_peer :: bytes
  pr_candidate :: Endpoint
  pr_confirmed :: bool
  pr_attempts :: int
  pr_last :: int

definition default_probe :: Probe where
  "default_probe = \<lparr>pr_peer = [], pr_candidate = default_endpoint, pr_confirmed = False,
     pr_attempts = 0, pr_last = 0\<rparr>"

record Engine =
  eng_public :: bytes
  eng_secret :: bytes
  eng_socket :: UdpSocket
  eng_contacts :: Store
  eng_relay :: "Endpoint option"
  eng_message_handler :: bool
  eng_request_handler :: bool
  eng_response_handler :: bool
  eng_sessions :: "string \<rightharpoonup> Session"
  eng_endpoints :: "string \<rightharpoonup> Endpoint"
  eng_probes :: "string \<rightharpoonup> Probe"
  eng_incoming :: "string set"
  eng_outgoing :: "string set"
  eng_events :: "Event list"

definition kAccept :: byte where "kAccept = 0x01"
definition kReject :: byte where "kReject = 0x00"
definition kMaxProbes :: int where "kMaxProbes = 12"

text \<open>250 milliseconds, in the nanoseconds of the steady clock.\<close>

definition kProbeInterval :: int where "kProbeInterval = 250 * 1000000"

definition now_seconds :: "env \<Rightarrow> world \<Rightarrow> int \<times> world" where
  "now_seconds E w = (os_time E (calls w), next_call w)"

definition engine_parse_endpoint :: "bytes \<Rightarrow> Endpoint option" where
  "engine_parse_endpoint pl =
     (if pl = [] then None
      else let s = string_of_bytes pl in
        case rfind CHR '':'' s of None \<Rightarrow> None
        | Some pos \<Rightarrow>
            if pos + 1 \<ge> length s then None
            else Some \<lparr>host = take pos s, port = ucast (strtoul (drop (pos + 1) s))\<rparr>)"

definition new_engine :: "bytes \<Rightarrow> bytes \<Rightarrow> Engine" where
  "new_engine local_public local_secret = \<lparr>eng_public = local_public, eng_secret = local_secret,
     eng_socket = default_socket, eng_contacts = default_store, eng_relay = None,
     eng_message_handler = False, eng_request_handler = False, eng_response_handler = False,
     eng_sessions = Map.empty, eng_endpoints = Map.empty, eng_probes = Map.empty,
     eng_incoming = {}, eng_outgoing = {}, eng_events = []\<rparr>"

section \<open>Socket operations\<close>

definition engine_bind :: "env \<Rightarrow> Endpoint \<Rightarrow> Engine \<Rightarrow> world \<Rightarrow> bool \<times> Engine \<times> world" where
  "engine_bind E local e w =
     (case socket_bind E (eng_socket e) local w of (ok, s, w) \<Rightarrow> (ok, e\<lparr>eng_socket := s\<rparr>, w))"

definition engine_local_endpoint :: "env \<Rightarrow> Engine \<Rightarrow> world \<Rightarrow> Endpoint option \<times> world" where
  "engine_local_endpoint E e w = local_endpoint E (eng_socket e) w"

text \<open>\<^verbatim>\<open>socket_.send_to(to, data)\<close>.\<close>

definition engine_send_to :: "env \<Rightarrow> Endpoint \<Rightarrow> bytes \<Rightarrow> Engine \<Rightarrow> world \<Rightarrow> bool \<times> Engine \<times> world" where
  "engine_send_to E to data e w =
     (case send_to E (eng_socket e) to data w of (ok, s, w) \<Rightarrow> (ok, e\<lparr>eng_socket := s\<rparr>, w))"

definition announce_to :: "env \<Rightarrow> Endpoint \<Rightarrow> Engine \<Rightarrow> world \<Rightarrow> bool \<times> Engine \<times> world" where
  "announce_to E relay e w =
     (let hello = default_packet\<lparr>ptype := Hello, source := eng_public e\<rparr>
      in engine_send_to E relay (serialize hello) e w)"

section \<open>Connectivity\<close>

definition send_probe :: "env \<Rightarrow> bytes \<Rightarrow> Endpoint \<Rightarrow> Engine \<Rightarrow> world \<Rightarrow> Engine \<times> world" where
  "send_probe E peer to e w =
     (let probe = default_packet\<lparr>ptype := Hello, source := eng_public e, destination := peer\<rparr>
      in snd (engine_send_to E to (serialize probe) e w))"

definition start_probing :: "env \<Rightarrow> bytes \<Rightarrow> Endpoint \<Rightarrow> Engine \<Rightarrow> world \<Rightarrow> Engine \<times> world" where
  "start_probing E peer candidate e w =
     (let key = to_hex peer; it = eng_probes e key in
      if (case it of None \<Rightarrow> False | Some p \<Rightarrow> pr_confirmed p) then (e, w)
      else
        let p = (case it of None \<Rightarrow> default_probe | Some p \<Rightarrow> p);
            p = p\<lparr>pr_peer := peer, pr_candidate := candidate, pr_last := steady_clock_now E (calls w),
                  pr_attempts := 1\<rparr>
        in send_probe E peer candidate (e\<lparr>eng_probes := (eng_probes e)(key \<mapsto> p)\<rparr>) (next_call w))"

definition set_relay :: "Endpoint \<Rightarrow> Engine \<Rightarrow> Engine" where
  "set_relay relay e = e\<lparr>eng_relay := Some relay\<rparr>"

definition connect :: "env \<Rightarrow> bytes \<Rightarrow> Endpoint \<Rightarrow> Engine \<Rightarrow> world \<Rightarrow> Endpoint \<times> Engine \<times> world" where
  "connect E remote_public candidate e w =
     (let key = to_hex remote_public;
          active = (case eng_relay e of Some relay \<Rightarrow> relay | None \<Rightarrow> candidate);
          e = e\<lparr>eng_endpoints := (eng_endpoints e)(key \<mapsto> active)\<rparr>
      in case start_probing E remote_public candidate e w of (e, w) \<Rightarrow> (active, e, w))"

fun tick_loop :: "env \<Rightarrow> int \<Rightarrow> string list \<Rightarrow> Engine \<Rightarrow> world \<Rightarrow> Engine \<times> world" where
  "tick_loop E now [] e w = (e, w)"
| "tick_loop E now (key # order) e w =
     (case eng_probes e key of
        None \<Rightarrow> tick_loop E now order e w
      | Some p \<Rightarrow>
          if pr_confirmed p \<or> pr_attempts p \<ge> kMaxProbes then tick_loop E now order e w
          else if now - pr_last p \<ge> kProbeInterval
          then (case send_probe E (pr_peer p) (pr_candidate p) e w of (e, w) \<Rightarrow>
                  tick_loop E now order
                    (e\<lparr>eng_probes := (eng_probes e)(key \<mapsto>
                        p\<lparr>pr_attempts := pr_attempts p + 1, pr_last := now\<rparr>)\<rparr>) w)
          else tick_loop E now order e w)"

definition tick :: "env \<Rightarrow> string list \<Rightarrow> Engine \<Rightarrow> world \<Rightarrow> Engine \<times> world" where
  "tick E order e w = tick_loop E (steady_clock_now E (calls w)) order e (next_call w)"

definition has_direct_path :: "Engine \<Rightarrow> bytes \<Rightarrow> bool" where
  "has_direct_path e remote_public =
     (case eng_probes e (to_hex remote_public) of None \<Rightarrow> False | Some p \<Rightarrow> pr_confirmed p)"

definition handle_probe :: "env \<Rightarrow> bytes \<Rightarrow> Endpoint \<Rightarrow> Engine \<Rightarrow> world \<Rightarrow> Engine \<times> world" where
  "handle_probe E peer src e w =
     (let key = to_hex peer;
          p = (case eng_probes e key of None \<Rightarrow> default_probe | Some p \<Rightarrow> p);
          was_confirmed = pr_confirmed p;
          p = p\<lparr>pr_peer := peer, pr_confirmed := True\<rparr>;
          e = e\<lparr>eng_probes := (eng_probes e)(key \<mapsto> p),
                eng_endpoints := (eng_endpoints e)(key \<mapsto> src)\<rparr>
      in if \<not> was_confirmed then send_probe E peer src e w else (e, w))"

definition handle_connect :: "env \<Rightarrow> bytes \<Rightarrow> bytes \<Rightarrow> Engine \<Rightarrow> world \<Rightarrow> Engine \<times> world" where
  "handle_connect E peer pl e w =
     (case engine_parse_endpoint pl of
        None \<Rightarrow> (e, w)
      | Some ep \<Rightarrow>
          let key = to_hex peer;
              e = (case (eng_endpoints e key, eng_relay e) of
                     (None, Some relay) \<Rightarrow> e\<lparr>eng_endpoints := (eng_endpoints e)(key \<mapsto> relay)\<rparr>
                   | _ \<Rightarrow> e)
          in start_probing E peer ep e w)"

section \<open>Sessions, trust and storage\<close>

definition ensure_session :: "env \<Rightarrow> bytes \<Rightarrow> Engine \<Rightarrow> Session option \<times> Engine" where
  "ensure_session E remote_public e =
     (let key = to_hex remote_public in
      case eng_sessions e key of
        Some s \<Rightarrow> (Some s, e)
      | None \<Rightarrow>
          let s = new_session E (eng_public e) (eng_secret e) remote_public in
          if \<not> ses_valid s then (None, e)
          else (Some s, e\<lparr>eng_sessions := (eng_sessions e)(key \<mapsto> s)\<rparr>))"

definition put_session :: "bytes \<Rightarrow> Session \<Rightarrow> Engine \<Rightarrow> Engine" where
  "put_session peer s e = e\<lparr>eng_sessions := (eng_sessions e)(to_hex peer \<mapsto> s)\<rparr>"

text \<open>\<^verbatim>\<open>contacts_.upsert(c)\<close>.\<close>

definition engine_upsert :: "env \<Rightarrow> Contact \<Rightarrow> Engine \<Rightarrow> world \<Rightarrow> Engine \<times> world" where
  "engine_upsert E c e w =
     (case store_upsert E c (eng_contacts e) w of (st, w) \<Rightarrow> (e\<lparr>eng_contacts := st\<rparr>, w))"

definition set_trust :: "env \<Rightarrow> bytes \<Rightarrow> TrustStatus \<Rightarrow> Engine \<Rightarrow> world \<Rightarrow> Engine \<times> world" where
  "set_trust E peer trust e w =
     (let c = (case store_find (eng_contacts e) peer of Some c \<Rightarrow> c | None \<Rightarrow> default_contact)
      in engine_upsert E (c\<lparr>c_key := peer, c_trust := trust\<rparr>) e w)"

definition set_nickname :: "env \<Rightarrow> bytes \<Rightarrow> string \<Rightarrow> Engine \<Rightarrow> world \<Rightarrow> Engine \<times> world" where
  "set_nickname E remote_public name e w =
     (let c = (case store_find (eng_contacts e) remote_public of Some c \<Rightarrow> c | None \<Rightarrow> default_contact)
      in engine_upsert E (c\<lparr>c_key := remote_public, c_nickname := name\<rparr>) e w)"

definition open_store :: "env \<Rightarrow> string \<Rightarrow> string \<Rightarrow> Engine \<Rightarrow> world \<Rightarrow> bool \<times> Engine \<times> world" where
  "open_store E path passphrase e w =
     (case store_open E (eng_contacts e) path passphrase w of (ok, st, w) \<Rightarrow>
        let e = e\<lparr>eng_contacts := st\<rparr> in
        if \<not> ok then (False, e, w)
        else (True, e\<lparr>eng_incoming := eng_incoming e \<union> set (map (\<lambda>q. to_hex (q_peer q)) (st_requests st))\<rparr>, w))"

definition send_packet :: "env \<Rightarrow> string \<Rightarrow> Packet \<Rightarrow> Engine \<Rightarrow> world \<Rightarrow> bool \<times> Engine \<times> world" where
  "send_packet E key packet e w =
     (let dest = (case eng_endpoints e key of Some ep \<Rightarrow> Some ep | None \<Rightarrow> eng_relay e) in
      case dest of None \<Rightarrow> (False, e, w)
      | Some dest \<Rightarrow> engine_send_to E dest (serialize packet) e w)"

definition add_peer :: "env \<Rightarrow> bytes \<Rightarrow> Endpoint \<Rightarrow> Engine \<Rightarrow> world \<Rightarrow> bool \<times> Engine \<times> world" where
  "add_peer E remote_public endpoint e w =
     (case ensure_session E remote_public e of
        (None, e) \<Rightarrow> (False, e, w)
      | (Some _, e) \<Rightarrow>
          let key = to_hex remote_public;
              e = e\<lparr>eng_endpoints := (eng_endpoints e)(key \<mapsto> endpoint)\<rparr>
          in case set_trust E remote_public Accepted e w of (e, w) \<Rightarrow> (True, e, w))"

definition knows_peer :: "Engine \<Rightarrow> bytes \<Rightarrow> bool" where
  "knows_peer e remote_public \<longleftrightarrow> eng_sessions e (to_hex remote_public) \<noteq> None"

definition trust_of :: "Engine \<Rightarrow> bytes \<Rightarrow> TrustStatus option" where
  "trust_of e remote_public = store_trust_of (eng_contacts e) remote_public"

section \<open>The contact-request flow\<close>

text \<open>\<^verbatim>\<open>send_packet(key, session->encrypt_as(type, plaintext))\<close>: the packet is built first.\<close>

definition send_encrypted ::
  "env \<Rightarrow> bytes \<Rightarrow> Session \<Rightarrow> PacketType \<Rightarrow> bytes \<Rightarrow> Engine \<Rightarrow> world \<Rightarrow> bool \<times> Engine \<times> world" where
  "send_encrypted E peer s type plaintext e w =
     (case encrypt_as E s type plaintext w of (packet, s, w) \<Rightarrow>
        send_packet E (to_hex peer) packet (put_session peer s e) w)"

definition send_contact_request ::
  "env \<Rightarrow> bytes \<Rightarrow> Endpoint \<Rightarrow> bytes \<Rightarrow> Engine \<Rightarrow> world \<Rightarrow> bool \<times> Engine \<times> world" where
  "send_contact_request E remote_public endpoint greeting e w =
     (if store_trust_of (eng_contacts e) remote_public = Some Accepted then (False, e, w)
      else case ensure_session E remote_public e of
        (None, e) \<Rightarrow> (False, e, w)
      | (Some session, e) \<Rightarrow>
          let key = to_hex remote_public;
              e = e\<lparr>eng_endpoints := (eng_endpoints e)(key \<mapsto> endpoint),
                    eng_outgoing := insert key (eng_outgoing e)\<rparr>
          in case set_trust E remote_public Pending e w of (e, w) \<Rightarrow>
               send_encrypted E remote_public session ContactRequest greeting e w)"

text \<open>The common part of \<^verbatim>\<open>accept_contact\<close> and \<^verbatim>\<open>reject_contact\<close>, with the decision's two effects.\<close>

definition decide_contact ::
  "env \<Rightarrow> TrustStatus \<Rightarrow> byte \<Rightarrow> bytes \<Rightarrow> Engine \<Rightarrow> world \<Rightarrow> bool \<times> Engine \<times> world" where
  "decide_contact E trust decision remote_public e w =
     (let key = to_hex remote_public in
      if key \<notin> eng_incoming e then (False, e, w)
      else case ensure_session E remote_public e of
        (None, e) \<Rightarrow> (False, e, w)
      | (Some session, e) \<Rightarrow>
          let e = e\<lparr>eng_incoming := eng_incoming e - {key}\<rparr> in
          case store_remove_request E remote_public (eng_contacts e) w of (st, w) \<Rightarrow>
          case set_trust E remote_public trust (e\<lparr>eng_contacts := st\<rparr>) w of (e, w) \<Rightarrow>
            send_encrypted E remote_public session ContactResponse [decision] e w)"

definition accept_contact :: "env \<Rightarrow> bytes \<Rightarrow> Engine \<Rightarrow> world \<Rightarrow> bool \<times> Engine \<times> world" where
  "accept_contact E remote_public e w = decide_contact E Accepted kAccept remote_public e w"

definition reject_contact :: "env \<Rightarrow> bytes \<Rightarrow> Engine \<Rightarrow> world \<Rightarrow> bool \<times> Engine \<times> world" where
  "reject_contact E remote_public e w = decide_contact E Rejected kReject remote_public e w"

section \<open>Messages\<close>

text \<open>\<^verbatim>\<open>contacts_.append_message({peer, text, outgoing, now_seconds()})\<close>.\<close>

definition record_message :: "env \<Rightarrow> bytes \<Rightarrow> bytes \<Rightarrow> bool \<Rightarrow> Engine \<Rightarrow> world \<Rightarrow> Engine \<times> world" where
  "record_message E peer plaintext outgoing e w =
     (case now_seconds E w of (now, w) \<Rightarrow>
      case store_append_message E \<lparr>m_peer = peer, m_text = string_of_bytes plaintext,
             m_outgoing = outgoing, m_timestamp = now\<rparr> (eng_contacts e) w of (st, w) \<Rightarrow>
        (e\<lparr>eng_contacts := st\<rparr>, w))"

definition send :: "env \<Rightarrow> bytes \<Rightarrow> bytes \<Rightarrow> Engine \<Rightarrow> world \<Rightarrow> bool \<times> Engine \<times> world" where
  "send E remote_public plaintext e w =
     (if store_trust_of (eng_contacts e) remote_public \<noteq> Some Accepted then (False, e, w)
      else case ensure_session E remote_public e of
        (None, e) \<Rightarrow> (False, e, w)
      | (Some session, e) \<Rightarrow>
          (case send_encrypted E remote_public session PacketType.Message plaintext e w of
             (False, e, w) \<Rightarrow> (False, e, w)
           | (True, e, w) \<Rightarrow>
               (case record_message E remote_public plaintext True e w of (e, w) \<Rightarrow> (True, e, w))))"

definition handle_message :: "env \<Rightarrow> bytes \<Rightarrow> bytes \<Rightarrow> Engine \<Rightarrow> world \<Rightarrow> Engine \<times> world" where
  "handle_message E peer plaintext e w =
     (case record_message E peer plaintext False e w of (e, w) \<Rightarrow>
        (if eng_message_handler e
         then e\<lparr>eng_events := eng_events e @
                [MessageEvent \<lparr>msg_peer = peer, msg_plaintext = plaintext, msg_outgoing = False\<rparr>]\<rparr>
         else e, w))"

definition handle_contact_request :: "env \<Rightarrow> bytes \<Rightarrow> bytes \<Rightarrow> Engine \<Rightarrow> world \<Rightarrow> Engine \<times> world" where
  "handle_contact_request E peer greeting e w =
     (let key = to_hex peer; trust = store_trust_of (eng_contacts e) peer in
      if trust \<noteq> None \<or> key \<in> eng_incoming e then (e, w)
      else case set_trust E peer Pending (e\<lparr>eng_incoming := insert key (eng_incoming e)\<rparr>) w of (e, w) \<Rightarrow>
        let greeting_text = string_of_bytes greeting in
        case (if greeting_text \<noteq> [] then set_nickname E peer greeting_text e w else (e, w)) of (e, w) \<Rightarrow>
        case now_seconds E w of (now, w) \<Rightarrow>
        case store_add_request E \<lparr>q_peer = peer, q_greeting = greeting_text, q_timestamp = now\<rparr>
               (eng_contacts e) w of (st, w) \<Rightarrow>
          let e = e\<lparr>eng_contacts := st\<rparr> in
          (if eng_request_handler e
           then e\<lparr>eng_events := eng_events e @ [RequestEvent peer greeting]\<rparr> else e, w))"

definition handle_contact_response :: "env \<Rightarrow> bytes \<Rightarrow> bytes \<Rightarrow> Engine \<Rightarrow> world \<Rightarrow> Engine \<times> world" where
  "handle_contact_response E peer decision e w =
     (let key = to_hex peer in
      if key \<notin> eng_outgoing e then (e, w)
      else
        let e = e\<lparr>eng_outgoing := eng_outgoing e - {key}\<rparr>;
            accepted = (decision \<noteq> [] \<and> decision ! 0 = kAccept)
        in case set_trust E peer (if accepted then Accepted else Rejected) e w of (e, w) \<Rightarrow>
          (if eng_response_handler e
           then e\<lparr>eng_events := eng_events e @ [ResponseEvent peer accepted]\<rparr> else e, w))"

section \<open>Receiving\<close>

text \<open>The end of \<^verbatim>\<open>poll\<close>: a packet that decrypted, by type.\<close>

definition deliver ::
  "env \<Rightarrow> Packet \<Rightarrow> bytes \<Rightarrow> Endpoint \<Rightarrow> Engine \<Rightarrow> world \<Rightarrow> bool \<times> Engine \<times> world" where
  "deliver E packet plaintext src e w =
     (let peer = source packet; key = to_hex peer;
          e = (if (case eng_probes e key of None \<Rightarrow> True | Some p \<Rightarrow> \<not> pr_confirmed p)
               then e\<lparr>eng_endpoints := (eng_endpoints e)(key \<mapsto> src)\<rparr> else e)
      in case ptype packet of
           PacketType.Message \<Rightarrow> (True, handle_message E peer plaintext e w)
         | ContactRequest \<Rightarrow> (True, handle_contact_request E peer plaintext e w)
         | ContactResponse \<Rightarrow> (True, handle_contact_response E peer plaintext e w)
         | _ \<Rightarrow> (False, e, w))"

text \<open>\<^verbatim>\<open>poll\<close> after the socket: what one received datagram does.\<close>

definition dispatch :: "env \<Rightarrow> Datagram \<Rightarrow> Engine \<Rightarrow> world \<Rightarrow> bool \<times> Engine \<times> world" where
  "dispatch E dg e w =
     (case deserialize (dg_data dg) default_packet of
        (False, _) \<Rightarrow> (False, e, w)
      | (True, packet) \<Rightarrow>
          let peer = source packet in
          if ptype packet = Hello
          then (True, if destination packet = eng_public e \<and> peer \<noteq> [] then handle_probe E peer (dg_from dg) e w
                      else (e, w))
          else if ptype packet = Connect then (True, handle_connect E peer (payload packet) e w)
          else if ptype packet = PacketType.Message \<and> store_trust_of (eng_contacts e) peer \<noteq> Some Accepted
          then (False, e, w)
          else case ensure_session E peer e of
            (None, e) \<Rightarrow> (False, e, w)
          | (Some session, e) \<Rightarrow>
              (case decrypt E session packet of
                 (None, s) \<Rightarrow> (False, put_session peer s e, w)
               | (Some plaintext, s) \<Rightarrow> deliver E packet plaintext (dg_from dg) (put_session peer s e) w))"

definition poll :: "env \<Rightarrow> int \<Rightarrow> Engine \<Rightarrow> world \<Rightarrow> bool \<times> Engine \<times> world" where
  "poll E timeout_ms e w =
     (case receive E (eng_socket e) timeout_ms kReceiveBufferSize w of
        (None, w) \<Rightarrow> (False, e, w)
      | (Some dg, w) \<Rightarrow> dispatch E dg e w)"

definition on_message :: "Engine \<Rightarrow> Engine" where
  "on_message e = e\<lparr>eng_message_handler := True\<rparr>"

definition on_contact_request :: "Engine \<Rightarrow> Engine" where
  "on_contact_request e = e\<lparr>eng_request_handler := True\<rparr>"

definition on_contact_response :: "Engine \<Rightarrow> Engine" where
  "on_contact_response e = e\<lparr>eng_response_handler := True\<rparr>"

section \<open>What each operation changes\<close>

text \<open>
  Every operation as a record update: the engine fields it writes, what it does to the
  store through the database interface, and the datagrams it puts on the wire.
\<close>

lemma engine_send_to_eff:
  assumes "engine_send_to E to d e w = (ok, e', w')"
  shows "\<exists>s. e' = e\<lparr>eng_socket := s\<rparr> \<and> files w' = files w \<and>
    sent w' = sent w @ (if ok then [(to, d)] else [])"
  using assms send_to_frame by (auto simp: engine_send_to_def split: prod.splits)

definition hello_packet :: "bytes \<Rightarrow> bytes \<Rightarrow> Packet" where
  "hello_packet src dst = default_packet\<lparr>ptype := Hello, source := src, destination := dst\<rparr>"

lemma send_probe_eff:
  assumes "send_probe E peer to e w = (e', w')"
  shows "\<exists>s ds. e' = e\<lparr>eng_socket := s\<rparr> \<and> files w' = files w \<and> sent w' = sent w @ ds \<and>
    ds \<in> {[], [(to, serialize (hello_packet (eng_public e) peer))]}"
proof -
  obtain ok where "engine_send_to E to (serialize (hello_packet (eng_public e) peer)) e w = (ok, e', w')"
    using assms by (auto simp: send_probe_def hello_packet_def Let_def) (metis prod.collapse)
  from engine_send_to_eff [OF this] show ?thesis by (cases ok) auto
qed

lemma start_probing_eff:
  assumes "start_probing E peer cand e w = (e', w')"
  shows "\<exists>s ps ds. e' = e\<lparr>eng_socket := s, eng_probes := ps\<rparr> \<and> files w' = files w \<and> sent w' = sent w @ ds \<and>
    ds \<in> {[], [(cand, serialize (hello_packet (eng_public e) peer))]} \<and>
    (if has_direct_path e peer then ps = eng_probes e
     else \<exists>p. ps = (eng_probes e)(to_hex peer \<mapsto> p) \<and> pr_peer p = peer \<and> pr_candidate p = cand \<and>
       \<not> pr_confirmed p \<and> pr_attempts p = 1)"
proof (cases "has_direct_path e peer")
  case True
  then have "e' = e \<and> w' = w"
    using assms by (auto simp: start_probing_def has_direct_path_def Let_def split: option.splits)
  then show ?thesis using True by (auto intro!: exI [of _ "eng_socket e"])
next
  case False
  define p where "p = (case eng_probes e (to_hex peer) of None \<Rightarrow> default_probe | Some p \<Rightarrow> p)
    \<lparr>pr_peer := peer, pr_candidate := cand, pr_last := steady_clock_now E (calls w), pr_attempts := 1\<rparr>"
  let ?e = "e\<lparr>eng_probes := (eng_probes e)(to_hex peer \<mapsto> p)\<rparr>"
  have "send_probe E peer cand ?e (next_call w) = (e', w')"
    using assms False
    by (auto simp: start_probing_def has_direct_path_def Let_def p_def split: option.splits if_splits)
  from send_probe_eff [OF this] obtain s ds where
    "e' = ?e\<lparr>eng_socket := s\<rparr>" "files w' = files w" "sent w' = sent w @ ds"
    "ds \<in> {[], [(cand, serialize (hello_packet (eng_public e) peer))]}" by auto
  moreover have "\<not> pr_confirmed p" "pr_peer p = peer" "pr_candidate p = cand" "pr_attempts p = 1"
    using False by (auto simp: p_def has_direct_path_def default_probe_def split: option.splits)
  ultimately show ?thesis using False by (intro exI [of _ s] exI [of _ "eng_probes ?e"] exI [of _ ds]) auto
qed

lemma ensure_session_eff:
  assumes "ensure_session E peer e = (r, e')"
  shows "case r of
      None \<Rightarrow> e' = e \<and> eng_sessions e (to_hex peer) = None
    | Some s \<Rightarrow> e' = e\<lparr>eng_sessions := (eng_sessions e)(to_hex peer \<mapsto> s)\<rparr> \<and>
        (eng_sessions e (to_hex peer) = Some s \<or>
         eng_sessions e (to_hex peer) = None \<and> s = new_session E (eng_public e) (eng_secret e) peer \<and> ses_valid s)"
  using assms by (auto simp: ensure_session_def Let_def map_upd_triv split: option.splits if_splits)

lemma engine_upsert_eff:
  assumes "engine_upsert E c e w = (e', w')"
  shows "\<exists>st. e' = e\<lparr>eng_contacts := st\<rparr> \<and> sent w' = sent w \<and>
    (\<forall>k. store_find st k = (if k = c_key c then Some c else store_find (eng_contacts e) k)) \<and>
    st_messages st = st_messages (eng_contacts e) \<and> st_requests st = st_requests (eng_contacts e) \<and>
    (store_inv (eng_contacts e) \<longrightarrow> store_inv st)"
proof -
  let ?u = "store_upsert E c (eng_contacts e) w"
  have "e' = e\<lparr>eng_contacts := fst ?u\<rparr>" "w' = snd ?u"
    using assms by (auto simp: engine_upsert_def split: prod.splits)
  then show ?thesis by (intro exI [of _ "fst ?u"]) (auto simp: frame_simps db.lookup_put)
qed

text \<open>The effect of a read-modify-write of one contact's trust.\<close>

definition trust_change :: "bytes \<Rightarrow> TrustStatus \<Rightarrow> Store \<Rightarrow> Store \<Rightarrow> bool" where
  "trust_change peer t st st' \<longleftrightarrow>
     (\<forall>k. store_trust_of st' k = (if k = peer then Some t else store_trust_of st k)) \<and>
     st_messages st' = st_messages st \<and> st_requests st' = st_requests st \<and>
     (store_inv st \<longrightarrow> store_inv st')"

lemma set_trust_eff:
  assumes "set_trust E peer t e w = (e', w')"
  shows "\<exists>st. e' = e\<lparr>eng_contacts := st\<rparr> \<and> sent w' = sent w \<and> trust_change peer t (eng_contacts e) st"
  using assms
  by (auto simp: set_trust_def Let_def store_trust_of_find trust_change_def dest!: engine_upsert_eff)

lemma set_nickname_eff:
  assumes "set_nickname E peer name e w = (e', w')"
  shows "\<exists>st. e' = e\<lparr>eng_contacts := st\<rparr> \<and> sent w' = sent w \<and>
    trust_change peer (case trust_of e peer of Some t \<Rightarrow> t | None \<Rightarrow> Pending) (eng_contacts e) st"
  using assms
  by (auto simp: set_nickname_def Let_def store_trust_of_find trust_change_def trust_of_def default_contact_def
      dest!: engine_upsert_eff split: option.splits)

lemma record_message_eff:
  assumes "record_message E peer m out e w = (e', w')"
  shows "\<exists>st ts. e' = e\<lparr>eng_contacts := st\<rparr> \<and> sent w' = sent w \<and>
    st_contacts st = st_contacts (eng_contacts e) \<and> st_requests st = st_requests (eng_contacts e) \<and>
    st_messages st = st_messages (eng_contacts e) @
      [\<lparr>m_peer = peer, m_text = string_of_bytes m, m_outgoing = out, m_timestamp = ts\<rparr>]"
proof -
  let ?m = "\<lparr>m_peer = peer, m_text = string_of_bytes m, m_outgoing = out, m_timestamp = os_time E (calls w)\<rparr>"
  let ?u = "store_append_message E ?m (eng_contacts e) (next_call w)"
  have "e' = e\<lparr>eng_contacts := fst ?u\<rparr>" "w' = snd ?u"
    using assms by (auto simp: record_message_def now_seconds_def split: prod.splits)
  then show ?thesis
    by (intro exI [of _ "fst ?u"] exI [of _ "os_time E (calls w)"]) (auto simp: frame_simps)
qed

lemma send_packet_eff:
  assumes "send_packet E key p e w = (ok, e', w')"
  shows "\<exists>s ds. e' = e\<lparr>eng_socket := s\<rparr> \<and> files w' = files w \<and> sent w' = sent w @ ds \<and>
    (if ok then \<exists>dest. ds = [(dest, serialize p)] \<and>
        (eng_endpoints e key = Some dest \<or> eng_endpoints e key = None \<and> eng_relay e = Some dest) else ds = [])"
proof (cases "case eng_endpoints e key of Some ep \<Rightarrow> Some ep | None \<Rightarrow> eng_relay e")
  case None
  then show ?thesis using assms
    by (auto simp: send_packet_def split: option.splits intro!: exI [of _ "eng_socket e"])
next
  case (Some dest)
  then have "engine_send_to E dest (serialize p) e w = (ok, e', w')" using assms by (simp add: send_packet_def)
  from engine_send_to_eff [OF this] Some show ?thesis by (auto split: option.splits)
qed

text \<open>A datagram that carries an encrypted packet of ours for a peer.\<close>

definition sealed_for :: "env \<Rightarrow> Session \<Rightarrow> PacketType \<Rightarrow> bytes \<Rightarrow> Packet \<Rightarrow> bool" where
  "sealed_for E s ty m p \<longleftrightarrow> (\<exists>w s' w'. encrypt_as E s ty m w = (p, s', w'))"

lemma send_encrypted_eff:
  assumes "send_encrypted E peer s ty m e w = (ok, e', w')"
  shows "\<exists>sock ds. e' = e\<lparr>eng_socket := sock, eng_sessions := (eng_sessions e)(to_hex peer \<mapsto>
      s\<lparr>ses_send_counter := ses_send_counter s + 1\<rparr>)\<rparr> \<and> files w' = files w \<and> sent w' = sent w @ ds \<and>
    (if ok then \<exists>dest p. ds = [(dest, serialize p)] \<and> sealed_for E s ty m p \<and>
       (eng_endpoints e (to_hex peer) = Some dest \<or>
        eng_endpoints e (to_hex peer) = None \<and> eng_relay e = Some dest) else ds = [])"
proof -
  obtain p s1 w1 where enc: "encrypt_as E s ty m w = (p, s1, w1)" by (metis prod_cases3)
  note f = encrypt_as_fields [OF enc]
  have "send_packet E (to_hex peer) p (put_session peer s1 e) w1 = (ok, e', w')"
    using assms by (simp add: send_encrypted_def enc)
  from send_packet_eff [OF this] obtain sock ds where
    "e' = (put_session peer s1 e)\<lparr>eng_socket := sock\<rparr>" "files w' = files w" "sent w' = sent w @ ds"
    "if ok then \<exists>dest. ds = [(dest, serialize p)] \<and> (eng_endpoints e (to_hex peer) = Some dest \<or>
       eng_endpoints e (to_hex peer) = None \<and> eng_relay e = Some dest) else ds = []"
    using f(8,9) by (auto simp: put_session_def split: if_splits)
  moreover have "sealed_for E s ty m p" using enc by (auto simp: sealed_for_def)
  ultimately show ?thesis using f(1)
    by (intro exI [of _ sock] exI [of _ ds]) (auto simp: put_session_def split: if_splits)
qed

text \<open>The session \<^verbatim>\<open>ensure_session\<close> hands out: the stored one, or a valid new one.\<close>

definition session_for :: "env \<Rightarrow> Engine \<Rightarrow> bytes \<Rightarrow> Session \<Rightarrow> bool" where
  "session_for E e peer s \<longleftrightarrow> eng_sessions e (to_hex peer) = Some s \<or>
     eng_sessions e (to_hex peer) = None \<and> s = new_session E (eng_public e) (eng_secret e) peer \<and> ses_valid s"

lemma ensure_session_None: "ensure_session E peer e = (None, e') \<Longrightarrow> e' = e"
  using ensure_session_eff by fastforce

lemma ensure_session_Some:
  "ensure_session E peer e = (Some s, e') \<Longrightarrow>
     e' = e\<lparr>eng_sessions := (eng_sessions e)(to_hex peer \<mapsto> s)\<rparr> \<and> session_for E e peer s"
  using ensure_session_eff by (fastforce simp: session_for_def)

definition bump :: "Session \<Rightarrow> Session" where
  "bump s = s\<lparr>ses_send_counter := ses_send_counter s + 1\<rparr>"

text \<open>The datagrams of one attempt to send an encrypted packet.\<close>

definition sealed_dgs :: "env \<Rightarrow> Session \<Rightarrow> PacketType \<Rightarrow> bytes \<Rightarrow> bool \<Rightarrow> (Endpoint \<times> bytes) list \<Rightarrow> bool" where
  "sealed_dgs E s ty m ok ds \<longleftrightarrow>
     (if ok then \<exists>dest p. ds = [(dest, serialize p)] \<and> sealed_for E s ty m p else ds = [])"

lemma send_encrypted_sealed:
  assumes "send_encrypted E peer s ty m e w = (ok, e', w')"
  shows "\<exists>sock ds. e' = e\<lparr>eng_socket := sock, eng_sessions := (eng_sessions e)(to_hex peer \<mapsto> bump s)\<rparr> \<and>
    sent w' = sent w @ ds \<and> sealed_dgs E s ty m ok ds"
  using send_encrypted_eff [OF assms] by (auto simp: bump_def sealed_dgs_def split: if_splits)

lemma add_peer_eff:
  assumes "add_peer E peer ep e w = (ok, e', w')"
  shows "sent w' = sent w \<and> (if ok then \<exists>s st. session_for E e peer s \<and> trust_change peer Accepted (eng_contacts e) st \<and>
      e' = e\<lparr>eng_sessions := (eng_sessions e)(to_hex peer \<mapsto> s),
             eng_endpoints := (eng_endpoints e)(to_hex peer \<mapsto> ep), eng_contacts := st\<rparr>
    else e' = e)"
proof -
  obtain r e1 where r: "ensure_session E peer e = (r, e1)" by fastforce
  show ?thesis
  proof (cases r)
    case None
    with r assms ensure_session_None [of E peer e e1] show ?thesis by (auto simp: add_peer_def)
  next
    case (Some s)
    note e1 = ensure_session_Some [OF r [unfolded Some]]
    obtain e2 w2 where st: "set_trust E peer Accepted
        (e1\<lparr>eng_endpoints := (eng_endpoints e1)(to_hex peer \<mapsto> ep)\<rparr>) w = (e2, w2)" by fastforce
    with assms r Some have "ok" "e' = e2" "w' = w2" by (auto simp: add_peer_def)
    with set_trust_eff [OF st] e1 show ?thesis by auto
  qed
qed

lemma send_contact_request_eff:
  assumes "send_contact_request E peer ep g e w = (ok, e', w')"
  shows "e' = e \<and> w' = w \<and> \<not> ok \<or>
    (\<exists>s st sock ds. trust_of e peer \<noteq> Some Accepted \<and> session_for E e peer s \<and>
      trust_change peer Pending (eng_contacts e) st \<and>
      e' = e\<lparr>eng_sessions := (eng_sessions e)(to_hex peer \<mapsto> bump s),
             eng_endpoints := (eng_endpoints e)(to_hex peer \<mapsto> ep),
             eng_outgoing := insert (to_hex peer) (eng_outgoing e), eng_contacts := st, eng_socket := sock\<rparr> \<and>
      sent w' = sent w @ ds \<and> sealed_dgs E s ContactRequest g ok ds)"
proof (cases "trust_of e peer = Some Accepted")
  case False
  obtain r e1 where r: "ensure_session E peer e = (r, e1)" by fastforce
  show ?thesis
  proof (cases r)
    case None
    with r False assms ensure_session_None [of E peer e e1] show ?thesis
      by (simp add: send_contact_request_def trust_of_def)
  next
    case (Some s)
    note e1 = ensure_session_Some [OF r [unfolded Some]]
    let ?e2 = "e1\<lparr>eng_endpoints := (eng_endpoints e1)(to_hex peer \<mapsto> ep),
        eng_outgoing := insert (to_hex peer) (eng_outgoing e1)\<rparr>"
    obtain e3 w3 where st: "set_trust E peer Pending ?e2 w = (e3, w3)" by fastforce
    from set_trust_eff [OF st] obtain st' where e3: "e3 = ?e2\<lparr>eng_contacts := st'\<rparr>" "sent w3 = sent w"
        "trust_change peer Pending (eng_contacts e) st'" using e1 by auto
    have "send_encrypted E peer s ContactRequest g e3 w3 = (ok, e', w')"
      using assms False r Some st by (simp add: send_contact_request_def trust_of_def Let_def)
    from send_encrypted_sealed [OF this] obtain sock ds where
      "e' = e3\<lparr>eng_socket := sock, eng_sessions := (eng_sessions e3)(to_hex peer \<mapsto> bump s)\<rparr>"
      "sent w' = sent w3 @ ds" "sealed_dgs E s ContactRequest g ok ds" by blast
    with e3 e1 False show ?thesis
      by (intro disjI2 exI [of _ s] exI [of _ st'] exI [of _ sock] exI [of _ ds]) simp
  qed
qed (use assms in \<open>simp add: send_contact_request_def trust_of_def\<close>)

text \<open>The effect of a decision on an incoming request.\<close>

definition decision_change :: "bytes \<Rightarrow> TrustStatus \<Rightarrow> Store \<Rightarrow> Store \<Rightarrow> bool" where
  "decision_change peer t st st' \<longleftrightarrow>
     (\<forall>k. store_trust_of st' k = (if k = peer then Some t else store_trust_of st k)) \<and>
     st_messages st' = st_messages st \<and> st_requests st' = filter (\<lambda>q. q_peer q \<noteq> peer) (st_requests st) \<and>
     (store_inv st \<longrightarrow> store_inv st')"

lemma remove_request_trust [simp]:
  "store_trust_of (fst (store_remove_request E p st w)) k = store_trust_of st k"
  by (simp add: store_trust_of_def)

lemma remove_request_decision:
  "trust_change p t (fst (store_remove_request E p st w)) st' \<Longrightarrow> decision_change p t st st'"
  unfolding trust_change_def decision_change_def remove_request_trust store_remove_request_fields
  using store_inv_ops(4) by blast

definition decided :: "env \<Rightarrow> TrustStatus \<Rightarrow> byte \<Rightarrow> bytes \<Rightarrow> Engine \<Rightarrow> world \<Rightarrow> bool \<Rightarrow> Engine \<Rightarrow> world \<Rightarrow> bool" where
  "decided E t d peer e w ok e' w' \<longleftrightarrow>
    (\<exists>s st sock ds. to_hex peer \<in> eng_incoming e \<and> session_for E e peer s \<and>
      decision_change peer t (eng_contacts e) st \<and>
      e' = e\<lparr>eng_sessions := (eng_sessions e)(to_hex peer \<mapsto> bump s),
             eng_incoming := eng_incoming e - {to_hex peer}, eng_contacts := st, eng_socket := sock\<rparr> \<and>
      sent w' = sent w @ ds \<and> sealed_dgs E s ContactResponse [d] ok ds)"

lemma decide_contact_decided:
  assumes "decide_contact E t d peer e w = (ok, e', w')" "to_hex peer \<in> eng_incoming e"
    and r: "ensure_session E peer e = (Some s, e1)"
  shows "decided E t d peer e w ok e' w'"
proof -
  note e1 = ensure_session_Some [OF r]
  let ?e2 = "e1\<lparr>eng_incoming := eng_incoming e1 - {to_hex peer}\<rparr>"
  let ?u = "store_remove_request E peer (eng_contacts e) w"
  obtain e3 w3 where st: "set_trust E peer t (?e2\<lparr>eng_contacts := fst ?u\<rparr>) (snd ?u) = (e3, w3)" by fastforce
  from set_trust_eff [OF st] obtain st' where e3: "e3 = ?e2\<lparr>eng_contacts := st'\<rparr>" "sent w3 = sent w"
      "decision_change peer t (eng_contacts e) st'"
    by (auto simp: frame_simps dest: remove_request_decision)
  have "send_encrypted E peer s ContactResponse [d] e3 w3 = (ok, e', w')"
    using assms e1 st by (simp add: decide_contact_def Let_def split: prod.splits)
  from send_encrypted_sealed [OF this] obtain sock ds where
    "e' = e3\<lparr>eng_socket := sock, eng_sessions := (eng_sessions e3)(to_hex peer \<mapsto> bump s)\<rparr>"
    "sent w' = sent w3 @ ds" "sealed_dgs E s ContactResponse [d] ok ds" by blast
  with e3 e1 assms(2) show ?thesis unfolding decided_def
    by (intro exI [of _ s] exI [of _ st'] exI [of _ sock] exI [of _ ds]) simp
qed

lemma decide_contact_eff:
  assumes "decide_contact E t d peer e w = (ok, e', w')"
  shows "e' = e \<and> w' = w \<and> \<not> ok \<or> decided E t d peer e w ok e' w'"
proof (cases "to_hex peer \<in> eng_incoming e")
  case True
  obtain r e1 where r: "ensure_session E peer e = (r, e1)" by fastforce
  show ?thesis
  proof (cases r)
    case None
    with r True assms ensure_session_None [of E peer e e1] show ?thesis by (simp add: decide_contact_def)
  next
    case (Some s)
    with decide_contact_decided [OF assms True] r show ?thesis by blast
  qed
qed (use assms in \<open>simp add: decide_contact_def\<close>)

lemma send_eff:
  assumes "send E peer m e w = (ok, e', w')"
  shows "e' = e \<and> w' = w \<and> \<not> ok \<or>
    (\<exists>s st sock ds. trust_of e peer = Some Accepted \<and> session_for E e peer s \<and>
      e' = e\<lparr>eng_sessions := (eng_sessions e)(to_hex peer \<mapsto> bump s), eng_contacts := st, eng_socket := sock\<rparr> \<and>
      sent w' = sent w @ ds \<and> sealed_dgs E s PacketType.Message m ok ds \<and>
      st_contacts st = st_contacts (eng_contacts e) \<and> st_requests st = st_requests (eng_contacts e) \<and>
      (if ok then \<exists>ts. st_messages st = st_messages (eng_contacts e) @
         [\<lparr>m_peer = peer, m_text = string_of_bytes m, m_outgoing = True, m_timestamp = ts\<rparr>]
       else st = eng_contacts e))"
proof (cases "store_trust_of (eng_contacts e) peer = Some Accepted")
  case True
  obtain r e1 where r: "ensure_session E peer e = (r, e1)" by fastforce
  show ?thesis
  proof (cases r)
    case None
    with r True assms ensure_session_None [of E peer e e1] show ?thesis by (simp add: send_def)
  next
    case (Some s)
    note e1 = ensure_session_Some [OF r [unfolded Some]]
    obtain ok1 e2 w2 where se: "send_encrypted E peer s PacketType.Message m e1 w = (ok1, e2, w2)"
      by (metis prod_cases3)
    from send_encrypted_sealed [OF se] e1 obtain sock ds where e2:
      "e2 = e\<lparr>eng_socket := sock, eng_sessions := (eng_sessions e)(to_hex peer \<mapsto> bump s)\<rparr>"
      "sent w2 = sent w @ ds" "sealed_dgs E s PacketType.Message m ok1 ds" by auto
    show ?thesis
    proof (cases ok1)
      case False
      with assms True r Some se have "ok = False" "e' = e2" "w' = w2" by (simp_all add: send_def)
      with e2 e1 True False show ?thesis
        by (intro disjI2 exI [of _ s] exI [of _ "eng_contacts e"] exI [of _ sock] exI [of _ ds])
           (simp add: trust_of_def)
    next
      case ok: True
      obtain e3 w3 where rm: "record_message E peer m True e2 w2 = (e3, w3)" by fastforce
      with assms True r Some se ok have "ok = True" "e' = e3" "w' = w3" by (simp_all add: send_def)
      moreover from record_message_eff [OF rm] obtain st ts where "e3 = e2\<lparr>eng_contacts := st\<rparr>" "sent w3 = sent w2"
        "st_contacts st = st_contacts (eng_contacts e)" "st_requests st = st_requests (eng_contacts e)"
        "st_messages st = st_messages (eng_contacts e) @
          [\<lparr>m_peer = peer, m_text = string_of_bytes m, m_outgoing = True, m_timestamp = ts\<rparr>]"
        unfolding e2(1) by auto
      ultimately show ?thesis using e2 e1 True ok
        by (intro disjI2 exI [of _ s] exI [of _ st] exI [of _ sock] exI [of _ ds]) (simp add: trust_of_def)
    qed
  qed
qed (use assms in \<open>simp add: send_def\<close>)

lemma handle_message_eff:
  assumes "handle_message E peer m e w = (e', w')"
  shows "\<exists>st ts. e' = e\<lparr>eng_contacts := st, eng_events := eng_events e @ (if eng_message_handler e
       then [MessageEvent \<lparr>msg_peer = peer, msg_plaintext = m, msg_outgoing = False\<rparr>] else [])\<rparr> \<and>
    sent w' = sent w \<and> st_contacts st = st_contacts (eng_contacts e) \<and>
    st_requests st = st_requests (eng_contacts e) \<and> st_messages st = st_messages (eng_contacts e) @
      [\<lparr>m_peer = peer, m_text = string_of_bytes m, m_outgoing = False, m_timestamp = ts\<rparr>]"
proof -
  obtain e1 w1 where rm: "record_message E peer m False e w = (e1, w1)" by fastforce
  from record_message_eff [OF rm] obtain st ts where st: "e1 = e\<lparr>eng_contacts := st\<rparr>" "sent w1 = sent w"
    "st_contacts st = st_contacts (eng_contacts e)" "st_requests st = st_requests (eng_contacts e)"
    "st_messages st = st_messages (eng_contacts e) @
      [\<lparr>m_peer = peer, m_text = string_of_bytes m, m_outgoing = False, m_timestamp = ts\<rparr>]" by blast
  with assms rm show ?thesis
    by (intro exI [of _ st] exI [of _ ts]) (auto simp: handle_message_def)
qed

text \<open>The effect of a surfaced request on the store.\<close>

definition request_change :: "bytes \<Rightarrow> bytes \<Rightarrow> Store \<Rightarrow> Store \<Rightarrow> bool" where
  "request_change peer g st st' \<longleftrightarrow>
     (\<forall>k. store_trust_of st' k = (if k = peer then Some Pending else store_trust_of st k)) \<and>
     st_messages st' = st_messages st \<and>
     (\<exists>ts. st_requests st' = (if peer \<in> q_peer ` set (st_requests st) then st_requests st
        else st_requests st @ [\<lparr>q_peer = peer, q_greeting = string_of_bytes g, q_timestamp = ts\<rparr>])) \<and>
     (store_inv st \<longrightarrow> store_inv st')"

lemma add_request_change:
  assumes "trust_change peer Pending st st1"
  shows "request_change peer g st (fst (store_add_request E
    \<lparr>q_peer = peer, q_greeting = string_of_bytes g, q_timestamp = ts\<rparr> st1 w))"
proof -
  let ?q = "\<lparr>q_peer = peer, q_greeting = string_of_bytes g, q_timestamp = ts\<rparr>"
  let ?st = "fst (store_add_request E ?q st1 w)"
  have c: "\<forall>k. store_trust_of st1 k = (if k = peer then Some Pending else store_trust_of st k)"
    "st_messages st1 = st_messages st" "st_requests st1 = st_requests st" "store_inv st \<longrightarrow> store_inv st1"
    using assms unfolding trust_change_def by blast+
  have "\<forall>k. store_trust_of ?st k = (if k = peer then Some Pending else store_trust_of st k)"
    using c(1) by (simp add: store_trust_of_def)
  moreover have "st_messages ?st = st_messages st" using c(2) by simp
  moreover have "\<exists>ts'. st_requests ?st = (if peer \<in> q_peer ` set (st_requests st) then st_requests st
       else st_requests st @ [\<lparr>q_peer = peer, q_greeting = string_of_bytes g, q_timestamp = ts'\<rparr>])"
    using c(3) by (intro exI [of _ ts]) simp
  moreover have "store_inv st \<longrightarrow> store_inv ?st" using c(4) store_inv_ops(3) by blast
  ultimately show ?thesis unfolding request_change_def by blast
qed

lemma trust_change_twice:
  "trust_change p t st st1 \<Longrightarrow> trust_change p t' st1 st2 \<Longrightarrow> trust_change p t' st st2"
  by (auto simp: trust_change_def)

lemma handle_contact_request_eff:
  assumes "handle_contact_request E peer g e w = (e', w')"
  shows "if trust_of e peer \<noteq> None \<or> to_hex peer \<in> eng_incoming e then e' = e \<and> w' = w
    else \<exists>st. e' = e\<lparr>eng_incoming := insert (to_hex peer) (eng_incoming e), eng_contacts := st,
          eng_events := eng_events e @ (if eng_request_handler e then [RequestEvent peer g] else [])\<rparr> \<and>
        sent w' = sent w \<and> request_change peer g (eng_contacts e) st"
proof (cases "trust_of e peer \<noteq> None \<or> to_hex peer \<in> eng_incoming e")
  case True
  with assms show ?thesis by (auto simp: handle_contact_request_def trust_of_def)
next
  case False
  let ?e = "e\<lparr>eng_incoming := insert (to_hex peer) (eng_incoming e)\<rparr>"
  let ?g = "string_of_bytes g"
  obtain e1 w1 where 1: "set_trust E peer Pending ?e w = (e1, w1)" by fastforce
  from set_trust_eff [OF 1] obtain st1 where st1: "e1 = ?e\<lparr>eng_contacts := st1\<rparr>" "sent w1 = sent w"
    "trust_change peer Pending (eng_contacts e) st1" by auto
  obtain e2 w2 where 2: "(if ?g \<noteq> [] then set_nickname E peer ?g e1 w1 else (e1, w1)) = (e2, w2)" by fastforce
  have "\<exists>st2. e2 = ?e\<lparr>eng_contacts := st2\<rparr> \<and> sent w2 = sent w \<and> trust_change peer Pending (eng_contacts e) st2"
  proof (cases "?g = []")
    case True
    with 2 st1 show ?thesis by auto
  next
    case False
    then have "set_nickname E peer ?g e1 w1 = (e2, w2)" using 2 by simp
    from set_nickname_eff [OF this] st1 obtain st2 where "e2 = ?e\<lparr>eng_contacts := st2\<rparr>" "sent w2 = sent w"
      "trust_change peer Pending st1 st2"
      by (auto simp: trust_of_def) (auto simp: trust_change_def)
    with st1(3) show ?thesis using trust_change_twice by blast
  qed
  then obtain st2 where st2: "e2 = ?e\<lparr>eng_contacts := st2\<rparr>" "sent w2 = sent w"
    "trust_change peer Pending (eng_contacts e) st2" by blast
  let ?u = "store_add_request E \<lparr>q_peer = peer, q_greeting = ?g, q_timestamp = os_time E (calls w2)\<rparr> st2 (next_call w2)"
  have "e' = ?e\<lparr>eng_contacts := fst ?u,
      eng_events := eng_events e @ (if eng_request_handler e then [RequestEvent peer g] else [])\<rparr>" "w' = snd ?u"
    using assms False 1 2 st2(1)
    by (auto simp: handle_contact_request_def trust_of_def now_seconds_def Let_def split: prod.splits if_splits)
  with False st2 add_request_change [OF st2(3), of g E "os_time E (calls w2)" "next_call w2"] show ?thesis
    by (auto simp: frame_simps)
qed

lemma handle_contact_response_eff:
  assumes "handle_contact_response E peer d e w = (e', w')"
  shows "if to_hex peer \<notin> eng_outgoing e then e' = e \<and> w' = w
    else \<exists>st. e' = e\<lparr>eng_outgoing := eng_outgoing e - {to_hex peer}, eng_contacts := st,
        eng_events := eng_events e @ (if eng_response_handler e
          then [ResponseEvent peer (d \<noteq> [] \<and> d ! 0 = kAccept)] else [])\<rparr> \<and>
      sent w' = sent w \<and>
      trust_change peer (if d \<noteq> [] \<and> d ! 0 = kAccept then Accepted else Rejected) (eng_contacts e) st"
proof (cases "to_hex peer \<in> eng_outgoing e")
  case True
  let ?a = "d \<noteq> [] \<and> d ! 0 = kAccept" and ?e = "e\<lparr>eng_outgoing := eng_outgoing e - {to_hex peer}\<rparr>"
  obtain e1 w1 where 1: "set_trust E peer (if ?a then Accepted else Rejected) ?e w = (e1, w1)" by fastforce
  from set_trust_eff [OF 1] obtain st where st: "e1 = ?e\<lparr>eng_contacts := st\<rparr>" "sent w1 = sent w"
    "trust_change peer (if ?a then Accepted else Rejected) (eng_contacts e) st" by auto
  have "e' = (if eng_response_handler e1 then e1\<lparr>eng_events := eng_events e1 @ [ResponseEvent peer ?a]\<rparr> else e1)"
      "w' = w1"
    using assms True 1 by (simp_all add: handle_contact_response_def Let_def)
  with st True show ?thesis by auto
qed (use assms in \<open>simp add: handle_contact_response_def\<close>)

text \<open>Connectivity control touches addresses, probes and the socket only.\<close>

lemma handle_probe_eff:
  assumes "handle_probe E peer src e w = (e', w')"
  shows "\<exists>s p ds. e' = e\<lparr>eng_probes := (eng_probes e)(to_hex peer \<mapsto> p),
      eng_endpoints := (eng_endpoints e)(to_hex peer \<mapsto> src), eng_socket := s\<rparr> \<and>
    pr_confirmed p \<and> pr_peer p = peer \<and> sent w' = sent w @ ds \<and>
    ds \<in> {[], [(src, serialize (hello_packet (eng_public e) peer))]} \<and> (has_direct_path e peer \<longrightarrow> ds = [])"
proof -
  define p0 where "p0 = (case eng_probes e (to_hex peer) of None \<Rightarrow> default_probe | Some p \<Rightarrow> p)"
  let ?p = "p0\<lparr>pr_peer := peer, pr_confirmed := True\<rparr>"
  let ?e = "e\<lparr>eng_probes := (eng_probes e)(to_hex peer \<mapsto> ?p), eng_endpoints := (eng_endpoints e)(to_hex peer \<mapsto> src)\<rparr>"
  have c: "pr_confirmed p0 = has_direct_path e peer"
    by (auto simp: p0_def has_direct_path_def default_probe_def split: option.splits)
  have r: "(if \<not> pr_confirmed p0 then send_probe E peer src ?e w else (?e, w)) = (e', w')"
    using assms unfolding handle_probe_def Let_def p0_def by simp
  show ?thesis
  proof (cases "pr_confirmed p0")
    case True
    with r show ?thesis by (auto intro!: exI [of _ "eng_socket e"] exI [of _ ?p])
  next
    case False
    with r have "send_probe E peer src ?e w = (e', w')" by simp
    from send_probe_eff [OF this] obtain s ds where "e' = ?e\<lparr>eng_socket := s\<rparr>" "sent w' = sent w @ ds"
      "ds \<in> {[], [(src, serialize (hello_packet (eng_public e) peer))]}" by auto
    with c False show ?thesis by (intro exI [of _ s] exI [of _ ?p] exI [of _ ds]) simp
  qed
qed

lemma handle_connect_eff:
  assumes "handle_connect E peer pl e w = (e', w')"
  shows "\<exists>s ps eps ds. e' = e\<lparr>eng_endpoints := eps, eng_probes := ps, eng_socket := s\<rparr> \<and> sent w' = sent w @ ds \<and>
    (ds = [] \<or> (\<exists>to. ds = [(to, serialize (hello_packet (eng_public e) peer))])) \<and>
    (\<forall>k. k \<noteq> to_hex peer \<longrightarrow> ps k = eng_probes e k) \<and> (has_direct_path e peer \<longrightarrow> ps = eng_probes e) \<and>
    (eps = eng_endpoints e \<or> eng_endpoints e (to_hex peer) = None \<and> eng_relay e \<noteq> None \<and>
      eps = (eng_endpoints e)(to_hex peer := eng_relay e))"
proof (cases "engine_parse_endpoint pl")
  case None
  with assms show ?thesis
    by (intro exI [of _ "eng_socket e"] exI [of _ "eng_probes e"] exI [of _ "eng_endpoints e"] exI [of _ "[]"])
       (simp add: handle_connect_def)
next
  case (Some ep)
  define eps where "eps = (case (eng_endpoints e (to_hex peer), eng_relay e) of
      (None, Some relay) \<Rightarrow> (eng_endpoints e)(to_hex peer \<mapsto> relay) | _ \<Rightarrow> eng_endpoints e)"
  have "start_probing E peer ep (e\<lparr>eng_endpoints := eps\<rparr>) w = (e', w')"
    using assms Some by (auto simp: handle_connect_def Let_def eps_def split: option.splits)
  from start_probing_eff [OF this] obtain s ps ds where
    "e' = e\<lparr>eng_endpoints := eps, eng_socket := s, eng_probes := ps\<rparr>" "sent w' = sent w @ ds"
    "ds \<in> {[], [(ep, serialize (hello_packet (eng_public (e\<lparr>eng_endpoints := eps\<rparr>)) peer))]}"
    "if has_direct_path (e\<lparr>eng_endpoints := eps\<rparr>) peer then ps = eng_probes (e\<lparr>eng_endpoints := eps\<rparr>)
     else \<exists>p. ps = (eng_probes (e\<lparr>eng_endpoints := eps\<rparr>))(to_hex peer \<mapsto> p) \<and> pr_peer p = peer \<and>
       pr_candidate p = ep \<and> \<not> pr_confirmed p \<and> pr_attempts p = 1" by blast
  moreover have "has_direct_path (e\<lparr>eng_endpoints := eps\<rparr>) peer = has_direct_path e peer"
    by (simp add: has_direct_path_def)
  moreover have "eps = eng_endpoints e \<or> eng_endpoints e (to_hex peer) = None \<and> eng_relay e \<noteq> None \<and>
      eps = (eng_endpoints e)(to_hex peer := eng_relay e)" by (auto simp: eps_def split: option.splits)
  ultimately show ?thesis
    by (intro exI [of _ s] exI [of _ ps] exI [of _ eps] exI [of _ ds]) (auto split: if_splits)
qed

end
