(* ===== verification/Flow.thy ===== *)
theory Flow
  imports Engine
begin

text \<open>
  The contact-request flow of the engine as an abstract state machine, and the proof that
  the engine implements it.

  \<open>Flow\<close> keeps what the flow is about: the trust in each peer, the two sets of open
  requests, the calls made to the application, and the last counter accepted from each
  peer.  \<open>flow_step\<close> says how it may change.  \<open>Action\<close> lists everything the application, the
  user and the network can do to an engine, \<open>run\<close> executes one action on the model of the
  code, and \<open>run_refines\<close> shows that every action is a step of the abstract machine under
  the abstraction \<open>flow_of\<close>.  Safety of the whole engine is then proved by rule induction on
  the small machine.
\<close>

section \<open>The abstract machine\<close>

record Flow =
  fl_trust :: "bytes \<Rightarrow> TrustStatus option"
  fl_incoming :: "string set"
  fl_outgoing :: "string set"
  fl_events :: "Event list"
  fl_seen :: "bytes \<Rightarrow> u64 option"

datatype Label =
    Trusted bytes
  | Requested bytes
  | Decided bytes TrustStatus
  | Named bytes
  | Loaded
  | Received bytes u64
  | Internal

inductive flow_step :: "Label \<Rightarrow> Flow \<Rightarrow> Flow \<Rightarrow> bool" where
  internal: "flow_step Internal f f"
| trusted: "flow_step (Trusted p) f (f\<lparr>fl_trust := (fl_trust f)(p \<mapsto> Accepted)\<rparr>)"
| requested: "fl_trust f p \<noteq> Some Accepted \<Longrightarrow>
    flow_step (Requested p) f (f\<lparr>fl_trust := (fl_trust f)(p \<mapsto> Pending),
      fl_outgoing := insert (to_hex p) (fl_outgoing f)\<rparr>)"
| decided: "to_hex p \<in> fl_incoming f \<Longrightarrow> t \<in> {Accepted, Rejected} \<Longrightarrow>
    flow_step (Decided p t) f (f\<lparr>fl_trust := (fl_trust f)(p \<mapsto> t),
      fl_incoming := fl_incoming f - {to_hex p}\<rparr>)"
| named: "t = (case fl_trust f p of Some t \<Rightarrow> t | None \<Rightarrow> Pending) \<Longrightarrow>
    flow_step (Named p) f (f\<lparr>fl_trust := (fl_trust f)(p \<mapsto> t)\<rparr>)"
| loaded: "fl_incoming f \<subseteq> inc \<Longrightarrow>
    flow_step Loaded f (f\<lparr>fl_trust := tr, fl_incoming := inc\<rparr>)"
| message: "fl_trust f p = Some Accepted \<Longrightarrow> fresh_counter (fl_seen f p) c \<Longrightarrow>
    evs \<in> {[], [MessageEvent \<lparr>msg_peer = p, msg_plaintext = m, msg_outgoing = False\<rparr>]} \<Longrightarrow>
    flow_step (Received p c) f (f\<lparr>fl_seen := (fl_seen f)(p \<mapsto> c), fl_events := fl_events f @ evs\<rparr>)"
| request: "fl_trust f p = None \<Longrightarrow> to_hex p \<notin> fl_incoming f \<Longrightarrow> fresh_counter (fl_seen f p) c \<Longrightarrow>
    evs \<in> {[], [RequestEvent p g]} \<Longrightarrow>
    flow_step (Received p c) f (f\<lparr>fl_seen := (fl_seen f)(p \<mapsto> c), fl_trust := (fl_trust f)(p \<mapsto> Pending),
      fl_incoming := insert (to_hex p) (fl_incoming f), fl_events := fl_events f @ evs\<rparr>)"
| response: "to_hex p \<in> fl_outgoing f \<Longrightarrow> fresh_counter (fl_seen f p) c \<Longrightarrow>
    evs \<in> {[], [ResponseEvent p a]} \<Longrightarrow>
    flow_step (Received p c) f (f\<lparr>fl_seen := (fl_seen f)(p \<mapsto> c),
      fl_trust := (fl_trust f)(p \<mapsto> (if a then Accepted else Rejected)),
      fl_outgoing := fl_outgoing f - {to_hex p}, fl_events := fl_events f @ evs\<rparr>)"
| ignored: "fresh_counter (fl_seen f p) c \<Longrightarrow>
    flow_step (Received p c) f (f\<lparr>fl_seen := (fl_seen f)(p \<mapsto> c)\<rparr>)"

inductive_cases flow_step_elim: "flow_step l f f'"

text \<open>Runs of the abstract machine, with their labels.\<close>

inductive flow_run :: "Flow \<Rightarrow> Label list \<Rightarrow> Flow \<Rightarrow> bool" where
  start: "flow_run f [] f"
| more: "flow_run f ls f' \<Longrightarrow> flow_step l f' f'' \<Longrightarrow> flow_run f (ls @ [l]) f''"

section \<open>The engine's actions\<close>

datatype Action =
    DoBind Endpoint
  | DoAnnounce Endpoint
  | DoOpenStore string string
  | DoAddPeer bytes Endpoint
  | DoSetNickname bytes string
  | DoSendRequest bytes Endpoint bytes
  | DoAccept bytes
  | DoReject bytes
  | DoSend bytes bytes
  | DoSetRelay Endpoint
  | DoConnect bytes Endpoint
  | DoTick "string list"
  | DoPoll int
  | DoOnMessage
  | DoOnContactRequest
  | DoOnContactResponse

fun run :: "env \<Rightarrow> Action \<Rightarrow> Engine \<Rightarrow> world \<Rightarrow> Engine \<times> world" where
  "run E (DoBind ep) e w = snd (engine_bind E ep e w)"
| "run E (DoAnnounce ep) e w = snd (announce_to E ep e w)"
| "run E (DoOpenStore path pass) e w = snd (open_store E path pass e w)"
| "run E (DoAddPeer p ep) e w = snd (add_peer E p ep e w)"
| "run E (DoSetNickname p n) e w = set_nickname E p n e w"
| "run E (DoSendRequest p ep g) e w = snd (send_contact_request E p ep g e w)"
| "run E (DoAccept p) e w = snd (accept_contact E p e w)"
| "run E (DoReject p) e w = snd (reject_contact E p e w)"
| "run E (DoSend p m) e w = snd (send E p m e w)"
| "run E (DoSetRelay ep) e w = (set_relay ep e, w)"
| "run E (DoConnect p ep) e w = snd (connect E p ep e w)"
| "run E (DoTick order) e w = tick E order e w"
| "run E (DoPoll t) e w = snd (poll E t e w)"
| "run E DoOnMessage e w = (on_message e, w)"
| "run E DoOnContactRequest e w = (on_contact_request e, w)"
| "run E DoOnContactResponse e w = (on_contact_response e, w)"

text \<open>The labels an action may take.\<close>

fun allows :: "Action \<Rightarrow> Label \<Rightarrow> bool" where
  "allows _ Internal = True"
| "allows (DoOpenStore _ _) Loaded = True"
| "allows (DoAddPeer p _) (Trusted q) = (p = q)"
| "allows (DoSetNickname p _) (Named q) = (p = q)"
| "allows (DoSendRequest p _ _) (Requested q) = (p = q)"
| "allows (DoAccept p) (Decided q t) = (p = q \<and> t = Accepted)"
| "allows (DoReject p) (Decided q t) = (p = q \<and> t = Rejected)"
| "allows (DoPoll _) (Received _ _) = True"
| "allows _ _ = False"

text \<open>The abstraction.\<close>

definition seen_of :: "Engine \<Rightarrow> bytes \<Rightarrow> u64 option" where
  "seen_of e p = Option.bind (eng_sessions e (to_hex p)) last_seen"

definition flow_of :: "Engine \<Rightarrow> Flow" where
  "flow_of e = \<lparr>fl_trust = trust_of e, fl_incoming = eng_incoming e, fl_outgoing = eng_outgoing e,
     fl_events = eng_events e, fl_seen = seen_of e\<rparr>"

section \<open>Refinement\<close>

lemma flow_sel [simp]:
  "fl_trust (flow_of e) = trust_of e" "fl_incoming (flow_of e) = eng_incoming e"
  "fl_outgoing (flow_of e) = eng_outgoing e" "fl_events (flow_of e) = eng_events e"
  "fl_seen (flow_of e) = seen_of e"
  by (simp_all add: flow_of_def)

lemma flow_eqI:
  assumes "trust_of e' = fl_trust f" "eng_incoming e' = fl_incoming f" "eng_outgoing e' = fl_outgoing f"
    "eng_events e' = fl_events f" "seen_of e' = fl_seen f"
  shows "flow_of e' = f"
  using assms by (auto simp: flow_of_def)

lemma last_seen_bump [simp]: "last_seen (bump s) = last_seen s"
  by (simp add: bump_def last_seen_def)

lemma seen_of_session:
  "eng_sessions e' = (eng_sessions e)(to_hex p \<mapsto> s) \<Longrightarrow> seen_of e' = (seen_of e)(p := last_seen s)"
  by (auto simp: seen_of_def fun_eq_iff)

lemma session_for_seen: "session_for E e p s \<Longrightarrow> last_seen s = seen_of e p"
  by (auto simp: session_for_def seen_of_def)

lemma trust_of_eqI: "st_contacts (eng_contacts e') = st_contacts (eng_contacts e) \<Longrightarrow> trust_of e' = trust_of e"
  unfolding trust_of_def [abs_def] store_trust_of_def by simp

lemma trust_of_cong: "eng_contacts e' = eng_contacts e \<Longrightarrow> trust_of e' = trust_of e"
  by (rule trust_of_eqI) simp

lemma seen_of_cong: "eng_sessions e' = eng_sessions e \<Longrightarrow> seen_of e' = seen_of e"
  unfolding seen_of_def [abs_def] by simp

text \<open>An operation on addresses, probes, the socket, the relay and the callbacks is invisible.\<close>

lemma flow_of_frame:
  assumes "eng_contacts e' = eng_contacts e" "eng_sessions e' = eng_sessions e"
    "eng_incoming e' = eng_incoming e" "eng_outgoing e' = eng_outgoing e" "eng_events e' = eng_events e"
  shows "flow_of e' = flow_of e"
  using assms trust_of_cong [OF assms(1)] seen_of_cong [OF assms(2)] by (simp add: flow_of_def)

lemma trust_change_fun:
  "trust_change p t (eng_contacts e) (eng_contacts e') \<Longrightarrow> trust_of e' = (trust_of e)(p \<mapsto> t)"
  by (auto simp: trust_change_def trust_of_def fun_eq_iff)

lemma tick_loop_eff:
  "\<exists>s ps ds. fst (tick_loop E now order e w) = e\<lparr>eng_socket := s, eng_probes := ps\<rparr> \<and>
     sent (snd (tick_loop E now order e w)) = sent w @ ds \<and>
     (\<forall>d\<in>set ds. \<exists>p. snd d = serialize (hello_packet (eng_public e) p))"
proof (induction order arbitrary: e w)
  case Nil
  show ?case by (intro exI [of _ "eng_socket e"] exI [of _ "eng_probes e"] exI [of _ "[]"]) simp
next
  case (Cons key order)
  show ?case
  proof (cases "\<exists>p. eng_probes e key = Some p \<and> \<not> pr_confirmed p \<and> pr_attempts p < kMaxProbes \<and>
      now - pr_last p \<ge> kProbeInterval")
    case False
    then have "tick_loop E now (key # order) e w = tick_loop E now order e w"
      by (auto split: option.splits)
    with Cons.IH [of e w] show ?thesis by presburger
  next
    case True
    then obtain p where p: "eng_probes e key = Some p" "\<not> pr_confirmed p" "pr_attempts p < kMaxProbes"
      "now - pr_last p \<ge> kProbeInterval" by blast
    obtain e1 w1 where sp: "send_probe E (pr_peer p) (pr_candidate p) e w = (e1, w1)" by fastforce
    from send_probe_eff [OF sp] obtain s ds where e1: "e1 = e\<lparr>eng_socket := s\<rparr>" "sent w1 = sent w @ ds"
      "ds \<in> {[], [(pr_candidate p, serialize (hello_packet (eng_public e) (pr_peer p)))]}" by blast
    let ?e = "e1\<lparr>eng_probes := (eng_probes e1)(key \<mapsto> p\<lparr>pr_attempts := pr_attempts p + 1, pr_last := now\<rparr>)\<rparr>"
    have "tick_loop E now (key # order) e w = tick_loop E now order ?e w1"
      using p sp by simp
    moreover obtain s2 ps ds2 where "fst (tick_loop E now order ?e w1) = ?e\<lparr>eng_socket := s2, eng_probes := ps\<rparr>"
      "sent (snd (tick_loop E now order ?e w1)) = sent w1 @ ds2"
      "\<forall>d\<in>set ds2. \<exists>p. snd d = serialize (hello_packet (eng_public ?e) p)" using Cons.IH by blast
    ultimately show ?thesis using e1
      by (intro exI [of _ s2] exI [of _ ps] exI [of _ "ds @ ds2"]) auto
  qed
qed

text \<open>The address update in front of the delivery is invisible.\<close>

lemma deliver_split:
  "\<exists>e1. flow_of e1 = flow_of e \<and> eng_message_handler e1 = eng_message_handler e \<and>
     eng_public e1 = eng_public e \<and> eng_contacts e1 = eng_contacts e \<and> eng_sessions e1 = eng_sessions e \<and>
     deliver E p m src e w = (case ptype p of
        PacketType.Message \<Rightarrow> (True, handle_message E (source p) m e1 w)
      | ContactRequest \<Rightarrow> (True, handle_contact_request E (source p) m e1 w)
      | ContactResponse \<Rightarrow> (True, handle_contact_response E (source p) m e1 w)
      | _ \<Rightarrow> (False, e1, w))"
proof -
  define e1 where "e1 = (if (case eng_probes e (to_hex (source p)) of None \<Rightarrow> True | Some p \<Rightarrow> \<not> pr_confirmed p)
     then e\<lparr>eng_endpoints := (eng_endpoints e)(to_hex (source p) \<mapsto> src)\<rparr> else e)"
  have "flow_of e1 = flow_of e" by (rule flow_of_frame) (auto simp: e1_def)
  moreover have "eng_message_handler e1 = eng_message_handler e" "eng_public e1 = eng_public e"
    "eng_contacts e1 = eng_contacts e" "eng_sessions e1 = eng_sessions e" by (auto simp: e1_def)
  moreover have "deliver E p m src e w = (case ptype p of
        PacketType.Message \<Rightarrow> (True, handle_message E (source p) m e1 w)
      | ContactRequest \<Rightarrow> (True, handle_contact_request E (source p) m e1 w)
      | ContactResponse \<Rightarrow> (True, handle_contact_response E (source p) m e1 w)
      | _ \<Rightarrow> (False, e1, w))"
    unfolding deliver_def Let_def e1_def by (rule refl)
  ultimately show ?thesis by blast
qed

lemma handle_message_flow:
  assumes "handle_message E p m e w = (e', w')"
  shows "\<exists>evs \<in> {[], [MessageEvent \<lparr>msg_peer = p, msg_plaintext = m, msg_outgoing = False\<rparr>]}.
    flow_of e' = (flow_of e)\<lparr>fl_events := eng_events e @ evs\<rparr>"
proof -
  from handle_message_eff [OF assms] obtain st where e': "e' = e\<lparr>eng_contacts := st,
      eng_events := eng_events e @ (if eng_message_handler e
       then [MessageEvent \<lparr>msg_peer = p, msg_plaintext = m, msg_outgoing = False\<rparr>] else [])\<rparr>"
    "st_contacts st = st_contacts (eng_contacts e)" by blast
  have "trust_of e' = trust_of e" by (rule trust_of_eqI) (simp add: e')
  moreover have "seen_of e' = seen_of e" by (rule seen_of_cong) (simp add: e')
  ultimately show ?thesis by (simp add: flow_of_def e'(1))
qed

lemma handle_contact_request_flow:
  assumes "handle_contact_request E p g e w = (e', w')"
  shows "if trust_of e p \<noteq> None \<or> to_hex p \<in> eng_incoming e then flow_of e' = flow_of e
    else \<exists>evs \<in> {[], [RequestEvent p g]}. flow_of e' = (flow_of e)\<lparr>fl_trust := (trust_of e)(p \<mapsto> Pending),
        fl_incoming := insert (to_hex p) (eng_incoming e), fl_events := eng_events e @ evs\<rparr>"
proof (cases "trust_of e p \<noteq> None \<or> to_hex p \<in> eng_incoming e")
  case True
  with handle_contact_request_eff [OF assms] show ?thesis by simp
next
  case False
  with handle_contact_request_eff [OF assms] obtain st where e':
    "e' = e\<lparr>eng_incoming := insert (to_hex p) (eng_incoming e), eng_contacts := st,
          eng_events := eng_events e @ (if eng_request_handler e then [RequestEvent p g] else [])\<rparr>"
    "request_change p g (eng_contacts e) st" by meson
  have "trust_of e' = (trust_of e)(p \<mapsto> Pending)"
    using e'(2) by (simp add: e'(1) request_change_def trust_of_def fun_eq_iff)
  moreover have "seen_of e' = seen_of e" by (rule seen_of_cong) (simp add: e')
  ultimately show ?thesis using False by (simp add: flow_of_def e'(1))
qed

lemma handle_contact_response_flow:
  assumes "handle_contact_response E p d e w = (e', w')"
  shows "if to_hex p \<notin> eng_outgoing e then flow_of e' = flow_of e
    else \<exists>a. \<exists>evs \<in> {[], [ResponseEvent p a]}. flow_of e' = (flow_of e)\<lparr>
        fl_trust := (trust_of e)(p \<mapsto> (if a then Accepted else Rejected)),
        fl_outgoing := eng_outgoing e - {to_hex p}, fl_events := eng_events e @ evs\<rparr>"
proof (cases "to_hex p \<in> eng_outgoing e")
  case False
  with handle_contact_response_eff [OF assms] show ?thesis by simp
next
  case True
  define a where "a \<longleftrightarrow> d \<noteq> [] \<and> d ! 0 = kAccept"
  from True handle_contact_response_eff [OF assms, folded a_def] obtain st where e':
    "e' = e\<lparr>eng_outgoing := eng_outgoing e - {to_hex p}, eng_contacts := st,
        eng_events := eng_events e @ (if eng_response_handler e then [ResponseEvent p a] else [])\<rparr>"
    "trust_change p (if a then Accepted else Rejected) (eng_contacts e) st" by auto
  have "trust_of e' = (trust_of e)(p \<mapsto> (if a then Accepted else Rejected))"
    by (rule trust_change_fun) (use e' in simp)
  moreover have "seen_of e' = seen_of e" by (rule seen_of_cong) (simp add: e')
  ultimately show ?thesis using True by (simp add: flow_of_def e'(1)) blast
qed

lemma deliver_refines:
  assumes dl: "deliver E p m src e w = (ok, e', w')"
    and e: "flow_of e = (flow_of e0)\<lparr>fl_seen := (seen_of e0)(source p \<mapsto> counter p)\<rparr>"
    and fresh: "fresh_counter (seen_of e0 (source p)) (counter p)"
    and acc: "ptype p = PacketType.Message \<Longrightarrow> trust_of e0 (source p) = Some Accepted"
  shows "flow_step (Received (source p) (counter p)) (flow_of e0) (flow_of e')"
proof -
  let ?f = "(flow_of e0)\<lparr>fl_seen := (seen_of e0)(source p \<mapsto> counter p)\<rparr>"
  obtain e1 where e1: "flow_of e1 = ?f" and d: "deliver E p m src e w = (case ptype p of
        PacketType.Message \<Rightarrow> (True, handle_message E (source p) m e1 w)
      | ContactRequest \<Rightarrow> (True, handle_contact_request E (source p) m e1 w)
      | ContactResponse \<Rightarrow> (True, handle_contact_response E (source p) m e1 w)
      | _ \<Rightarrow> (False, e1, w))"
    using deliver_split [of e E p m src w] e by auto
  have sel: "trust_of e1 = trust_of e0" "eng_incoming e1 = eng_incoming e0" "eng_outgoing e1 = eng_outgoing e0"
    "eng_events e1 = eng_events e0" "seen_of e1 = (seen_of e0)(source p \<mapsto> counter p)"
    using arg_cong [OF e1, of fl_trust] arg_cong [OF e1, of fl_incoming] arg_cong [OF e1, of fl_outgoing]
      arg_cong [OF e1, of fl_events] arg_cong [OF e1, of fl_seen] by simp_all
  have ign: "flow_step (Received (source p) (counter p)) (flow_of e0) ?f"
    using flow_step.ignored [of "flow_of e0" "source p" "counter p"] fresh by simp
  consider (msg) "ptype p = PacketType.Message" "handle_message E (source p) m e1 w = (e', w')"
    | (req) "handle_contact_request E (source p) m e1 w = (e', w')"
    | (resp) "handle_contact_response E (source p) m e1 w = (e', w')"
    | (other) "e' = e1" using dl d by (cases "ptype p") auto
  then show ?thesis
  proof cases
    case msg
    from handle_message_flow [OF msg(2)] obtain evs where
      "evs \<in> {[], [MessageEvent \<lparr>msg_peer = source p, msg_plaintext = m, msg_outgoing = False\<rparr>]}"
      "flow_of e' = ?f\<lparr>fl_events := eng_events e0 @ evs\<rparr>" unfolding e1 sel by blast
    with flow_step.message [of "flow_of e0" "source p" "counter p" evs m] acc [OF msg(1)] fresh
    show ?thesis by simp
  next
    case req
    show ?thesis
    proof (cases "trust_of e1 (source p) \<noteq> None \<or> to_hex (source p) \<in> eng_incoming e1")
      case True
      with handle_contact_request_flow [OF req] ign show ?thesis by (simp add: e1)
    next
      case False
      with handle_contact_request_flow [OF req] obtain evs where "evs \<in> {[], [RequestEvent (source p) m]}"
        "flow_of e' = ?f\<lparr>fl_trust := (trust_of e0)(source p \<mapsto> Pending),
           fl_incoming := insert (to_hex (source p)) (eng_incoming e0), fl_events := eng_events e0 @ evs\<rparr>"
        unfolding e1 sel by meson
      with flow_step.request [of "flow_of e0" "source p" "counter p" evs m] False fresh
      show ?thesis by (simp add: sel)
    qed
  next
    case resp
    show ?thesis
    proof (cases "to_hex (source p) \<in> eng_outgoing e1")
      case False
      with handle_contact_response_flow [OF resp] ign show ?thesis by (simp add: e1)
    next
      case True
      with handle_contact_response_flow [OF resp] obtain evs a where "evs \<in> {[], [ResponseEvent (source p) a]}"
        "flow_of e' = ?f\<lparr>fl_trust := (trust_of e0)(source p \<mapsto> (if a then Accepted else Rejected)),
           fl_outgoing := eng_outgoing e0 - {to_hex (source p)}, fl_events := eng_events e0 @ evs\<rparr>"
        unfolding e1 sel by meson
      with flow_step.response [of "source p" "flow_of e0" "counter p" evs a] True fresh
      show ?thesis by (simp add: sel)
    qed
  qed (use ign e1 in simp)
qed

lemma dispatch_cases:
  assumes "dispatch E dg e w = (ok, e', w')"
  obtains (bad) "e' = e" "w' = w"
    | (probe) p :: Packet where "handle_probe E (source p) (dg_from dg) e w = (e', w')"
    | (conn) p :: Packet where "handle_connect E (source p) (payload p) e w = (e', w')"
    | (session) p s e1 where "deserialize (dg_data dg) default_packet = (True, p)"
        "ensure_session E (source p) e = (Some s, e1)"
        "(case decrypt E s p of (None, s) \<Rightarrow> (False, put_session (source p) s e1, w)
          | (Some m, s) \<Rightarrow> deliver E p m (dg_from dg) (put_session (source p) s e1) w) = (ok, e', w')"
        "ptype p = PacketType.Message \<Longrightarrow> trust_of e (source p) = Some Accepted"
proof -
  obtain parsed p where d: "deserialize (dg_data dg) default_packet = (parsed, p)" by fastforce
  consider (garbage) "\<not> parsed" | (hello) "parsed" "ptype p = Hello" | (connect) "parsed" "ptype p = Connect"
    | (spam) "parsed" "ptype p = PacketType.Message" "trust_of e (source p) \<noteq> Some Accepted"
    | (rest) "parsed" "ptype p \<noteq> Hello" "ptype p \<noteq> Connect"
        "ptype p = PacketType.Message \<Longrightarrow> trust_of e (source p) = Some Accepted" by blast
  then show ?thesis
  proof cases
    case garbage
    then show ?thesis using assms d by (intro bad) (simp_all add: dispatch_def)
  next
    case hello
    then show ?thesis
      using assms d bad probe [of p] by (cases "destination p = eng_public e \<and> source p \<noteq> []") (auto simp: dispatch_def Let_def)
  next
    case connect
    then show ?thesis using assms d by (intro conn [of p]) (simp add: dispatch_def Let_def)
  next
    case spam
    then show ?thesis using assms d by (intro bad) (simp_all add: dispatch_def Let_def trust_of_def)
  next
    case rest
    obtain r e1 where r: "ensure_session E (source p) e = (r, e1)" by fastforce
    have dl: "dispatch E dg e w = (case r of None \<Rightarrow> (False, e1, w)
      | Some s \<Rightarrow> (case decrypt E s p of (None, s) \<Rightarrow> (False, put_session (source p) s e1, w)
          | (Some m, s) \<Rightarrow> deliver E p m (dg_from dg) (put_session (source p) s e1) w))"
      using rest d r by (auto simp: dispatch_def Let_def trust_of_def split: option.splits)
    show ?thesis
    proof (cases r)
      case None
      then show ?thesis using dl assms ensure_session_None [of E "source p" e e1] r by (intro bad) simp_all
    next
      case (Some s)
      show ?thesis by (rule session [of p s e1]) (use d r Some rest dl assms in simp_all)
    qed
  qed
qed

lemma dispatch_refines:
  assumes "dispatch E dg e w = (ok, e', w')"
  shows "flow_of e' = flow_of e \<or> (\<exists>p. deserialize (dg_data dg) default_packet = (True, p) \<and>
     flow_step (Received (source p) (counter p)) (flow_of e) (flow_of e'))"
proof -
  from assms show ?thesis
  proof (cases rule: dispatch_cases)
    case (probe p)
    from handle_probe_eff [OF probe] have "flow_of e' = flow_of e" by (auto intro: flow_of_frame)
    then show ?thesis ..
  next
    case (conn p)
    from handle_connect_eff [OF conn] have "flow_of e' = flow_of e" by (auto intro: flow_of_frame)
    then show ?thesis ..
  next
    case (session p s e1)
    let ?P = "source p"
    note e1 = ensure_session_Some [OF session(2)]
    have last: "last_seen s = seen_of e ?P" using e1 session_for_seen by blast
    have fl: "flow_of (put_session ?P s' e1) = (flow_of e)\<lparr>fl_seen := (seen_of e)(?P := last_seen s')\<rparr>" for s'
    proof (rule flow_eqI)
      have "seen_of (put_session ?P s' e1) = (seen_of e)(?P := last_seen s')"
        by (rule seen_of_session) (use e1 in \<open>simp add: put_session_def\<close>)
      then show "seen_of (put_session ?P s' e1) = fl_seen ((flow_of e)\<lparr>fl_seen := (seen_of e)(?P := last_seen s')\<rparr>)"
        by simp
      show "trust_of (put_session ?P s' e1) = fl_trust ((flow_of e)\<lparr>fl_seen := (seen_of e)(?P := last_seen s')\<rparr>)"
        using e1 by (simp add: put_session_def trust_of_cong [of "e\<lparr>eng_sessions := _\<rparr>" e])
    qed (use e1 in \<open>simp_all add: put_session_def\<close>)
    show ?thesis
    proof (cases rule: decrypt_cases [of E s p])
      case rejected
      with session(3) fl [of s] last show ?thesis by (auto simp: flow_of_def)
    next
      case (accepted m)
      let ?s = "s\<lparr>ses_have_received := True, ses_last_received := counter p\<rparr>"
      have "deliver E p m (dg_from dg) (put_session ?P ?s e1) w = (ok, e', w')" using session(3) accepted(1) by simp
      moreover have "last_seen ?s = Some (counter p)" by (simp add: last_seen_def)
      ultimately have "flow_step (Received ?P (counter p)) (flow_of e) (flow_of e')"
        using fl [of ?s] accepted(2) last session(4) by (intro deliver_refines) (auto simp: gate_def)
      then show ?thesis using session(1) by blast
    qed
  qed simp
qed

text \<open>Every action of the engine is a step of the abstract machine.\<close>

lemma poll_refines:
  assumes "poll E t e w = (ok, e', w')"
  shows "\<exists>l. allows (DoPoll t) l \<and> flow_step l (flow_of e) (flow_of e')"
proof (cases "receive E (eng_socket e) t kReceiveBufferSize w")
  case (Pair dg w1)
  show ?thesis
  proof (cases dg)
    case None
    with assms Pair have "e' = e" by (simp add: poll_def)
    then show ?thesis using flow_step.internal by (intro exI [of _ Internal]) simp
  next
    case (Some d)
    with assms Pair have "dispatch E d e w1 = (ok, e', w')" by (simp add: poll_def)
    from dispatch_refines [OF this] show ?thesis
      by (metis allows.simps(1) allows.simps(8) flow_step.internal)
  qed
qed

lemma trust_change_flow:
  assumes "trust_change p t (eng_contacts e) (eng_contacts e')" "seen_of e' = seen_of e"
    "eng_incoming e' = inc" "eng_outgoing e' = out" "eng_events e' = eng_events e"
  shows "flow_of e' = (flow_of e)\<lparr>fl_trust := (trust_of e)(p \<mapsto> t), fl_incoming := inc, fl_outgoing := out\<rparr>"
  using assms(2-5) trust_change_fun [OF assms(1)] by (simp add: flow_of_def)

lemma seen_of_bump:
  assumes "session_for E e p s" "eng_sessions e' = (eng_sessions e)(to_hex p \<mapsto> s')" "last_seen s' = last_seen s"
  shows "seen_of e' = seen_of e"
  using seen_of_session [OF assms(2)] session_for_seen [OF assms(1)] assms(3) by simp

lemma add_peer_refines:
  assumes "add_peer E p ep e w = (ok, e', w')"
  shows "flow_of e' = flow_of e \<or> flow_step (Trusted p) (flow_of e) (flow_of e')"
proof (cases ok)
  case True
  with add_peer_eff [OF assms] obtain s st where s: "session_for E e p s" "trust_change p Accepted (eng_contacts e) st"
    "e' = e\<lparr>eng_sessions := (eng_sessions e)(to_hex p \<mapsto> s),
        eng_endpoints := (eng_endpoints e)(to_hex p \<mapsto> ep), eng_contacts := st\<rparr>" by auto
  have "seen_of e' = seen_of e" by (rule seen_of_bump [OF s(1), of _ s]) (simp_all add: s)
  then have "flow_of e' = (flow_of e)\<lparr>fl_trust := (trust_of e)(p \<mapsto> Accepted),
      fl_incoming := eng_incoming e, fl_outgoing := eng_outgoing e\<rparr>"
    by (intro trust_change_flow) (use s in simp_all)
  then show ?thesis using flow_step.trusted [of p "flow_of e"] by (simp add: flow_of_def)
qed (use add_peer_eff [OF assms] in simp)

lemma send_contact_request_refines:
  assumes "send_contact_request E p ep g e w = (ok, e', w')"
  shows "flow_of e' = flow_of e \<or> flow_step (Requested p) (flow_of e) (flow_of e')"
  using send_contact_request_eff [OF assms]
proof (elim disjE exE conjE)
  fix s st sock ds
  assume s: "trust_of e p \<noteq> Some Accepted" "session_for E e p s" "trust_change p Pending (eng_contacts e) st"
    "e' = e\<lparr>eng_sessions := (eng_sessions e)(to_hex p \<mapsto> bump s), eng_endpoints := (eng_endpoints e)(to_hex p \<mapsto> ep),
        eng_outgoing := insert (to_hex p) (eng_outgoing e), eng_contacts := st, eng_socket := sock\<rparr>"
  have "seen_of e' = seen_of e" by (rule seen_of_bump [OF s(2), of _ "bump s"]) (simp_all add: s)
  then have "flow_of e' = (flow_of e)\<lparr>fl_trust := (trust_of e)(p \<mapsto> Pending),
      fl_incoming := eng_incoming e, fl_outgoing := insert (to_hex p) (eng_outgoing e)\<rparr>"
    by (intro trust_change_flow) (use s in simp_all)
  then show ?thesis using flow_step.requested [of "flow_of e" p] s(1) by (simp add: flow_of_def)
qed simp

lemma decide_contact_refines:
  assumes "decide_contact E t d p e w = (ok, e', w')" "t \<in> {Accepted, Rejected}"
  shows "flow_of e' = flow_of e \<or> flow_step (Decided p t) (flow_of e) (flow_of e')"
  using decide_contact_eff [OF assms(1), unfolded decided_def]
proof (elim disjE exE conjE)
  fix s st sock ds
  assume s: "to_hex p \<in> eng_incoming e" "session_for E e p s" "decision_change p t (eng_contacts e) st"
    "e' = e\<lparr>eng_sessions := (eng_sessions e)(to_hex p \<mapsto> bump s),
        eng_incoming := eng_incoming e - {to_hex p}, eng_contacts := st, eng_socket := sock\<rparr>"
  have "seen_of e' = seen_of e" by (rule seen_of_bump [OF s(2), of _ "bump s"]) (simp_all add: s)
  moreover have "trust_of e' = (trust_of e)(p \<mapsto> t)"
    using s(3) by (simp add: s(4) decision_change_def trust_of_def fun_eq_iff)
  ultimately have "flow_of e' = (flow_of e)\<lparr>fl_trust := (trust_of e)(p \<mapsto> t),
      fl_incoming := eng_incoming e - {to_hex p}\<rparr>" by (simp add: flow_of_def s(4))
  then show ?thesis using flow_step.decided [of p "flow_of e" t] s(1) assms(2) by simp
qed simp

lemma send_refines:
  assumes "send E p m e w = (ok, e', w')"
  shows "flow_of e' = flow_of e"
  using send_eff [OF assms]
proof (elim disjE exE conjE)
  fix s st sock ds
  assume s: "session_for E e p s" "st_contacts st = st_contacts (eng_contacts e)"
    "e' = e\<lparr>eng_sessions := (eng_sessions e)(to_hex p \<mapsto> bump s), eng_contacts := st, eng_socket := sock\<rparr>"
  have "seen_of e' = seen_of e" by (rule seen_of_bump [OF s(1), of _ "bump s"]) (simp_all add: s)
  moreover have "trust_of e' = trust_of e" by (rule trust_of_eqI) (simp add: s)
  ultimately show ?thesis by (simp add: flow_of_def s(3))
qed simp

lemma set_nickname_refines:
  assumes "set_nickname E p n e w = (e', w')"
  shows "flow_step (Named p) (flow_of e) (flow_of e')"
proof -
  let ?t = "case trust_of e p of Some t \<Rightarrow> t | None \<Rightarrow> Pending"
  from set_nickname_eff [OF assms] obtain st where st: "e' = e\<lparr>eng_contacts := st\<rparr>"
    "trust_change p ?t (eng_contacts e) st" by blast
  have "trust_of e' = (trust_of e)(p \<mapsto> ?t)" by (rule trust_change_fun) (use st in simp)
  moreover have "seen_of e' = seen_of e" by (rule seen_of_cong) (simp add: st)
  ultimately have "flow_of e' = (flow_of e)\<lparr>fl_trust := (trust_of e)(p \<mapsto> ?t)\<rparr>" by (simp add: flow_of_def st(1))
  then show ?thesis using flow_step.named [of ?t "flow_of e" p] by simp
qed

lemma open_store_refines:
  assumes "open_store E path pass e w = (ok, e', w')"
  shows "flow_step Loaded (flow_of e) (flow_of e')"
proof -
  have "eng_incoming e \<subseteq> eng_incoming e'" "eng_outgoing e' = eng_outgoing e" "eng_events e' = eng_events e"
      "seen_of e' = seen_of e"
    using assms by (auto simp: open_store_def Let_def split: prod.splits if_splits intro: seen_of_cong)
  then have "flow_of e' = (flow_of e)\<lparr>fl_trust := trust_of e', fl_incoming := eng_incoming e'\<rparr>"
    by (simp add: flow_of_def)
  then show ?thesis using flow_step.loaded [of "flow_of e" "eng_incoming e'" "trust_of e'"]
      \<open>eng_incoming e \<subseteq> eng_incoming e'\<close> by simp
qed

lemma quiet_refines:
  "engine_bind E ep e w = (ok, e', w') \<Longrightarrow> flow_of e' = flow_of e"
  "announce_to E ep e w = (ok, e', w') \<Longrightarrow> flow_of e' = flow_of e"
  "connect E p ep e w = (ep', e', w') \<Longrightarrow> flow_of e' = flow_of e"
  "tick E order e w = (e', w') \<Longrightarrow> flow_of e' = flow_of e"
proof -
  show "flow_of e' = flow_of e" if "engine_bind E ep e w = (ok, e', w')"
    using that by (auto simp: engine_bind_def split: prod.splits intro: flow_of_frame)
  show "flow_of e' = flow_of e" if "announce_to E ep e w = (ok, e', w')"
    using engine_send_to_eff [OF that [unfolded announce_to_def Let_def]] by (auto intro: flow_of_frame)
  show "flow_of e' = flow_of e" if c: "connect E p ep e w = (ep', e', w')"
  proof -
    obtain ee where ee: "start_probing E p ep (e\<lparr>eng_endpoints := ee\<rparr>) w = (e', w')"
      using c by (auto simp: connect_def Let_def split: prod.splits)
    from start_probing_eff [OF this] show ?thesis by (auto intro: flow_of_frame)
  qed
  show "flow_of e' = flow_of e" if "tick E order e w = (e', w')"
    using that tick_loop_eff [of E "steady_clock_now E (calls w)" order e "next_call w"]
    by (auto simp: tick_def intro: flow_of_frame)
qed

lemma flow_setters:
  "flow_of (set_relay ep e) = flow_of e" "flow_of (on_message e) = flow_of e"
  "flow_of (on_contact_request e) = flow_of e" "flow_of (on_contact_response e) = flow_of e"
  by (rule flow_of_frame;
      simp add: set_relay_def on_message_def on_contact_request_def on_contact_response_def)+

lemma run_step:
  assumes "run E a e w = (e', w')"
  shows "\<exists>l. allows a l \<and> flow_step l (flow_of e) (flow_of e')"
proof -
  have stutter: ?thesis if "flow_of e' = flow_of e" using that flow_step.internal [of "flow_of e"]
    by (intro exI [of _ Internal]) simp
  show ?thesis
  proof (cases a)
    case (DoBind ep) with assms show ?thesis using quiet_refines(1) stutter by (metis run.simps(1) prod.collapse)
  next
    case (DoAnnounce ep) with assms show ?thesis using quiet_refines(2) stutter by (metis run.simps(2) prod.collapse)
  next
    case (DoOpenStore path pass) with assms show ?thesis
      using open_store_refines by (metis run.simps(3) prod.collapse allows.simps(2))
  next
    case (DoAddPeer p ep) with assms show ?thesis
      using add_peer_refines stutter by (metis run.simps(4) prod.collapse allows.simps(3))
  next
    case (DoSetNickname p n) with assms show ?thesis
      using set_nickname_refines by (metis run.simps(5) allows.simps(4))
  next
    case (DoSendRequest p ep g) with assms show ?thesis
      using send_contact_request_refines stutter by (metis run.simps(6) prod.collapse allows.simps(5))
  next
    case (DoAccept p)
    obtain ok where "decide_contact E Accepted kAccept p e w = (ok, e', w')"
      using assms DoAccept by (auto simp: accept_contact_def) (metis prod.collapse)
    then have "flow_of e' = flow_of e \<or> flow_step (Decided p Accepted) (flow_of e) (flow_of e')"
      by (rule decide_contact_refines) simp
    moreover have "allows a (Decided p Accepted)" using DoAccept by simp
    ultimately show ?thesis using stutter by blast
  next
    case (DoReject p)
    obtain ok where "decide_contact E Rejected kReject p e w = (ok, e', w')"
      using assms DoReject by (auto simp: reject_contact_def) (metis prod.collapse)
    then have "flow_of e' = flow_of e \<or> flow_step (Decided p Rejected) (flow_of e) (flow_of e')"
      by (rule decide_contact_refines) simp
    moreover have "allows a (Decided p Rejected)" using DoReject by simp
    ultimately show ?thesis using stutter by blast
  next
    case (DoSend p m) with assms show ?thesis using send_refines stutter by (metis run.simps(9) prod.collapse)
  next
    case (DoConnect p ep) with assms show ?thesis using quiet_refines(3) stutter by (metis run.simps(11) prod.collapse)
  next
    case (DoTick order) with assms show ?thesis using quiet_refines(4) stutter by (metis run.simps(12))
  next
    case (DoPoll t) with assms show ?thesis using poll_refines by (metis run.simps(13) prod.collapse)
  qed (use assms in \<open>auto simp: flow_setters intro!: exI [of _ Internal] flow_step.internal\<close>)
qed

section \<open>Runs of the engine\<close>

text \<open>
  A run: a sequence of actions, each in an arbitrary world (the network, the clock and the
  files may have changed in any way in between).
\<close>

inductive engine_run :: "env \<Rightarrow> Engine \<Rightarrow> Action list \<Rightarrow> Engine \<Rightarrow> bool" for E where
  init: "engine_run E e [] e"
| act: "engine_run E e as e' \<Longrightarrow> run E a e' w = (e'', w') \<Longrightarrow> engine_run E e (as @ [a]) e''"

lemma engine_run_refines:
  "engine_run E e as e' \<Longrightarrow> \<exists>ls. list_all2 allows as ls \<and> flow_run (flow_of e) ls (flow_of e')"
proof (induction rule: engine_run.induct)
  case (init e)
  show ?case using flow_run.start by (intro exI [of _ "[]"]) simp
next
  case (act e as e' a w e'' w')
  then obtain ls where "list_all2 allows as ls" "flow_run (flow_of e) ls (flow_of e')" by blast
  moreover obtain l where "allows a l" "flow_step l (flow_of e') (flow_of e'')" using run_step [OF act.hyps(2)] by blast
  ultimately show ?case using flow_run.more by (intro exI [of _ "ls @ [l]"]) (auto intro: list_all2_appendI)
qed

lemma allows_mem:
  assumes "list_all2 allows as ls" "l \<in> set ls"
  shows "\<exists>a\<in>set as. allows a l"
  using assms by (auto simp: list_all2_conv_all_nth in_set_conv_nth) (metis nth_mem)

lemma allows_Loaded: "allows a Loaded \<Longrightarrow> \<exists>path pass. a = DoOpenStore path pass"
  by (cases a) auto

lemma allows_consent:
  "allows a (Trusted p) \<Longrightarrow> \<exists>ep. a = DoAddPeer p ep"
  "allows a (Decided p Accepted) \<Longrightarrow> a = DoAccept p"
  "allows a (Requested p) \<Longrightarrow> \<exists>ep g. a = DoSendRequest p ep g"
  by (cases a; simp)+

definition flow_init :: "Flow \<Rightarrow> bool" where
  "flow_init f \<longleftrightarrow> fl_trust f = (\<lambda>_. None) \<and> fl_incoming f = {} \<and> fl_outgoing f = {} \<and> fl_events f = []"

lemma flow_init_new_engine [simp]: "flow_init (flow_of (new_engine pk sk))"
  by (simp add: flow_init_def new_engine_def trust_of_def default_store_def store_trust_of_def fun_eq_iff)

section \<open>Invariants of the abstract machine\<close>

fun is_request_from :: "bytes \<Rightarrow> Event \<Rightarrow> bool" where
  "is_request_from p (RequestEvent q g) = (p = q)"
| "is_request_from p _ = False"

lemma flow_step_seen:
  assumes "flow_step l f f'" "fl_seen f p = Some c"
  shows "\<exists>d. fl_seen f' p = Some d \<and> c \<le> d"
  using assms by (cases rule: flow_step_elim) (auto simp: fresh_counter_def)

lemma flow_run_seen:
  "flow_run f ls f' \<Longrightarrow> fl_seen f p = Some c \<Longrightarrow> \<exists>d. fl_seen f' p = Some d \<and> c \<le> d"
proof (induction rule: flow_run.induct)
  case (more f ls f' l f'')
  then obtain d where d: "fl_seen f' p = Some d" "c \<le> d" by blast
  from flow_step_seen [OF more.hyps(2) d(1)] d(2) show ?case by force
qed auto

lemma flow_step_received_seen:
  assumes "flow_step l f f'" "fl_events f' \<noteq> fl_events f"
  shows "\<exists>p c. l = Received p c \<and> fl_seen f' p = Some c"
  using assms by (cases rule: flow_step_elim) auto

text \<open>A message callback is a step of the machine only for an accepted peer.\<close>

lemma flow_step_message:
  assumes "flow_step l f f'" "fl_events f' = fl_events f @ [MessageEvent msg]"
  shows "fl_trust f (msg_peer msg) = Some Accepted \<and> (\<exists>c. l = Received (msg_peer msg) c)"
  using assms by (cases rule: flow_step_elim) auto

section \<open>Stored trust\<close>

text \<open>What the file of a store says about a peer, read with the passphrase.\<close>

definition stored_trust :: "env \<Rightarrow> string \<Rightarrow> string \<Rightarrow> world \<Rightarrow> bytes \<Rightarrow> TrustStatus option" where
  "stored_trust E path pass w p =
     (case read_salt E path kStoreMagic w of (None, _) \<Rightarrow> None
      | (Some salt, w) \<Rightarrow> (case derive_key E pass salt w of (key, w) \<Rightarrow>
          (case read_blob E path kStoreMagic key w of (None, _) \<Rightarrow> None
           | (Some plaintext, _) \<Rightarrow> (case decode plaintext of None \<Rightarrow> None
               | Some (contacts, _, _) \<Rightarrow> map_option c_trust (find_contact contacts p)))))"

lemma open_store_trust:
  assumes "open_store E path pass e w = (ok, e', w')"
  shows "trust_of e' = trust_of e \<or> trust_of e' = stored_trust E path pass w"
  using assms
  by (auto simp: open_store_def store_open_def stored_trust_def trust_of_def store_trust_of_def store_find_def fun_eq_iff Let_def
      split: if_splits option.splits prod.splits)

text \<open>A store is opened in the course of a run, in world \<open>w\<close>.\<close>

definition opens :: "env \<Rightarrow> Engine \<Rightarrow> Action list \<Rightarrow> string \<Rightarrow> string \<Rightarrow> world \<Rightarrow> bool" where
  "opens E e as path pass w \<longleftrightarrow> (\<exists>pre post e' ok e'' w'. as = pre @ DoOpenStore path pass # post \<and> engine_run E e pre e' \<and>
     open_store E path pass e' w = (ok, e'', w'))"

lemma opens_more: "opens E e as path pass w \<Longrightarrow> opens E e (as @ [a]) path pass w"
  unfolding opens_def by fastforce

definition consent_given :: "env \<Rightarrow> Engine \<Rightarrow> Action list \<Rightarrow> bytes \<Rightarrow> bool" where
  "consent_given E e as p \<longleftrightarrow> (\<exists>ep. DoAddPeer p ep \<in> set as) \<or> DoAccept p \<in> set as \<or> (\<exists>ep g. DoSendRequest p ep g \<in> set as) \<or>
     (\<exists>path pass w. opens E e as path pass w \<and> stored_trust E path pass w p = Some Accepted)"

lemma consent_given_more: "consent_given E e as p \<Longrightarrow> consent_given E e (as @ [a]) p"
  unfolding consent_given_def using opens_more by fastforce

lemma flow_step_consent:
  assumes "flow_step l f f'" "l \<noteq> Loaded"
  shows "(to_hex p \<in> fl_outgoing f' \<longrightarrow> to_hex p \<in> fl_outgoing f \<or> l = Requested p) \<and>
    (fl_trust f' p = Some Accepted \<longrightarrow>
       fl_trust f p = Some Accepted \<or> to_hex p \<in> fl_outgoing f \<or> l = Trusted p \<or> l = Decided p Accepted)"
  using assms by (cases rule: flow_step_elim) (auto split: if_splits option.splits)

lemma engine_run_consent:
  "engine_run E e as e' \<Longrightarrow> flow_init (flow_of e) \<Longrightarrow>
     (to_hex p \<in> eng_outgoing e' \<longrightarrow> (\<exists>ep g. DoSendRequest p ep g \<in> set as)) \<and>
     (trust_of e' p = Some Accepted \<longrightarrow> consent_given E e as p)"
proof (induction rule: engine_run.induct)
  case (init e)
  then show ?case by (simp add: flow_init_def)
next
  case (act e as e' a w e'' w')
  then have IH: "to_hex p \<in> eng_outgoing e' \<Longrightarrow> \<exists>ep g. DoSendRequest p ep g \<in> set as"
    "trust_of e' p = Some Accepted \<Longrightarrow> consent_given E e as p" by blast+
  show ?case
  proof (cases "\<exists>path pass. a = DoOpenStore path pass")
    case True
    then obtain path pass ok where a: "a = DoOpenStore path pass" "open_store E path pass e' w = (ok, e'', w')"
      using act.hyps(2) by (metis run.simps(3) prod.collapse)
    have "eng_outgoing e'' = eng_outgoing e'"
      using a(2) by (auto simp: open_store_def Let_def split: prod.splits if_splits)
    moreover have "opens E e (as @ [a]) path pass w" using act.hyps(1) a unfolding opens_def by blast
    ultimately show ?thesis
      using IH open_store_trust [OF a(2)] consent_given_more [of E e as p a] by (auto simp: consent_given_def)
  next
    case False
    obtain l where l: "allows a l" "flow_step l (flow_of e') (flow_of e'')" using run_step [OF act.hyps(2)] by blast
    have "l \<noteq> Loaded" using l(1) allows_Loaded False by blast
    note s = flow_step_consent [OF l(2) this, of p, simplified]
    have "to_hex p \<in> eng_outgoing e'' \<Longrightarrow> \<exists>ep g. DoSendRequest p ep g \<in> set (as @ [a])"
      using s IH(1) l(1) allows_consent(3) [of a p] by fastforce
    moreover have "consent_given E e (as @ [a]) p" if acc: "trust_of e'' p = Some Accepted"
    proof -
      consider "trust_of e' p = Some Accepted" | "to_hex p \<in> eng_outgoing e'" | "l = Trusted p" | "l = Decided p Accepted"
        using s acc by blast
      then show ?thesis
      proof cases
        case 1
        then show ?thesis using IH(2) consent_given_more by blast
      next
        case 2
        then show ?thesis using IH(1) by (auto simp: consent_given_def)
      next
        case 3
        then obtain ep where "a = DoAddPeer p ep" using l(1) allows_consent(1) by blast
        then show ?thesis by (auto simp: consent_given_def)
      next
        case 4
        then have "a = DoAccept p" using l(1) allows_consent(2) by blast
        then show ?thesis by (simp add: consent_given_def)
      qed
    qed
    ultimately show ?thesis by blast
  qed
qed

text \<open>
  How often a peer's request can be surfaced: once, and once more for each store opened after polling began,
  since a store may know less of the peer than the engine did.
\<close>

fun opens_store :: "Action \<Rightarrow> bool" where
  "opens_store (DoOpenStore _ _) = True"
| "opens_store _ = False"

fun is_poll :: "Action \<Rightarrow> bool" where
  "is_poll (DoPoll _) = True"
| "is_poll _ = False"

definition late_opens :: "Action list \<Rightarrow> nat" where
  "late_opens as = length (filter opens_store (dropWhile (Not \<circ> is_poll) as))"

lemma late_opens_snoc:
  "late_opens (as @ [a]) = late_opens as + (if opens_store a \<and> list_ex is_poll as then 1 else 0)"
proof (cases "list_ex is_poll as")
  case True
  then have "dropWhile (Not \<circ> is_poll) (as @ [a]) = dropWhile (Not \<circ> is_poll) as @ [a]"
    by (auto simp: list_ex_iff dropWhile_append1)
  with True show ?thesis by (simp add: late_opens_def)
next
  case False
  then have *: "\<forall>x\<in>set as. \<not> is_poll x" by (auto simp: list_ex_iff)
  then have "dropWhile (Not \<circ> is_poll) as = []" by (auto simp: dropWhile_eq_Nil_conv)
  moreover have "dropWhile (Not \<circ> is_poll) (as @ [a]) = (if is_poll a then [a] else [])"
    using dropWhile_append2 [of as "Not \<circ> is_poll" "[a]"] * by simp
  moreover have "is_poll a \<Longrightarrow> \<not> opens_store a" by (cases a) simp_all
  ultimately show ?thesis using False by (simp add: late_opens_def del: dropWhile_eq_Nil_conv)
qed

lemma flow_step_requests:
  assumes "flow_step l f f'" "l \<noteq> Loaded"
  shows "length (filter (is_request_from p) (fl_events f')) + (if fl_trust f' p = None then 1 else 0)
    \<le> length (filter (is_request_from p) (fl_events f)) + (if fl_trust f p = None then 1 else 0)"
  using assms by (cases rule: flow_step_elim) (auto split: option.splits if_splits)

lemma flow_step_events:
  assumes "flow_step l f f'" "\<And>q c. l \<noteq> Received q c"
  shows "fl_events f' = fl_events f"
  using assms by (cases rule: flow_step_elim) auto

lemma engine_run_requests:
  "engine_run E e as e' \<Longrightarrow> flow_init (flow_of e) \<Longrightarrow>
     length (filter (is_request_from p) (eng_events e')) + (if trust_of e' p = None then 1 else 0) \<le> 1 + late_opens as \<and>
     (\<not> list_ex is_poll as \<longrightarrow> eng_events e' = [])"
proof (induction rule: engine_run.induct)
  case (init e)
  then show ?case by (simp add: flow_init_def)
next
  case (act e as e' a w e'' w')
  let ?n = "\<lambda>e. length (filter (is_request_from p) (eng_events e))"
  have IH: "?n e' + (if trust_of e' p = None then 1 else 0) \<le> 1 + late_opens as" "\<not> list_ex is_poll as \<Longrightarrow> eng_events e' = []"
    using act by blast+
  obtain l where l: "allows a l" "flow_step l (flow_of e') (flow_of e'')" using run_step [OF act.hyps(2)] by blast
  have quiet: "eng_events e'' = eng_events e'" if "\<not> is_poll a"
    using flow_step_events [OF l(2)] l(1) that by (cases a; cases l) auto
  show ?case
  proof (cases "opens_store a")
    case True
    then have "\<not> is_poll a" by (cases a) auto
    then show ?thesis using IH quiet True by (cases "list_ex is_poll as") (auto simp: late_opens_snoc)
  next
    case False
    then have "l \<noteq> Loaded" using l(1) allows_Loaded by fastforce
    from flow_step_requests [OF l(2) this, of p] IH False quiet show ?thesis
      by (auto simp: late_opens_snoc split: if_splits)
  qed
qed

text \<open>A peer the engine already knows, for instance from the store it opened, is never surfaced.\<close>

lemma flow_step_known:
  assumes "flow_step l f f'" "l \<noteq> Loaded" "fl_trust f p \<noteq> None"
  shows "filter (is_request_from p) (fl_events f') = filter (is_request_from p) (fl_events f) \<and> fl_trust f' p \<noteq> None"
  using assms by (cases rule: flow_step_elim) (auto split: option.splits if_splits)

lemma known_not_surfaced:
  "engine_run E e as e' \<Longrightarrow> trust_of e p \<noteq> None \<Longrightarrow> \<not> list_ex opens_store as \<Longrightarrow>
     filter (is_request_from p) (eng_events e') = filter (is_request_from p) (eng_events e) \<and> trust_of e' p \<noteq> None"
proof (induction rule: engine_run.induct)
  case (act e as e' a w e'' w')
  obtain l where l: "allows a l" "flow_step l (flow_of e') (flow_of e'')" using run_step [OF act.hyps(2)] by blast
  have "l \<noteq> Loaded" using l(1) allows_Loaded act.prems(2) by fastforce
  from flow_step_known [OF l(2) this, of p] act have "filter (is_request_from p) (eng_events e'') = filter (is_request_from p) (eng_events e') \<and>
    trust_of e'' p \<noteq> None" by simp
  with act show ?case by simp
qed simp

section \<open>Delivery\<close>

lemma session_for_ensure:
  "session_for E e p s \<Longrightarrow>
     ensure_session E p e = (Some s, e\<lparr>eng_sessions := (eng_sessions e)(to_hex p \<mapsto> s)\<rparr>)"
  by (auto simp: session_for_def ensure_session_def Let_def map_upd_triv)

lemma encrypt_as_wf:
  assumes "aead_correct E" "random_sized E" "ses_valid s" "length (ses_key s) = kSessionKeyBytes"
    and "encrypt_as E s ty m w = (p, s', w')" "wf_type ty"
    and "fits_u16 (ses_local s)" "fits_u16 (ses_remote s)" "length m + 40 < 65536"
  shows "wf_packet p"
proof -
  note p = encrypt_as_fields [OF assms(5)]
  have "length (payload p) = length m + 40"
    using p(11) [OF assms(3)] length_seal [OF assms(1,2,4)] by simp
  then show ?thesis using p(2,3,6,7) assms(6-9) by (simp add: wf_packet_def fits_u16_def)
qed

lemma dispatch_message:
  assumes "deserialize (dg_data dg) default_packet = (True, p)" "ptype p = PacketType.Message"
    and "trust_of e (source p) = Some Accepted" "session_for E e (source p) s" "decrypt E s p = (Some m, s')"
  shows "\<exists>e' w' ts. dispatch E dg e w = (True, e', w') \<and> sent w' = sent w \<and>
    eng_events e' = eng_events e @ (if eng_message_handler e
      then [MessageEvent \<lparr>msg_peer = source p, msg_plaintext = m, msg_outgoing = False\<rparr>] else []) \<and>
    st_messages (eng_contacts e') = st_messages (eng_contacts e) @
      [\<lparr>m_peer = source p, m_text = string_of_bytes m, m_outgoing = False, m_timestamp = ts\<rparr>] \<and>
    eng_sessions e' (to_hex (source p)) = Some s' \<and> trust_of e' = trust_of e"
proof -
  let ?e = "put_session (source p) s' (e\<lparr>eng_sessions := (eng_sessions e)(to_hex (source p) \<mapsto> s)\<rparr>)"
  have "dispatch E dg e w = deliver E p m (dg_from dg) ?e w"
    using assms(1-3,5) session_for_ensure [OF assms(4)] by (simp add: dispatch_def trust_of_def Let_def)
  moreover obtain e1 where e1: "eng_message_handler e1 = eng_message_handler ?e" "eng_contacts e1 = eng_contacts ?e"
      "eng_sessions e1 = eng_sessions ?e" "flow_of e1 = flow_of ?e"
      "deliver E p m (dg_from dg) ?e w = (True, handle_message E (source p) m e1 w)"
    using deliver_split [of ?e E p m "dg_from dg" w] assms(2) by auto
  moreover obtain e' w' where h: "handle_message E (source p) m e1 w = (e', w')" by fastforce
  moreover from handle_message_eff [OF h] obtain st ts where st:
    "e' = e1\<lparr>eng_contacts := st, eng_events := eng_events e1 @ (if eng_message_handler e1
       then [MessageEvent \<lparr>msg_peer = source p, msg_plaintext = m, msg_outgoing = False\<rparr>] else [])\<rparr>"
    "sent w' = sent w" "st_contacts st = st_contacts (eng_contacts e1)"
    "st_messages st = st_messages (eng_contacts e1) @
      [\<lparr>m_peer = source p, m_text = string_of_bytes m, m_outgoing = False, m_timestamp = ts\<rparr>]" by blast
  moreover have "eng_events e1 = eng_events e"
    using arg_cong [OF e1(4), of fl_events] by (simp add: put_session_def)
  moreover have "trust_of e1 = trust_of e"
    using e1(2) by (intro trust_of_cong) (simp add: put_session_def)
  moreover have "trust_of e' = trust_of e1" using st(1,3) by (intro trust_of_eqI) simp
  ultimately show ?thesis
    by (intro exI [of _ e'] exI [of _ w'] exI [of _ ts]) (simp add: put_session_def)
qed

text \<open>A packet at or below the last accepted counter is dropped.\<close>

lemma dispatch_stale:
  assumes "deserialize (dg_data dg) default_packet = (True, p)" "ptype p \<notin> {Hello, Connect}"
    and "seen_of e (source p) = Some c" "counter p \<le> c"
  shows "fst (dispatch E dg e w) = False \<and> flow_of (fst (snd (dispatch E dg e w))) = flow_of e \<and>
    snd (snd (dispatch E dg e w)) = w"
proof -
  obtain s where s: "eng_sessions e (to_hex (source p)) = Some s" "last_seen s = Some c"
    using assms(3) by (auto simp: seen_of_def bind_eq_Some_conv)
  then have ens: "ensure_session E (source p) e = (Some s, e)" by (simp add: ensure_session_def)
  have dec: "decrypt E s p = (None, s)"
    by (rule decrypt_stale) (use s assms(4) in \<open>simp add: fresh_counter_def not_less\<close>)
  have "put_session (source p) s e = e" using s(1) by (simp add: put_session_def map_upd_triv)
  then show ?thesis using assms(1,2) by (simp add: dispatch_def Let_def ens dec)
qed

text \<open>Connectivity control never reaches the application.\<close>

lemma dispatch_control:
  assumes "deserialize (dg_data dg) default_packet = (True, p)" "ptype p \<in> {Hello, Connect}"
  shows "flow_of (fst (snd (dispatch E dg e w))) = flow_of e"
proof (cases "ptype p = Hello")
  case True
  obtain e' w' where h: "handle_probe E (source p) (dg_from dg) e w = (e', w')" by fastforce
  from handle_probe_eff [OF h] have "flow_of e' = flow_of e" by (auto intro: flow_of_frame)
  with True h assms(1) show ?thesis by (simp add: dispatch_def Let_def)
next
  case False
  obtain e' w' where h: "handle_connect E (source p) (payload p) e w = (e', w')" by fastforce
  from handle_connect_eff [OF h] have "flow_of e' = flow_of e" by (auto intro: flow_of_frame)
  with False assms h show ?thesis by (simp add: dispatch_def Let_def)
qed

text \<open>The first message between two fresh sessions arrives.\<close>

lemma first_message:
  assumes laws: "crypto_laws E" "key_pair E pk1 sk1" "key_pair E pk2 sk2"
    and v: "ses_valid (new_session E pk1 sk1 pk2)" and len: "length m + 40 < 65536"
    and e: "trust_of e pk1 = Some Accepted" "session_for E e pk1 (new_session E pk2 sk2 pk1)"
    and enc: "encrypt_as E (new_session E pk1 sk1 pk2) PacketType.Message m w0 = (p, a', w0')"
    and dg: "dg_data dg = serialize p"
  shows "\<exists>e' w' ts. dispatch E dg e w = (True, e', w') \<and> sent w' = sent w \<and>
    eng_events e' = eng_events e @ (if eng_message_handler e
      then [MessageEvent \<lparr>msg_peer = pk1, msg_plaintext = m, msg_outgoing = False\<rparr>] else []) \<and>
    st_messages (eng_contacts e') = st_messages (eng_contacts e) @
      [\<lparr>m_peer = pk1, m_text = string_of_bytes m, m_outgoing = False, m_timestamp = ts\<rparr>] \<and>
    seen_of e' pk1 = Some 0 \<and> wf_packet p \<and> ptype p = PacketType.Message \<and> source p = pk1 \<and> trust_of e' = trust_of e"
proof -
  let ?b = "new_session E pk2 sk2 pk1"
  note p = encrypt_as_fields [OF enc]
  have pair: "paired (new_session E pk1 sk1 pk2) ?b" by (rule paired_new_session [OF laws v])
  have dec: "decrypt E ?b p = (Some m, ?b\<lparr>ses_have_received := True, ses_last_received := 0\<rparr>)"
    using decrypt_encrypt [OF crypto_lawsD(1,2) [OF laws(1)] pair enc] laws(1) by simp
  have wf: "wf_packet p"
    by (rule encrypt_as_wf [OF crypto_lawsD(1,2) [OF laws(1)] v _ enc])
       (use pair laws len in \<open>auto simp: paired_def wf_type_def packet_type_of_def key_pair_def fits_u16_def crypto_sizes\<close>)
  then have d: "deserialize (dg_data dg) default_packet = (True, p)" by (simp add: dg)
  have src: "source p = pk1" "ptype p = PacketType.Message" using p by simp_all
  from dispatch_message [OF d src(2) _ _ dec, unfolded src(1), OF e, of w] wf src show ?thesis
    by (auto simp: seen_of_def last_seen_def)
qed

text \<open>The engine of the worked examples: one accepted contact, an open socket, no session yet.\<close>

definition toy_engine :: Engine where
  "toy_engine = (new_engine (pad 32 [2]) (pad 64 [2]))\<lparr>eng_message_handler := True,
     eng_contacts := default_store\<lparr>st_contacts :=
       [\<lparr>c_key = pad 32 [1], c_nickname = ''alice'', c_trust = Accepted, c_last_seen = 0\<rparr>]\<rparr>,
     eng_socket := \<lparr>sock_fd = 3, sock_family = 2\<rparr>\<rparr>"

definition toy_sender :: Session where
  "toy_sender = new_session toy_env (pad 32 [1]) (pad 64 [1]) (pad 32 [2])"

definition toy_datagram :: bytes where
  "toy_datagram = serialize (fst (encrypt_as toy_env toy_sender PacketType.Message [104] toy_world))"

lemma toy_engine_sel:
  "trust_of toy_engine (pad 32 [1]) = Some Accepted" "eng_message_handler toy_engine" "eng_events toy_engine = []"
  "session_for toy_env toy_engine (pad 32 [1]) (new_session toy_env (pad 32 [2]) (pad 64 [2]) (pad 32 [1]))"
  by (simp_all add: toy_engine_def new_engine_def trust_of_def store_trust_of_def session_for_def new_session_valid)

lemma toy_first_message:
  "\<exists>e' w' p. dispatch toy_env \<lparr>dg_from = ep, dg_data = toy_datagram\<rparr> toy_engine w = (True, e', w') \<and>
     eng_events e' = [MessageEvent \<lparr>msg_peer = pad 32 [1], msg_plaintext = [104], msg_outgoing = False\<rparr>] \<and>
     deserialize toy_datagram default_packet = (True, p) \<and> ptype p = PacketType.Message"
proof -
  obtain p a' w' where enc: "encrypt_as toy_env toy_sender PacketType.Message [104] toy_world = (p, a', w')"
    by (metis prod_cases3)
  then have d: "toy_datagram = serialize p" by (simp add: toy_datagram_def)
  have "ses_valid (new_session toy_env (pad 32 [1]) (pad 64 [1]) (pad 32 [2]))" by (simp add: new_session_valid)
  from first_message [OF crypto_laws_toy toy_key_pair toy_key_pair this _ toy_engine_sel(1,4) enc [unfolded toy_sender_def],
      of "\<lparr>dg_from = ep, dg_data = toy_datagram\<rparr>" w]
  show ?thesis by (auto simp: d toy_engine_sel)
qed

lemma toy_net_same:
  "crypto_laws (toy_net a d)" "key_pair (toy_net a d) = key_pair toy_env"
  "new_session (toy_net a d) = new_session toy_env" "encrypt_as (toy_net a d) = encrypt_as toy_env"
proof -
  have "dh_commutes (toy_net a d)" "curve_sized (toy_net a d)"
    using toy_env_laws(7,8) unfolding dh_commutes_def curve_sized_def toy_net_sel .
  then show "crypto_laws (toy_net a d)" by (simp add: crypto_laws_def)
  show "key_pair (toy_net a d) = key_pair toy_env" by (simp add: fun_eq_iff key_pair_def)
  have "agree_shared_key (toy_net a d) = agree_shared_key toy_env" by (simp add: fun_eq_iff agree_shared_key_def)
  then show "new_session (toy_net a d) = new_session toy_env" unfolding new_session_def [abs_def] by simp
  have "seal (toy_net a d) = seal toy_env" by (simp add: fun_eq_iff seal_def)
  show "encrypt_as (toy_net a d) = encrypt_as toy_env"
    unfolding encrypt_as_def [abs_def] \<open>seal (toy_net a d) = seal toy_env\<close> ..
qed

text \<open>The same message through the socket.\<close>

lemma toy_poll_message:
  assumes "length toy_datagram \<le> kReceiveBufferSize"
  shows "\<exists>e' w'. run (toy_net ''h:1'' toy_datagram) (DoPoll 10) toy_engine toy_world = (e', w') \<and>
     eng_events e' = eng_events toy_engine @
       [MessageEvent \<lparr>msg_peer = pad 32 [1], msg_plaintext = [104], msg_outgoing = False\<rparr>]"
proof -
  let ?E = "toy_net ''h:1'' toy_datagram"
  obtain dg w1 where r: "receive ?E (eng_socket toy_engine) 10 kReceiveBufferSize toy_world = (Some dg, w1)"
      "dg_data dg = toy_datagram"
    using assms by (cases "endpoint_from_sockaddr ?E \<lparr>sa_family = 2, sa_data = bytes_of_string ''h:1''\<rparr>
        (next_call (next_call toy_world))") (simp add: receive_def is_open_def toy_engine_def)
  obtain p a' w' where enc: "encrypt_as toy_env toy_sender PacketType.Message [104] toy_world = (p, a', w')"
    by (metis prod_cases3)
  have d: "dg_data dg = serialize p" using enc r(2) by (simp add: toy_datagram_def)
  have s: "session_for ?E toy_engine (pad 32 [1]) (new_session ?E (pad 32 [2]) (pad 64 [2]) (pad 32 [1]))"
    using toy_engine_sel(4) by (simp add: session_for_def toy_net_same)
  have k: "key_pair ?E (pad 32 [k]) (pad 64 [k])" for k by (simp add: toy_net_same)
  have v: "ses_valid (new_session ?E (pad 32 [1]) (pad 64 [1]) (pad 32 [2]))"
    by (simp add: toy_net_same new_session_valid)
  have enc': "encrypt_as ?E (new_session ?E (pad 32 [1]) (pad 64 [1]) (pad 32 [2])) PacketType.Message [104] toy_world = (p, a', w')"
    using enc by (simp add: toy_net_same toy_sender_def)
  from first_message [OF toy_net_same(1) k k v _ toy_engine_sel(1) s enc' d, of w1]
  show ?thesis by (auto simp: poll_def r toy_engine_sel)
qed

lemma length_toy_datagram: "length toy_datagram \<le> kReceiveBufferSize"
proof -
  obtain p a' w' where enc: "encrypt_as toy_env toy_sender PacketType.Message [104] toy_world = (p, a', w')"
    by (metis prod_cases3)
  note p = encrypt_as_fields [OF enc]
  have v: "ses_valid toy_sender" by (simp add: toy_sender_def new_session_valid)
  have key: "length (ses_key toy_sender) = kSessionKeyBytes"
    using paired_new_session [OF crypto_laws_toy toy_key_pair toy_key_pair, of 1 2] v
    unfolding toy_sender_def paired_def by blast
  have "length (payload p) = 41" using p(11) [OF v] length_seal [OF toy_env_laws(1,3) key] by simp
  moreover have "length (source p) = 32" "length (destination p) = 32" using p by (simp_all add: toy_sender_def)
  ultimately have "length (serialize p) = 124" by (simp add: serialize_eq)
  then show ?thesis by (simp add: toy_datagram_def enc kReceiveBufferSize_def)
qed

section \<open>Properties\<close>

text \<open>
  (C11) The engine implements the contact flow: whatever sequence of calls the application
  makes and whatever the network delivers, with the outside world changing arbitrarily
  in between, the engine's trust database, open requests, callbacks and replay windows evolve
  by steps of the abstract machine, each step one that the call made at that point allows.
\<close>

theorem engine_refines_flow:
  assumes "engine_run E e as e'"
  shows "\<exists>ls. list_all2 allows as ls \<and> flow_run (flow_of e) ls (flow_of e')"
  by (rule engine_run_refines [OF assms])


lemma toy_add_peer:
  assumes "trust_of e (pad 32 [k]) = None" "eng_secret e = pad 64 [j]" "eng_sessions e = Map.empty"
  shows "\<exists>e' w'. add_peer toy_env (pad 32 [k]) ep e w = (True, e', w') \<and>
    trust_of e' = (trust_of e)(pad 32 [k] \<mapsto> Accepted) \<and> eng_message_handler e' = eng_message_handler e \<and>
    eng_public e' = eng_public e \<and>
    eng_sessions e' = [to_hex (pad 32 [k]) \<mapsto> new_session toy_env (eng_public e) (pad 64 [j]) (pad 32 [k])]"
proof -
  obtain ok e' w' where a: "add_peer toy_env (pad 32 [k]) ep e w = (ok, e', w')" by (metis prod_cases3)
  have v: "ses_valid (new_session toy_env (eng_public e) (eng_secret e) (pad 32 [k]))"
    using assms(2) by (simp add: new_session_valid)
  then have ok: ok using a assms(3) by (auto simp: add_peer_def ensure_session_def Let_def split: prod.splits)
  with add_peer_eff [OF a] obtain s st where *: "session_for toy_env e (pad 32 [k]) s"
    "trust_change (pad 32 [k]) Accepted (eng_contacts e) st"
    "e' = e\<lparr>eng_sessions := (eng_sessions e)(to_hex (pad 32 [k]) \<mapsto> s),
        eng_endpoints := (eng_endpoints e)(to_hex (pad 32 [k]) \<mapsto> ep), eng_contacts := st\<rparr>" by auto
  have "trust_of e' = (trust_of e)(pad 32 [k] \<mapsto> Accepted)" by (rule trust_change_fun) (use * in simp)
  with a ok * assms show ?thesis by (auto simp: session_for_def)
qed


text \<open>
  (C12) The one-request rule: in any run of a new engine at most one contact request of each peer is
  surfaced to the application, however many requests the peer sends and whatever happens in between, plus one for each
  store the application opens after its first \<^verbatim>\<open>poll\<close>.  The clients open their store before they poll, so for them
  it is one.
\<close>

theorem engine_one_request:
  assumes "engine_run E (new_engine pk sk) as e"
  shows "length (filter (is_request_from p) (eng_events e)) \<le> 1 + late_opens as"
  using engine_run_requests [OF assms, of p] by simp

text \<open>
  (C17) The spam gate: a call of the message callback happens only inside \<^verbatim>\<open>poll\<close>, and only for
  a peer that was an accepted contact at that moment.
\<close>

theorem engine_spam_gate:
  assumes "run E a e w = (e', w')" and "eng_events e' = eng_events e @ [MessageEvent msg]"
  shows "trust_of e (msg_peer msg) = Some Accepted \<and> (\<exists>t. a = DoPoll t)"
proof -
  obtain l where l: "allows a l" "flow_step l (flow_of e) (flow_of e')" using run_step [OF assms(1)] by blast
  from flow_step_message [OF l(2)] assms(2) show ?thesis using l(1) by (cases a) auto
qed

text \<open>
  (C13) Replay protection of the engine: once a datagram has caused a callback, every later
  datagram with the same bytes, from whatever address and after whatever further run of
  the engine, is dropped: \<^verbatim>\<open>poll\<close>'s dispatch returns false, changes neither trust, requests,
  callbacks nor replay windows, and sends nothing.
\<close>

theorem engine_replay_dropped:
  assumes "dispatch E dg e w = (ok, e1, w1)" and "eng_events e1 \<noteq> eng_events e"
    and "engine_run E e1 as e2" and "dg_data dg' = dg_data dg"
  shows "fst (dispatch E dg' e2 w2) = False \<and> flow_of (fst (snd (dispatch E dg' e2 w2))) = flow_of e2 \<and>
    snd (snd (dispatch E dg' e2 w2)) = w2"
proof -
  have "flow_of e1 \<noteq> flow_of e" using assms(2) by (metis flow_sel(4))
  with dispatch_refines [OF assms(1)] obtain p where p: "deserialize (dg_data dg) default_packet = (True, p)"
    "flow_step (Received (source p) (counter p)) (flow_of e) (flow_of e1)" by blast
  from flow_step_received_seen [OF p(2)] assms(2) have s1: "fl_seen (flow_of e1) (source p) = Some (counter p)" by simp
  obtain ls where "flow_run (flow_of e1) ls (flow_of e2)" using engine_run_refines [OF assms(3)] by blast
  from flow_run_seen [OF this s1] obtain d where "seen_of e2 (source p) = Some d" "counter p \<le> d" by auto
  moreover have "ptype p \<notin> {Hello, Connect}"
    using dispatch_control [OF p(1), of E e w] \<open>flow_of e1 \<noteq> flow_of e\<close> assms(1) by auto
  ultimately show ?thesis using dispatch_stale [of dg' p e2 d E w2] p(1) assms(4) by simp
qed

theorem engine_replay_dropped_witness:
  "\<exists>e1 w1. dispatch toy_env \<lparr>dg_from = default_endpoint, dg_data = toy_datagram\<rparr> toy_engine toy_world = (True, e1, w1) \<and>
     fst (dispatch toy_env \<lparr>dg_from = \<lparr>host = ''evil'', port = 9\<rparr>, dg_data = toy_datagram\<rparr> e1 w1) = False"
proof -
  obtain e1 w1 where 1: "dispatch toy_env \<lparr>dg_from = default_endpoint, dg_data = toy_datagram\<rparr> toy_engine toy_world = (True, e1, w1)"
    "eng_events e1 \<noteq> eng_events toy_engine"
    using toy_first_message [of default_endpoint toy_world] by (auto simp: toy_engine_sel)
  from engine_replay_dropped [OF 1 engine_run.init, of "\<lparr>dg_from = \<lparr>host = ''evil'', port = 9\<rparr>, dg_data = toy_datagram\<rparr>" w1]
  show ?thesis using 1(1) by auto
qed

theorem engine_spam_gate_witness:
  "\<exists>e' w'. run (toy_net ''h:1'' toy_datagram) (DoPoll 10) toy_engine toy_world = (e', w') \<and>
     trust_of toy_engine (pad 32 [1]) = Some Accepted"
proof -
  obtain e' w' where r: "run (toy_net ''h:1'' toy_datagram) (DoPoll 10) toy_engine toy_world = (e', w')"
     "eng_events e' = eng_events toy_engine @
       [MessageEvent \<lparr>msg_peer = pad 32 [1], msg_plaintext = [104], msg_outgoing = False\<rparr>]"
    using toy_poll_message [OF length_toy_datagram] by blast
  from engine_spam_gate [OF r] r(1) show ?thesis by simp
qed

end
