(* ===== verification/EngineInv.thy ===== *)
theory EngineInv
  imports Flow
begin

text \<open>
  Invariants of the engine that the flow does not show: every session belongs to the peer
  it is filed under and holds the agreed key, every stored request can be decided, and
  everything the engine puts on the wire is either a probe without payload or sealed for
  its recipient.  Also the bound on the number of hole-punch probes.
\<close>

section \<open>Sessions\<close>

definition session_ok :: "env \<Rightarrow> Engine \<Rightarrow> bytes \<Rightarrow> Session \<Rightarrow> bool" where
  "session_ok E e p s \<longleftrightarrow> ses_valid s \<and> ses_local s = eng_public e \<and> ses_remote s = p \<and>
     agree_shared_key E (eng_secret e) p = Some (ses_key s)"

definition sessions_ok :: "env \<Rightarrow> Engine \<Rightarrow> bool" where
  "sessions_ok E e \<longleftrightarrow> (\<forall>k s. eng_sessions e k = Some s \<longrightarrow> (\<exists>p. k = to_hex p \<and> session_ok E e p s))"

definition same_keys :: "Session \<Rightarrow> Session \<Rightarrow> bool" where
  "same_keys s s' \<longleftrightarrow> ses_local s' = ses_local s \<and> ses_remote s' = ses_remote s \<and> ses_key s' = ses_key s \<and>
     ses_valid s' = ses_valid s"

definition session_step :: "env \<Rightarrow> Engine \<Rightarrow> Engine \<Rightarrow> bool" where
  "session_step E e e' \<longleftrightarrow> eng_public e' = eng_public e \<and> eng_secret e' = eng_secret e \<and>
     (eng_sessions e' = eng_sessions e \<or>
      (\<exists>p s s'. session_for E e p s \<and> same_keys s s' \<and> eng_sessions e' = (eng_sessions e)(to_hex p \<mapsto> s')))"

lemma session_for_ok:
  assumes "sessions_ok E e" "session_for E e p s"
  shows "session_ok E e p s"
  using assms(2) unfolding session_for_def
proof (elim disjE conjE)
  assume "eng_sessions e (to_hex p) = Some s"
  with assms(1) obtain q where "to_hex p = to_hex q" "session_ok E e q s" unfolding sessions_ok_def by blast
  then show ?thesis by simp
next
  assume s: "s = new_session E (eng_public e) (eng_secret e) p" "ses_valid s"
  then obtain k where k: "agree_shared_key E (eng_secret e) p = Some k" by (auto simp: new_session_valid)
  with s new_session_valid(2) [OF k, of "eng_public e"] show ?thesis by (simp add: session_ok_def)
qed

lemma session_step_ok:
  assumes "session_step E e e'" "sessions_ok E e"
  shows "sessions_ok E e'"
proof -
  have pub: "eng_public e' = eng_public e" "eng_secret e' = eng_secret e" using assms(1) by (auto simp: session_step_def)
  have keep: "session_ok E e' q t" if "session_ok E e q t" for q t
    using that pub by (simp add: session_ok_def)
  from assms(1) consider "eng_sessions e' = eng_sessions e"
    | p s s' where "session_for E e p s" "same_keys s s'" "eng_sessions e' = (eng_sessions e)(to_hex p \<mapsto> s')"
    unfolding session_step_def by blast
  then show ?thesis
  proof cases
    case 1
    then show ?thesis using assms(2) keep unfolding sessions_ok_def by metis
  next
    case 2
    have "session_ok E e' p s'"
      using session_for_ok [OF assms(2) 2(1)] 2(2) pub by (simp add: session_ok_def same_keys_def)
    then show ?thesis using 2(3) assms(2) keep unfolding sessions_ok_def by (auto split: if_splits) blast
  qed
qed

lemma same_keys_refl [simp]: "same_keys s s" "same_keys s (bump s)"
  "same_keys s (s\<lparr>ses_have_received := b, ses_last_received := c\<rparr>)"
  by (simp_all add: same_keys_def bump_def)

lemma session_stepI:
  "eng_public e' = eng_public e \<Longrightarrow> eng_secret e' = eng_secret e \<Longrightarrow> eng_sessions e' = eng_sessions e \<Longrightarrow> session_step E e e'"
  "eng_public e' = eng_public e \<Longrightarrow> eng_secret e' = eng_secret e \<Longrightarrow> session_for E e p s \<Longrightarrow> same_keys s s' \<Longrightarrow>
     eng_sessions e' = (eng_sessions e)(to_hex p \<mapsto> s') \<Longrightarrow> session_step E e e'"
  unfolding session_step_def by blast+

section \<open>Requests\<close>

text \<open>Every request shown as pending can be accepted or rejected.\<close>

definition requests_ok :: "Engine \<Rightarrow> bool" where
  "requests_ok e \<longleftrightarrow> (\<forall>q\<in>set (st_requests (eng_contacts e)). to_hex (q_peer q) \<in> eng_incoming e)"

lemma requests_ok_cong:
  "st_requests (eng_contacts e') = st_requests (eng_contacts e) \<Longrightarrow> eng_incoming e' = eng_incoming e \<Longrightarrow>
     requests_ok e' = requests_ok e"
  by (simp add: requests_ok_def)

section \<open>The wire\<close>

definition wire_ok :: "env \<Rightarrow> Engine \<Rightarrow> bytes \<Rightarrow> bool" where
  "wire_ok E e b \<longleftrightarrow> (\<exists>q. b = serialize (hello_packet (eng_public e) q)) \<or>
     (\<exists>p peer key m w. b = serialize p \<and> ptype p \<in> {PacketType.Message, ContactRequest, ContactResponse} \<and>
        encrypted p \<and> source p = eng_public e \<and> destination p = peer \<and>
        agree_shared_key E (eng_secret e) peer = Some key \<and>
        payload p = fst (seal E key m (associated_data p) w))"

definition wire_step :: "env \<Rightarrow> Engine \<Rightarrow> world \<Rightarrow> world \<Rightarrow> bool" where
  "wire_step E e w w' \<longleftrightarrow> (\<exists>ds. sent w' = sent w @ ds \<and> (\<forall>d\<in>set ds. wire_ok E e (snd d)))"

lemma wire_stepI: "sent w' = sent w @ ds \<Longrightarrow> (\<forall>d\<in>set ds. wire_ok E e (snd d)) \<Longrightarrow> wire_step E e w w'"
  by (auto simp: wire_step_def)

lemma wire_step_same [simp]: "sent w' = sent w \<Longrightarrow> wire_step E e w w'"
  by (rule wire_stepI [of _ _ "[]"]) simp_all

lemma sealed_dgs_wire:
  assumes "sealed_dgs E s ty m ok ds" "session_ok E e p s"
    and "ty \<in> {PacketType.Message, ContactRequest, ContactResponse}"
  shows "\<forall>d\<in>set ds. wire_ok E e (snd d)"
proof (cases ok)
  case True
  with assms(1) obtain dest q w s' w' where q: "ds = [(dest, serialize q)]" "encrypt_as E s ty m w = (q, s', w')"
    by (auto simp: sealed_dgs_def sealed_for_def)
  note f = encrypt_as_fields [OF q(2)]
  have "payload q = fst (seal E (ses_key s) m (associated_data q) w)"
    using assms(2) f(11) by (simp add: session_ok_def)
  then have "wire_ok E e (serialize q)"
    unfolding wire_ok_def
    by (intro disjI2 exI [of _ q] exI [of _ p] exI [of _ "ses_key s"] exI [of _ m] exI [of _ w])
       (use assms(2,3) f(3,4,6,7) in \<open>simp add: session_ok_def\<close>)
  then show ?thesis by (simp add: q(1))
qed (use assms(1) in \<open>simp add: sealed_dgs_def\<close>)

lemma hello_wire:
  "ds \<in> {[], [(to, serialize (hello_packet (eng_public e) q))]} \<Longrightarrow> \<forall>d\<in>set ds. wire_ok E e (snd d)"
  by (auto simp: wire_ok_def)

section \<open>Every action\<close>

definition good_step :: "env \<Rightarrow> Engine \<Rightarrow> world \<Rightarrow> Engine \<Rightarrow> world \<Rightarrow> bool" where
  "good_step E e w e' w' \<longleftrightarrow> session_step E e e' \<and> (requests_ok e \<longrightarrow> requests_ok e') \<and>
     (sessions_ok E e \<longrightarrow> wire_step E e w w')"

lemma good_stepI:
  assumes "session_step E e e'" "requests_ok e \<Longrightarrow> requests_ok e'" "sessions_ok E e \<Longrightarrow> wire_step E e w w'"
  shows "good_step E e w e' w'"
  using assms by (simp add: good_step_def)

text \<open>An operation that keeps sessions, requests and identity, and sends hellos only.\<close>

lemma good_step_quiet:
  assumes "eng_public e' = eng_public e" "eng_secret e' = eng_secret e" "eng_sessions e' = eng_sessions e"
    and "st_requests (eng_contacts e') = st_requests (eng_contacts e)" "eng_incoming e' = eng_incoming e"
    and "sent w' = sent w @ ds" "\<forall>d\<in>set ds. wire_ok E e (snd d)"
  shows "good_step E e w e' w'"
  using assms by (intro good_stepI session_stepI(1)) (auto simp: requests_ok_cong [OF assms(4,5)] intro: wire_stepI)

lemma good_step_refl [simp]: "good_step E e w e w'" if "sent w' = sent w"
  by (rule good_step_quiet [of _ _ _ _ "[]"]) (use that in simp_all)

lemma good_add_peer: "add_peer E p ep e w = (ok, e', w') \<Longrightarrow> good_step E e w e' w'"
proof -
  assume "add_peer E p ep e w = (ok, e', w')"
  from add_peer_eff [OF this] have s: "sent w' = sent w" and
    "e' = e \<or> (\<exists>s st. session_for E e p s \<and> trust_change p Accepted (eng_contacts e) st \<and>
      e' = e\<lparr>eng_sessions := (eng_sessions e)(to_hex p \<mapsto> s),
        eng_endpoints := (eng_endpoints e)(to_hex p \<mapsto> ep), eng_contacts := st\<rparr>)" by (auto split: if_splits)
  then show ?thesis
  proof (elim disjE exE conjE)
    fix s st assume a: "session_for E e p s" "trust_change p Accepted (eng_contacts e) st"
      "e' = e\<lparr>eng_sessions := (eng_sessions e)(to_hex p \<mapsto> s),
        eng_endpoints := (eng_endpoints e)(to_hex p \<mapsto> ep), eng_contacts := st\<rparr>"
    show ?thesis
    proof (rule good_stepI)
      show "session_step E e e'" by (rule session_stepI(2) [OF _ _ a(1) same_keys_refl(1)]) (simp_all add: a(3))
      show "requests_ok e \<Longrightarrow> requests_ok e'" using a(2) by (simp add: requests_ok_def a(3) trust_change_def)
    qed (simp add: s)
  qed simp
qed

lemma good_send_contact_request: "send_contact_request E p ep g e w = (ok, e', w') \<Longrightarrow> good_step E e w e' w'"
proof -
  assume "send_contact_request E p ep g e w = (ok, e', w')"
  from send_contact_request_eff [OF this] show ?thesis
  proof (elim disjE exE conjE)
    fix s st sock ds assume a: "session_for E e p s" "trust_change p Pending (eng_contacts e) st"
      "e' = e\<lparr>eng_sessions := (eng_sessions e)(to_hex p \<mapsto> bump s), eng_endpoints := (eng_endpoints e)(to_hex p \<mapsto> ep),
             eng_outgoing := insert (to_hex p) (eng_outgoing e), eng_contacts := st, eng_socket := sock\<rparr>"
      "sent w' = sent w @ ds" "sealed_dgs E s ContactRequest g ok ds"
    show ?thesis
    proof (rule good_stepI)
      show "session_step E e e'" by (rule session_stepI(2) [OF _ _ a(1) same_keys_refl(2)]) (simp_all add: a(3))
      show "requests_ok e \<Longrightarrow> requests_ok e'" using a(2) by (simp add: requests_ok_def a(3) trust_change_def)
      show "wire_step E e w w'" if "sessions_ok E e"
        using sealed_dgs_wire [OF a(5) session_for_ok [OF that a(1)]] a(4) by (intro wire_stepI) simp_all
    qed
  qed simp
qed

lemma good_decide_contact: "decide_contact E t d p e w = (ok, e', w') \<Longrightarrow> good_step E e w e' w'"
proof -
  assume "decide_contact E t d p e w = (ok, e', w')"
  from decide_contact_eff [OF this, unfolded decided_def] show ?thesis
  proof (elim disjE exE conjE)
    fix s st sock ds assume a: "session_for E e p s" "decision_change p t (eng_contacts e) st"
      "e' = e\<lparr>eng_sessions := (eng_sessions e)(to_hex p \<mapsto> bump s),
             eng_incoming := eng_incoming e - {to_hex p}, eng_contacts := st, eng_socket := sock\<rparr>"
      "sent w' = sent w @ ds" "sealed_dgs E s ContactResponse [d] ok ds"
    show ?thesis
    proof (rule good_stepI)
      show "session_step E e e'" by (rule session_stepI(2) [OF _ _ a(1) same_keys_refl(2)]) (simp_all add: a(3))
      show "requests_ok e \<Longrightarrow> requests_ok e'" using a(2) by (auto simp: requests_ok_def a(3) decision_change_def)
      show "wire_step E e w w'" if "sessions_ok E e"
        using sealed_dgs_wire [OF a(5) session_for_ok [OF that a(1)]] a(4) by (intro wire_stepI) simp_all
    qed
  qed simp
qed

lemma good_send: "send E p m e w = (ok, e', w') \<Longrightarrow> good_step E e w e' w'"
proof -
  assume "send E p m e w = (ok, e', w')"
  from send_eff [OF this] show ?thesis
  proof (elim disjE exE conjE)
    fix s st sock ds assume a: "session_for E e p s" "st_requests st = st_requests (eng_contacts e)"
      "e' = e\<lparr>eng_sessions := (eng_sessions e)(to_hex p \<mapsto> bump s), eng_contacts := st, eng_socket := sock\<rparr>"
      "sent w' = sent w @ ds" "sealed_dgs E s PacketType.Message m ok ds"
    show ?thesis
    proof (rule good_stepI)
      show "session_step E e e'" by (rule session_stepI(2) [OF _ _ a(1) same_keys_refl(2)]) (simp_all add: a(3))
      show "requests_ok e \<Longrightarrow> requests_ok e'" using a(2) by (simp add: requests_ok_def a(3))
      show "wire_step E e w w'" if "sessions_ok E e"
        using sealed_dgs_wire [OF a(5) session_for_ok [OF that a(1)]] a(4) by (intro wire_stepI) simp_all
    qed
  qed simp
qed

lemma good_set_nickname: "set_nickname E p n e w = (e', w') \<Longrightarrow> good_step E e w e' w'"
  by (drule set_nickname_eff, elim exE conjE, rule good_step_quiet [of _ _ _ _ "[]"]) (simp_all add: trust_change_def)

lemma good_connect: "connect E p ep e w = (ep', e', w') \<Longrightarrow> good_step E e w e' w'"
proof -
  assume "connect E p ep e w = (ep', e', w')"
  then obtain ee where ee: "start_probing E p ep (e\<lparr>eng_endpoints := ee\<rparr>) w = (e', w')"
    by (auto simp: connect_def Let_def split: prod.splits)
  from start_probing_eff [OF this] obtain s ps ds where a:
    "e' = e\<lparr>eng_endpoints := ee, eng_socket := s, eng_probes := ps\<rparr>" "sent w' = sent w @ ds"
    "ds \<in> {[], [(ep, serialize (hello_packet (eng_public (e\<lparr>eng_endpoints := ee\<rparr>)) p))]}" by blast
  show ?thesis
    by (rule good_step_quiet [of _ _ _ _ ds]) (use a hello_wire [of ds ep e p E] in simp_all)
qed

lemma good_tick: "tick E order e w = (e', w') \<Longrightarrow> good_step E e w e' w'"
proof -
  assume t: "tick E order e w = (e', w')"
  obtain s ps ds where a: "e' = e\<lparr>eng_socket := s, eng_probes := ps\<rparr>" "sent w' = sent w @ ds"
     "\<forall>d\<in>set ds. \<exists>p. snd d = serialize (hello_packet (eng_public e) p)"
    using tick_loop_eff [of E "steady_clock_now E (calls w)" order e "next_call w"] t by (auto simp: tick_def)
  show ?thesis
    by (rule good_step_quiet [of _ _ _ _ ds]) (use a in \<open>auto simp: wire_ok_def\<close>)
qed

lemma good_announce: "announce_to E ep e w = (ok, e', w') \<Longrightarrow> good_step E e w e' w'"
proof -
  assume a: "announce_to E ep e w = (ok, e', w')"
  have "default_packet\<lparr>ptype := Hello, source := eng_public e\<rparr> = hello_packet (eng_public e) []"
    by (simp add: hello_packet_def default_packet_def)
  with a have "engine_send_to E ep (serialize (hello_packet (eng_public e) [])) e w = (ok, e', w')"
    by (simp add: announce_to_def)
  from engine_send_to_eff [OF this] obtain s where s: "e' = e\<lparr>eng_socket := s\<rparr>"
    "sent w' = sent w @ (if ok then [(ep, serialize (hello_packet (eng_public e) []))] else [])" by blast
  show ?thesis
    by (rule good_step_quiet [OF _ _ _ _ _ s(2)]) (use s(1) in \<open>auto simp: wire_ok_def\<close>)
qed

lemma store_open_requests:
  assumes "store_open E st path pass w = (False, st', w')"
  shows "st_requests st' = st_requests st"
  using assms by (auto simp: store_open_def Let_def split: prod.splits option.splits if_splits)

lemma good_open_store: "open_store E path pass e w = (ok, e', w') \<Longrightarrow> sent w' = sent w \<Longrightarrow> good_step E e w e' w'"
proof -
  assume a: "open_store E path pass e w = (ok, e', w')" and s: "sent w' = sent w"
  obtain ok1 st w1 where o: "store_open E (eng_contacts e) path pass w = (ok1, st, w1)" by (metis prod_cases3)
  have "requests_ok e'" if "requests_ok e"
  proof (cases ok1)
    case True
    with a o show ?thesis by (auto simp: open_store_def requests_ok_def Let_def)
  next
    case False
    with a o that store_open_requests [of E "eng_contacts e" path pass w st w1] show ?thesis
      by (auto simp: open_store_def requests_ok_def Let_def)
  qed
  moreover have "session_step E e e'"
    by (rule session_stepI(1)) (use a o in \<open>auto simp: open_store_def Let_def split: if_splits\<close>)
  ultimately show ?thesis using s by (intro good_stepI) simp_all
qed

lemma deliver_good:
  assumes "deliver E p m src e w = (ok, e', w')"
  shows "sent w' = sent w" and "eng_public e' = eng_public e" and "eng_secret e' = eng_secret e"
    and "eng_sessions e' = eng_sessions e" and "requests_ok e \<Longrightarrow> requests_ok e'"
proof -
  define e1 where "e1 = (if (case eng_probes e (to_hex (source p)) of None \<Rightarrow> True | Some p \<Rightarrow> \<not> pr_confirmed p)
     then e\<lparr>eng_endpoints := (eng_endpoints e)(to_hex (source p) \<mapsto> src)\<rparr> else e)"
  have e1: "eng_public e1 = eng_public e" "eng_secret e1 = eng_secret e" "eng_sessions e1 = eng_sessions e"
    "requests_ok e1 = requests_ok e" by (auto simp: e1_def requests_ok_def)
  consider "handle_message E (source p) m e1 w = (e', w')"
    | "handle_contact_request E (source p) m e1 w = (e', w')"
    | "handle_contact_response E (source p) m e1 w = (e', w')"
    | "e' = e1" "w' = w"
    using assms unfolding deliver_def Let_def e1_def [symmetric] by (cases "ptype p") auto
  then have "sent w' = sent w \<and> eng_public e' = eng_public e \<and> eng_secret e' = eng_secret e \<and>
    eng_sessions e' = eng_sessions e \<and> (requests_ok e \<longrightarrow> requests_ok e')"
  proof cases
    case 1
    from handle_message_eff [OF this] e1 show ?thesis by (auto simp: requests_ok_def)
  next
    case 2
    show ?thesis
    proof (cases "trust_of e1 (source p) \<noteq> None \<or> to_hex (source p) \<in> eng_incoming e1")
      case True
      with handle_contact_request_eff [OF 2] e1 show ?thesis by simp
    next
      case False
      with handle_contact_request_eff [OF 2] obtain st where
        "e' = e1\<lparr>eng_incoming := insert (to_hex (source p)) (eng_incoming e1), eng_contacts := st,
          eng_events := eng_events e1 @ (if eng_request_handler e1 then [RequestEvent (source p) m] else [])\<rparr>"
        "sent w' = sent w" "request_change (source p) m (eng_contacts e1) st" by meson
      with e1 show ?thesis by (auto simp: requests_ok_def request_change_def split: if_splits)
    qed
  next
    case 3
    show ?thesis
    proof (cases "to_hex (source p) \<in> eng_outgoing e1")
      case False
      with handle_contact_response_eff [OF 3] e1 show ?thesis by simp
    next
      case True
      with handle_contact_response_eff [OF 3] e1 show ?thesis
        by (auto simp: requests_ok_def trust_change_def)
    qed
  qed (use e1 in simp)
  then show "sent w' = sent w" "eng_public e' = eng_public e" "eng_secret e' = eng_secret e"
    "eng_sessions e' = eng_sessions e" "requests_ok e \<Longrightarrow> requests_ok e'" by simp_all
qed

lemma good_dispatch:
  assumes "dispatch E dg e w = (ok, e', w')"
  shows "good_step E e w e' w'"
proof -
  from assms show ?thesis
  proof (cases rule: dispatch_cases)
    case (probe p)
    let ?P = "source p"
    from handle_probe_eff [OF probe] obtain s q ds where a: "e' = e\<lparr>eng_probes := (eng_probes e)(to_hex ?P \<mapsto> q),
        eng_endpoints := (eng_endpoints e)(to_hex ?P \<mapsto> dg_from dg), eng_socket := s\<rparr>" "sent w' = sent w @ ds"
      "ds \<in> {[], [(dg_from dg, serialize (hello_packet (eng_public e) ?P))]}" by blast
    show ?thesis by (rule good_step_quiet [OF _ _ _ _ _ a(2) hello_wire [OF a(3)]]) (simp_all add: a(1))
  next
    case (conn p)
    let ?P = "source p"
    from handle_connect_eff [OF conn] obtain s ps eps ds where a:
      "e' = e\<lparr>eng_endpoints := eps, eng_probes := ps, eng_socket := s\<rparr>" "sent w' = sent w @ ds"
      "ds = [] \<or> (\<exists>to. ds = [(to, serialize (hello_packet (eng_public e) ?P))])" by blast
    have "\<forall>d\<in>set ds. wire_ok E e (snd d)" using a(3) by (auto simp: wire_ok_def)
    from good_step_quiet [OF _ _ _ _ _ a(2) this] show ?thesis by (simp add: a(1))
  next
    case (session p s e1)
    let ?P = "source p"
    note e1 = ensure_session_Some [OF session(2)]
    have put: "eng_public (put_session ?P s' e1) = eng_public e" "eng_secret (put_session ?P s' e1) = eng_secret e"
      "eng_sessions (put_session ?P s' e1) = (eng_sessions e)(to_hex ?P \<mapsto> s')"
      "requests_ok (put_session ?P s' e1) = requests_ok e" for s'
      using e1 by (simp_all add: put_session_def requests_ok_def)
    show ?thesis
    proof (cases rule: decrypt_cases [of E s p])
      case rejected
      with session(3) have r: "e' = put_session ?P s e1" "w' = w" by simp_all
      show ?thesis
      proof (rule good_stepI)
        show "session_step E e e'" by (rule session_stepI(2) [of _ _ _ ?P s s]) (use e1 put [of s] r in simp_all)
      qed (use put [of s] r in simp_all)
    next
      case (accepted m)
      let ?s = "s\<lparr>ses_have_received := True, ses_last_received := counter p\<rparr>"
      have dl: "deliver E p m (dg_from dg) (put_session ?P ?s e1) w = (ok, e', w')" using session(3) accepted(1) by simp
      note g = deliver_good [OF dl]
      show ?thesis
      proof (rule good_stepI)
        show "session_step E e e'" by (rule session_stepI(2) [of _ _ _ ?P s ?s]) (use e1 put [of ?s] g in simp_all)
        show "requests_ok e \<Longrightarrow> requests_ok e'" using g(5) put(4) by simp
      qed (simp add: g(1))
    qed
  qed simp
qed

lemma receive_sent: "sent (snd (receive E s t n w)) = sent w"
  by (simp add: receive_def endpoint_from_sockaddr_def Let_def split: option.splits prod.splits)

lemma good_poll: "poll E t e w = (ok, e', w') \<Longrightarrow> good_step E e w e' w'"
proof -
  assume p: "poll E t e w = (ok, e', w')"
  obtain dg w1 where r: "receive E (eng_socket e) t kReceiveBufferSize w = (dg, w1)" by fastforce
  then have s: "sent w1 = sent w" using receive_sent [of E "eng_socket e" t kReceiveBufferSize w] by simp
  show ?thesis
  proof (cases dg)
    case None
    with p r s show ?thesis by (simp add: poll_def)
  next
    case (Some d)
    with p r have "dispatch E d e w1 = (ok, e', w')" by (simp add: poll_def)
    from good_dispatch [OF this] s show ?thesis by (simp add: good_step_def wire_step_def)
  qed
qed

lemma storage_sentD:
  "derive_key E p sl w = (k, w') \<Longrightarrow> sent w' = sent w"
  "generate_salt E w = (b, w') \<Longrightarrow> sent w' = sent w"
  "read_salt E path magic w = (r, w') \<Longrightarrow> sent w' = sent w"
  "read_blob E path magic key w = (r', w') \<Longrightarrow> sent w' = sent w"
  "store_save E st w = (ok, w') \<Longrightarrow> sent w' = sent w"
proof -
  show "sent w' = sent w" if "derive_key E p sl w = (k, w')" using derive_key_frame(2) [of E p sl w] that by simp
  show "sent w' = sent w" if "generate_salt E w = (b, w')"
    using that by (metis generate_salt_def random_bytes_frame(2) snd_conv)
  show "sent w' = sent w" if "read_salt E path magic w = (r, w')"
    using that by (auto simp: read_salt_def read_file_def split: prod.splits option.splits if_splits)
  show "sent w' = sent w" if "read_blob E path magic key w = (r', w')"
    using that by (auto simp: read_blob_def read_file_def Let_def split: prod.splits option.splits if_splits)
  show "sent w' = sent w" if "store_save E st w = (ok, w')" using store_save_frame [of E st w] that by simp
qed

lemma store_open_sent:
  assumes "store_open E st path pass w = (ok, st', w')"
  shows "sent w' = sent w"
proof (cases "path \<in> dom (files w)")
  case True
  obtain r w1 where 1: "read_salt E path kStoreMagic w = (r, w1)" by fastforce
  show ?thesis
  proof (cases r)
    case None
    with assms True 1 storage_sentD(3) [OF 1] show ?thesis by (simp add: store_open_def)
  next
    case (Some salt)
    obtain k w2 where 2: "derive_key E pass salt w1 = (k, w2)" by fastforce
    obtain b w3 where 3: "read_blob E path kStoreMagic k w2 = (b, w3)" by fastforce
    have "w' = w2 \<or> w' = w3"
      using assms True 1 2 3 Some by (auto simp: store_open_def split: if_splits option.splits)
    then show ?thesis using storage_sentD(3) [OF 1] storage_sentD(1) [OF 2] storage_sentD(4) [OF 3] by auto
  qed
next
  case False
  obtain salt w1 where 1: "generate_salt E w = (salt, w1)" by fastforce
  obtain k w2 where 2: "derive_key E pass salt w1 = (k, w2)" by fastforce
  show ?thesis
  proof (cases "k = []")
    case True
    with assms False 1 2 storage_sentD(2) [OF 1] storage_sentD(1) [OF 2] show ?thesis by (simp add: store_open_def)
  next
    case kn: False
    obtain r w3 where 3: "store_save E (st\<lparr>st_salt := salt, st_key := k, st_path := path, st_persistent := True\<rparr>) w2 = (r, w3)"
      by fastforce
    with assms False kn 1 2 have "w' = w3" by (simp add: store_open_def Let_def)
    then show ?thesis using storage_sentD(2) [OF 1] storage_sentD(1) [OF 2] storage_sentD(5) [OF 3] by simp
  qed
qed

lemma socket_bind_sent: "sent (snd (snd (socket_bind E s ep w))) = sent w"
  by (auto simp: socket_bind_def socket_close_def resolve_def open_fd_def Let_def split: prod.splits option.splits)

lemma good_run:
  assumes "run E a e w = (e', w')"
  shows "good_step E e w e' w'"
proof (cases a)
  case (DoBind ep)
  obtain ok where "engine_bind E ep e w = (ok, e', w')" using assms DoBind by (auto) (metis prod.collapse)
  then have "e' = e\<lparr>eng_socket := eng_socket e'\<rparr> \<and> sent w' = sent w"
    using socket_bind_sent [of E "eng_socket e" ep w] by (auto simp: engine_bind_def split: prod.splits)
  then show ?thesis
    by (intro good_step_quiet [of _ _ _ _ "[]"]) (metis (no_types, lifting) Engine.select_convs Engine.surjective
        Engine.update_convs(3) append_Nil2 empty_iff list.set(1))+
next
  case (DoAnnounce ep) with assms show ?thesis using good_announce by (metis run.simps(2) prod.collapse)
next
  case (DoOpenStore path pass)
  obtain ok where o: "open_store E path pass e w = (ok, e', w')" using assms DoOpenStore by (auto) (metis prod.collapse)
  then have "sent w' = sent w"
    using store_open_sent by (auto simp: open_store_def Let_def split: prod.splits if_splits)
  with good_open_store [OF o] show ?thesis .
next
  case (DoAddPeer p ep) with assms show ?thesis using good_add_peer by (metis run.simps(4) prod.collapse)
next
  case (DoSetNickname p n) with assms show ?thesis using good_set_nickname by simp
next
  case (DoSendRequest p ep g) with assms show ?thesis
    using good_send_contact_request by (metis run.simps(6) prod.collapse)
next
  case (DoAccept p) with assms show ?thesis
    using good_decide_contact by (metis run.simps(7) prod.collapse accept_contact_def)
next
  case (DoReject p) with assms show ?thesis
    using good_decide_contact by (metis run.simps(8) prod.collapse reject_contact_def)
next
  case (DoSend p m) with assms show ?thesis using good_send by (metis run.simps(9) prod.collapse)
next
  case (DoConnect p ep) with assms show ?thesis using good_connect by (metis run.simps(11) prod.collapse)
next
  case (DoTick order) with assms show ?thesis using good_tick by simp
next
  case (DoPoll t) with assms show ?thesis using good_poll by (metis run.simps(13) prod.collapse)
qed (use assms in \<open>auto simp: set_relay_def on_message_def on_contact_request_def on_contact_response_def
      intro!: good_step_quiet [of _ _ _ _ "[]"]\<close>)

lemma engine_run_inv:
  "engine_run E e as e' \<Longrightarrow> sessions_ok E e \<Longrightarrow> requests_ok e \<Longrightarrow>
     sessions_ok E e' \<and> requests_ok e' \<and> eng_public e' = eng_public e \<and> eng_secret e' = eng_secret e"
proof (induction rule: engine_run.induct)
  case (act e as e' a w e'' w')
  from good_run [OF act.hyps(2)] act show ?case
    by (auto simp: good_step_def session_step_ok) (auto simp: session_step_def)
qed simp

lemma inv_new_engine [simp]: "sessions_ok E (new_engine pk sk)" "requests_ok (new_engine pk sk)"
  by (simp_all add: sessions_ok_def requests_ok_def new_engine_def default_store_def)

section \<open>Probing\<close>

definition budget :: "Probe \<Rightarrow> nat" where
  "budget p = (if pr_confirmed p then 0 else nat (kMaxProbes - pr_attempts p))"

definition total_budget :: "Engine \<Rightarrow> string set \<Rightarrow> nat" where
  "total_budget e ks = (\<Sum>k\<in>ks. case eng_probes e k of None \<Rightarrow> 0 | Some p \<Rightarrow> budget p)"

fun ticks :: "env \<Rightarrow> string list list \<Rightarrow> Engine \<Rightarrow> world \<Rightarrow> Engine \<times> world" where
  "ticks E [] e w = (e, w)"
| "ticks E (order # orders) e w = (case tick E order e w of (e, w) \<Rightarrow> ticks E orders e w)"

lemma total_budget_update:
  assumes "finite ks" "k \<in> ks" "eng_probes e k = Some p" "eng_probes e' = (eng_probes e)(k \<mapsto> p')"
  shows "total_budget e' ks + budget p = total_budget e ks + budget p'"
proof -
  let ?f = "\<lambda>e k. case eng_probes e k of None \<Rightarrow> 0 | Some p \<Rightarrow> budget p"
  have "(\<Sum>j\<in>ks - {k}. ?f e' j) = (\<Sum>j\<in>ks - {k}. ?f e j)"
    by (rule sum.cong) (use assms(4) in auto)
  then show ?thesis
    using sum.remove [OF assms(1,2), of "?f e"] sum.remove [OF assms(1,2), of "?f e'"] assms(3,4)
    by (simp add: total_budget_def)
qed

lemma tick_loop_budget:
  assumes "finite ks" "set order \<subseteq> ks"
  shows "length (sent (snd (tick_loop E now order e w))) + total_budget (fst (tick_loop E now order e w)) ks
     \<le> length (sent w) + total_budget e ks"
  using assms(2)
proof (induction order arbitrary: e w)
  case (Cons key order)
  show ?case
  proof (cases "\<exists>p. eng_probes e key = Some p \<and> \<not> pr_confirmed p \<and> pr_attempts p < kMaxProbes \<and>
      now - pr_last p \<ge> kProbeInterval")
    case False
    then have "tick_loop E now (key # order) e w = tick_loop E now order e w" by (auto split: option.splits)
    then show ?thesis using Cons by simp
  next
    case True
    then obtain p where p: "eng_probes e key = Some p" "\<not> pr_confirmed p" "pr_attempts p < kMaxProbes"
      "now - pr_last p \<ge> kProbeInterval" by blast
    obtain e1 w1 where sp: "send_probe E (pr_peer p) (pr_candidate p) e w = (e1, w1)" by fastforce
    from send_probe_eff [OF sp] obtain s ds where e1: "e1 = e\<lparr>eng_socket := s\<rparr>" "sent w1 = sent w @ ds" "length ds \<le> 1"
      by force
    let ?p = "p\<lparr>pr_attempts := pr_attempts p + 1, pr_last := now\<rparr>"
    let ?e = "e1\<lparr>eng_probes := (eng_probes e1)(key \<mapsto> ?p)\<rparr>"
    have "tick_loop E now (key # order) e w = tick_loop E now order ?e w1" using p sp by simp
    moreover have "length (sent (snd (tick_loop E now order ?e w1))) + total_budget (fst (tick_loop E now order ?e w1)) ks
        \<le> length (sent w1) + total_budget ?e ks" using Cons by simp
    moreover have "total_budget ?e ks + budget p = total_budget e ks + budget ?p"
      using total_budget_update [OF assms(1) _ p(1), of ?e ?p] Cons.prems e1(1) by simp
    moreover have "budget p = budget ?p + 1" using p(2,3) by (simp add: budget_def)
    ultimately show ?thesis using e1(2,3) by simp
  qed
qed simp

lemma ticks_budget:
  assumes "finite ks"
  shows "\<forall>order\<in>set orders. set order \<subseteq> ks \<Longrightarrow>
    length (sent (snd (ticks E orders e w))) + total_budget (fst (ticks E orders e w)) ks
      \<le> length (sent w) + total_budget e ks"
proof (induction orders arbitrary: e w)
  case (Cons order orders)
  obtain e1 w1 where t: "tick E order e w = (e1, w1)" by fastforce
  have "length (sent w1) + total_budget e1 ks \<le> length (sent w) + total_budget e ks"
    using tick_loop_budget [OF assms, of order E "steady_clock_now E (calls w)" e "next_call w"] t Cons.prems
    by (simp add: tick_def)
  with Cons.IH [of e1 w1] Cons.prems show ?case by (simp add: t)
qed simp

section \<open>Properties\<close>

text \<open>
  (C15) The engine invariant: in every state a new engine can reach, each session is filed under
  the hex of its own peer's key, is valid, has our identity as its local end and the agreed
  key as its key; and each pending request shown to the user is one that
  \<^verbatim>\<open>accept_contact\<close> and \<^verbatim>\<open>reject_contact\<close> recognise.
\<close>

theorem engine_invariant:
  assumes "engine_run E (new_engine pk sk) as e"
  shows "sessions_ok E e \<and> requests_ok e \<and> eng_public e = pk \<and> eng_secret e = sk"
  using engine_run_inv [OF assms inv_new_engine] by (simp add: new_engine_def)

theorem engine_invariant_witness:
  "\<exists>e. engine_run toy_env (new_engine (pad 32 [1]) (pad 64 [1])) [DoAddPeer (pad 32 [2]) default_endpoint] e \<and>
     knows_peer e (pad 32 [2]) \<and> sessions_ok toy_env e \<and> requests_ok e \<and> eng_secret e = pad 64 [1]"
proof -
  let ?e = "new_engine (pad 32 [1]) (pad 64 [1])" and ?a = "DoAddPeer (pad 32 [2]) default_endpoint"
  have "trust_of ?e (pad 32 [2]) = None" "eng_secret ?e = pad 64 [1]" "eng_sessions ?e = Map.empty"
    by (simp_all add: new_engine_def trust_of_def default_store_def store_trust_of_def)
  from toy_add_peer [OF this, of default_endpoint toy_world] obtain e' w' where
    e': "add_peer toy_env (pad 32 [2]) default_endpoint ?e toy_world = (True, e', w')" "knows_peer e' (pad 32 [2])"
    by (auto simp: knows_peer_def)
  have r: "engine_run toy_env ?e [?a] e'"
    using engine_run.act [OF engine_run.init, of toy_env ?a ?e toy_world e' w'] e'(1) by simp
  from engine_invariant [OF r] r e'(2) show ?thesis by blast
qed

text \<open>
  (C16) Everything the engine puts on the wire is either a HELLO without payload (probe or
  announcement) or a message, contact request or contact response flagged encrypted, from
  our key, whose payload is sealed with the packet's envelope as associated data under the
  key agreed with the very peer it is addressed to; no other plaintext leaves a reachable engine.
\<close>

theorem engine_wire_sealed:
  assumes "engine_run E (new_engine pk sk) as e" and "run E a e w = (e', w')"
  shows "\<exists>ds. sent w' = sent w @ ds \<and> list_all (\<lambda>d. wire_ok E e (snd d)) ds"
proof -
  have "sessions_ok E e" using engine_run_inv [OF assms(1)] by simp
  with good_run [OF assms(2)] have "wire_step E e w w'" by (simp add: good_step_def)
  then show ?thesis by (auto simp: wire_step_def list_all_iff)
qed

text \<open>
  A pending request can be decided: in an engine that satisfies the request part of the
  invariant (every reachable one does), accepting a request the database lists makes the peer an accepted contact and takes the request off the list
  (given that a key can be agreed with the peer at all), whether or not the response
  reaches the network; when it does, exactly one sealed contact response was sent.
\<close>

theorem pending_request_accepted:
  assumes "requests_ok e" and "q \<in> set (st_requests (eng_contacts e))"
    and "agree_shared_key E (eng_secret e) (q_peer q) \<noteq> None"
    and "accept_contact E (q_peer q) e w = (ok, e', w')"
  shows "trust_of e' (q_peer q) = Some Accepted \<and> q_peer q \<notin> q_peer ` set (st_requests (eng_contacts e')) \<and>
    length (sent w') = length (sent w) + (if ok then 1 else 0)"
proof -
  have inc: "to_hex (q_peer q) \<in> eng_incoming e" using assms(1,2) by (auto simp: requests_ok_def)
  have "ses_valid (new_session E (eng_public e) (eng_secret e) (q_peer q))"
    using assms(3) by (simp add: new_session_valid)
  then obtain s e1 where "ensure_session E (q_peer q) e = (Some s, e1)"
    by (cases "eng_sessions e (to_hex (q_peer q))") (simp_all add: ensure_session_def Let_def)
  from decide_contact_decided [OF assms(4) [unfolded accept_contact_def] inc this] obtain st ds s where
    "eng_contacts e' = st" "decision_change (q_peer q) Accepted (eng_contacts e) st" "sent w' = sent w @ ds"
    "sealed_dgs E s ContactResponse [kAccept] ok ds" unfolding decided_def by auto
  then show ?thesis by (auto simp: decision_change_def trust_of_def sealed_dgs_def split: if_splits)
qed

theorem pending_request_accepted_witness:
  "let e = (new_engine (pad 32 [2]) (pad 64 [2]))\<lparr>eng_incoming := {to_hex (pad 32 [1])}, eng_relay := Some default_endpoint,
         eng_contacts := default_store\<lparr>st_requests := [\<lparr>q_peer = pad 32 [1], q_greeting = ''hi'', q_timestamp = 0\<rparr>]\<rparr>\<rparr>
   in trust_of (fst (snd (accept_contact toy_env (pad 32 [1]) e toy_world))) (pad 32 [1]) = Some Accepted"
proof -
  let ?q = "\<lparr>q_peer = pad 32 [1], q_greeting = ''hi'', q_timestamp = 0\<rparr>"
  let ?e = "(new_engine (pad 32 [2]) (pad 64 [2]))\<lparr>eng_incoming := {to_hex (pad 32 [1])}, eng_relay := Some default_endpoint,
         eng_contacts := default_store\<lparr>st_requests := [?q]\<rparr>\<rparr>"
  obtain ok e' w' where a: "accept_contact toy_env (q_peer ?q) ?e toy_world = (ok, e', w')" by (metis prod_cases3)
  have "requests_ok ?e" "?q \<in> set (st_requests (eng_contacts ?e))"
    "agree_shared_key toy_env (eng_secret ?e) (q_peer ?q) \<noteq> None"
    by (simp_all add: requests_ok_def new_engine_def)
  from pending_request_accepted [OF this a] a show ?thesis by (simp add: Let_def)
qed

text \<open>
  (C32) Hole punching is bounded: over any number of ticks, in any iteration orders and with
  any clock, the probes sent never exceed what is left of the twelve attempts of each
  unconfirmed path, and that remainder shrinks by what was sent, so probing falls silent
  and traffic stays on the fallback path.
\<close>

theorem probing_bounded:
  assumes "finite ks" and "\<forall>order\<in>set orders. set order \<subseteq> ks" and "ticks E orders e w = (e', w')"
  shows "length (sent w') + total_budget e' ks \<le> length (sent w) + total_budget e ks \<and>
    (total_budget e ks = 0 \<longrightarrow> sent w' = sent w)"
proof -
  have *: "length (sent w') + total_budget e' ks \<le> length (sent w) + total_budget e ks"
    using ticks_budget [OF assms(1,2), of E e w] assms(3) by simp
  moreover have "\<exists>ds. sent (snd (ticks E os e w)) = sent w @ ds" for os
  proof (induction os arbitrary: e w)
    case (Cons ord os)
    obtain e1 w1 where t: "tick E ord e w = (e1, w1)" by fastforce
    obtain ds where "sent w1 = sent w @ ds"
      using tick_loop_eff [of E "steady_clock_now E (calls w)" ord e "next_call w"] t by (auto simp: tick_def)
    with Cons.IH [of e1 w1] show ?case by (auto simp: t)
  qed simp
  ultimately show ?thesis using assms(3) by (metis add_is_0 append_self_conv add_le_same_cancel1 le_zero_eq length_0_conv
        length_append snd_conv add.right_neutral add_leD1)
qed

theorem probing_bounded_witness:
  "let e = (new_engine [1] [2])\<lparr>eng_probes := [''07'' \<mapsto> default_probe\<lparr>pr_peer := [7], pr_attempts := 11\<rparr>]\<rparr>;
       (e', w') = ticks toy_env [[''07''], [''07'']] e toy_world
   in length (sent w') \<le> 1"
proof -
  let ?e = "(new_engine [1] [2])\<lparr>eng_probes := [''07'' \<mapsto> default_probe\<lparr>pr_peer := [7], pr_attempts := 11\<rparr>]\<rparr>"
  obtain e' w' where t: "ticks toy_env [[''07''], [''07'']] ?e toy_world = (e', w')" by fastforce
  have "total_budget ?e {''07''} = 1" by (simp add: total_budget_def budget_def default_probe_def kMaxProbes_def)
  with probing_bounded [OF _ _ t, of "{''07''}"] have "length (sent w') \<le> 1" by (simp add: toy_world_def)
  then show ?thesis unfolding Let_def t prod.case .
qed
end
