(* ===== verification/EndToEnd.thy ===== *)
theory EndToEnd
  imports EngineInv
begin

text \<open>
  Two engines talking: what one sends, the other delivers.
\<close>

section \<open>Sending\<close>

definition next_counter :: "Engine \<Rightarrow> bytes \<Rightarrow> u64" where
  "next_counter e p = (case eng_sessions e (to_hex p) of None \<Rightarrow> 0 | Some s \<Rightarrow> ses_send_counter s)"

lemma session_for_counter: "session_for E e p s \<Longrightarrow> ses_send_counter s = next_counter e p"
  by (auto simp: session_for_def next_counter_def)

text \<open>The key and identity of the two ends of a conversation.\<close>

definition ends :: "env \<Rightarrow> Engine \<Rightarrow> Engine \<Rightarrow> bool" where
  "ends E e f \<longleftrightarrow> sessions_ok E e \<and> sessions_ok E f \<and>
     key_pair E (eng_public e) (eng_secret e) \<and> key_pair E (eng_public f) (eng_secret f)"

lemma ends_paired:
  assumes "crypto_laws E" "ends E e f" "session_for E e (eng_public f) s" "session_for E f (eng_public e) t"
  shows "paired s t"
proof -
  have s: "session_ok E e (eng_public f) s" and t: "session_ok E f (eng_public e) t"
    using assms session_for_ok by (auto simp: ends_def)
  have "agree_shared_key E (eng_secret e) (eng_public f) = agree_shared_key E (eng_secret f) (eng_public e)"
    using assms(1,2) by (intro agree_key_pairs) (simp_all add: ends_def)
  moreover have "length (ses_key s) = kSessionKeyBytes"
    using s length_agree_shared_key [OF crypto_lawsD(3) [OF assms(1)]] by (auto simp: session_ok_def)
  ultimately show ?thesis using s t by (auto simp: session_ok_def paired_def)
qed

lemma session_for_exists:
  assumes "agree_shared_key E (eng_secret e) p \<noteq> None"
  shows "\<exists>s. session_for E e p s"
  using assms by (cases "eng_sessions e (to_hex p)") (auto simp: session_for_def new_session_valid)

text \<open>What a successful \<^verbatim>\<open>send\<close> leaves: one datagram, which is the sealed packet, and the history entry.\<close>

lemma send_True:
  assumes "send E p m e w = (True, e', w')"
  shows "\<exists>s dest q ts s' v v'. session_for E e p s \<and> encrypt_as E s PacketType.Message m v = (q, s', v') \<and>
    sent w' = sent w @ [(dest, serialize q)] \<and>
    st_messages (eng_contacts e') = st_messages (eng_contacts e) @
      [\<lparr>m_peer = p, m_text = string_of_bytes m, m_outgoing = True, m_timestamp = ts\<rparr>]"
proof -
  from send_eff [OF assms] obtain s st ds ts where "session_for E e p s" "eng_contacts e' = st"
    "sent w' = sent w @ ds" "sealed_dgs E s PacketType.Message m True ds"
    "st_messages st = st_messages (eng_contacts e) @
         [\<lparr>m_peer = p, m_text = string_of_bytes m, m_outgoing = True, m_timestamp = ts\<rparr>]" by auto
  then show ?thesis unfolding sealed_dgs_def sealed_for_def if_True by blast
qed

lemma sealed_message_facts:
  assumes "crypto_laws E" "ends E e f" "session_for E e (eng_public f) s"
    and enc: "encrypt_as E s PacketType.Message m v = (q, s', v')" and "length m + 40 < 65536"
  shows "wf_packet q" and "length (serialize q) = length m + 123"
    and "source q = eng_public e" and "ptype q = PacketType.Message" and "counter q = next_counter e (eng_public f)"
proof -
  have s: "session_ok E e (eng_public f) s" using assms(2,3) session_for_ok by (auto simp: ends_def)
  have len: "length (ses_key s) = kSessionKeyBytes"
    using s length_agree_shared_key [OF crypto_lawsD(3) [OF assms(1)]] by (auto simp: session_ok_def)
  have pk: "length (eng_public e) = 32" "length (eng_public f) = 32"
    using assms(2) unfolding ends_def key_pair_def crypto_sizes by blast+
  note p = encrypt_as_fields [OF enc] and laws = crypto_lawsD(1,2) [OF assms(1)]
  show "source q = eng_public e" "ptype q = PacketType.Message" "counter q = next_counter e (eng_public f)"
    using p s session_for_counter [OF assms(3)] by (simp_all add: session_ok_def)
  show "wf_packet q"
    by (rule encrypt_as_wf [OF laws _ len enc])
       (use s pk assms(5) in \<open>simp_all add: session_ok_def wf_type_def packet_type_of_def fits_u16_def\<close>)
  have "length (payload q) = length m + 40"
    using p(11) s length_seal [OF laws len] by (simp add: session_ok_def)
  then show "length (serialize q) = length m + 123"
    using p(6,7) s pk by (simp add: serialize_eq session_ok_def)
qed

section \<open>The worked example\<close>

definition toy_alice :: Engine where
  "toy_alice = (new_engine (pad 32 [1]) (pad 64 [1]))\<lparr>eng_relay := Some default_endpoint,
     eng_contacts := default_store\<lparr>st_contacts :=
       [\<lparr>c_key = pad 32 [2], c_nickname = ''bob'', c_trust = Accepted, c_last_seen = 0\<rparr>]\<rparr>\<rparr>"

lemma toy_send_to: "\<exists>s' w'. send_to toy_env s to d w = (True, s', w')"
  by (simp add: send_to_def resolve_def open_fd_def Let_def)

lemma toy_ends: "ends toy_env toy_alice toy_engine" "eng_public toy_alice = pad 32 [1]" "eng_public toy_engine = pad 32 [2]"
  by (simp_all add: ends_def toy_alice_def toy_engine_def new_engine_def sessions_ok_def)

lemma toy_send: "\<exists>e' w'. send toy_env (eng_public toy_engine) m toy_alice w = (True, e', w')"
proof -
  let ?s = "new_session toy_env (pad 32 [1]) (pad 64 [1]) (pad 32 [2])"
  have t: "store_trust_of (eng_contacts toy_alice) (pad 32 [2]) = Some Accepted"
    by (simp add: toy_alice_def store_trust_of_def)
  have "session_for toy_env toy_alice (pad 32 [2]) ?s"
    by (simp add: session_for_def toy_alice_def new_engine_def new_session_valid)
  note en = session_for_ensure [OF this]
  let ?e = "toy_alice\<lparr>eng_sessions := (eng_sessions toy_alice)(to_hex (pad 32 [2]) \<mapsto> ?s)\<rparr>"
  obtain q s' w1 where enc: "encrypt_as toy_env ?s PacketType.Message m w = (q, s', w1)" by (metis prod_cases3)
  have "eng_endpoints (put_session (pad 32 [2]) s' ?e) (to_hex (pad 32 [2])) = None"
      "eng_relay (put_session (pad 32 [2]) s' ?e) = Some default_endpoint"
    by (simp_all add: put_session_def toy_alice_def new_engine_def)
  then obtain e2 w2 where "send_packet toy_env (to_hex (pad 32 [2])) q (put_session (pad 32 [2]) s' ?e) w1 = (True, e2, w2)"
    using toy_send_to [of "eng_socket (put_session (pad 32 [2]) s' ?e)" default_endpoint "serialize q" w1]
    by (auto simp: send_packet_def engine_send_to_def)
  then have "send_encrypted toy_env (pad 32 [2]) ?s PacketType.Message m ?e w = (True, e2, w2)"
    by (simp add: send_encrypted_def enc)
  then show ?thesis by (simp add: send_def toy_ends t en split: prod.splits)
qed

section \<open>Properties\<close>

text \<open>
  (C9) End-to-end delivery: if two engines that accepted each other as contacts can agree on
  a key, and \<^verbatim>\<open>send\<close> reports success on one, then exactly one datagram went out, and that
  datagram, whenever and from whatever address it reaches the other engine with a fresh
  counter, is delivered: \<^verbatim>\<open>poll\<close>'s dispatch returns true, the plaintext is appended to the
  conversation with the sender and handed to the message callback; the sender's own
  history shows it as outgoing.
\<close>

theorem message_end_to_end:
  assumes "crypto_laws E" "ends E e f" "trust_of f (eng_public e) = Some Accepted"
    and "send E (eng_public f) m e w = (True, e', w')" "length m + 40 < 65536"
    and "fresh_counter (seen_of f (eng_public e)) (next_counter e (eng_public f))"
  shows "\<exists>dest b ts. sent w' = sent w @ [(dest, b)] \<and>
    st_messages (eng_contacts e') = st_messages (eng_contacts e) @
      [\<lparr>m_peer = eng_public f, m_text = string_of_bytes m, m_outgoing = True, m_timestamp = ts\<rparr>] \<and>
    (\<forall>src v. \<exists>f' v' ts'. dispatch E \<lparr>dg_from = src, dg_data = b\<rparr> f v = (True, f', v') \<and>
       st_messages (eng_contacts f') = st_messages (eng_contacts f) @
         [\<lparr>m_peer = eng_public e, m_text = string_of_bytes m, m_outgoing = False, m_timestamp = ts'\<rparr>] \<and>
       eng_events f' = eng_events f @ (if eng_message_handler f
         then [MessageEvent \<lparr>msg_peer = eng_public e, msg_plaintext = m, msg_outgoing = False\<rparr>] else []))"
proof -
  from send_True [OF assms(4)] obtain s dest q ts s' u u' where
    s: "session_for E e (eng_public f) s" "encrypt_as E s PacketType.Message m u = (q, s', u')"
    and out: "sent w' = sent w @ [(dest, serialize q)]"
      "st_messages (eng_contacts e') = st_messages (eng_contacts e) @
      [\<lparr>m_peer = eng_public f, m_text = string_of_bytes m, m_outgoing = True, m_timestamp = ts\<rparr>]" by blast
  note q = sealed_message_facts [OF assms(1,2) s assms(5)]
  have "agree_shared_key E (eng_secret f) (eng_public e) \<noteq> None"
  proof -
    have "session_ok E e (eng_public f) s" using assms(2) s(1) session_for_ok by (auto simp: ends_def)
    moreover have "agree_shared_key E (eng_secret e) (eng_public f) = agree_shared_key E (eng_secret f) (eng_public e)"
      using assms(1,2) by (intro agree_key_pairs) (simp_all add: ends_def)
    ultimately show ?thesis unfolding session_ok_def by (metis option.distinct(1))
  qed
  then obtain t where t: "session_for E f (eng_public e) t" using session_for_exists by blast
  have dec: "decrypt E t q = (Some m, t\<lparr>ses_have_received := True, ses_last_received := ses_send_counter s\<rparr>)"
    using decrypt_encrypt [OF crypto_lawsD(1,2) [OF assms(1)] ends_paired [OF assms(1,2) s(1) t] s(2)]
      assms(6) session_for_seen [OF t] session_for_counter [OF s(1)] by simp
  have d: "deserialize (dg_data \<lparr>dg_from = src, dg_data = serialize q\<rparr>) default_packet = (True, q)" for src
    using q(1) by simp
  from dispatch_message [OF d q(4) _ _ dec, unfolded q(3), OF assms(3) t]
  have "\<exists>f' v' ts'. dispatch E \<lparr>dg_from = src, dg_data = serialize q\<rparr> f v = (True, f', v') \<and>
       st_messages (eng_contacts f') = st_messages (eng_contacts f) @
         [\<lparr>m_peer = eng_public e, m_text = string_of_bytes m, m_outgoing = False, m_timestamp = ts'\<rparr>] \<and>
       eng_events f' = eng_events f @ (if eng_message_handler f
         then [MessageEvent \<lparr>msg_peer = eng_public e, msg_plaintext = m, msg_outgoing = False\<rparr>] else [])" for src v
    by meson
  with out show ?thesis by blast
qed

theorem message_end_to_end_witness:
  "\<exists>e' w' dest b. send toy_env (pad 32 [2]) [104, 105] toy_alice toy_world = (True, e', w') \<and>
     sent w' = [(dest, b)] \<and>
     (\<exists>f' v'. dispatch toy_env \<lparr>dg_from = default_endpoint, dg_data = b\<rparr> toy_engine toy_world = (True, f', v') \<and>
        eng_events f' = [MessageEvent \<lparr>msg_peer = pad 32 [1], msg_plaintext = [104, 105], msg_outgoing = False\<rparr>])"
proof -
  obtain e' w' where s: "send toy_env (eng_public toy_engine) [104, 105] toy_alice toy_world = (True, e', w')"
    using toy_send by blast
  have "trust_of toy_engine (eng_public toy_alice) = Some Accepted"
    "fresh_counter (seen_of toy_engine (eng_public toy_alice)) (next_counter toy_alice (eng_public toy_engine))"
    "length [104 :: byte, 105] + 40 < 65536"
    using toy_engine_sel(1) by (simp_all add: toy_ends seen_of_def toy_engine_def new_engine_def)
  from message_end_to_end [OF crypto_laws_toy toy_ends(1) this(1) s this(3,2)] obtain dest b where
    b: "sent w' = sent toy_world @ [(dest, b)]" and dl:
    "\<forall>src v. \<exists>f' v' ts'. dispatch toy_env \<lparr>dg_from = src, dg_data = b\<rparr> toy_engine v = (True, f', v') \<and>
       st_messages (eng_contacts f') = st_messages (eng_contacts toy_engine) @
         [\<lparr>m_peer = eng_public toy_alice, m_text = string_of_bytes [104, 105], m_outgoing = False, m_timestamp = ts'\<rparr>] \<and>
       eng_events f' = eng_events toy_engine @ (if eng_message_handler toy_engine
         then [MessageEvent \<lparr>msg_peer = eng_public toy_alice, msg_plaintext = [104, 105], msg_outgoing = False\<rparr>] else [])"
    by blast
  from dl [rule_format, of default_endpoint toy_world] obtain f' v' where
    "dispatch toy_env \<lparr>dg_from = default_endpoint, dg_data = b\<rparr> toy_engine toy_world = (True, f', v')"
    "eng_events f' = [MessageEvent \<lparr>msg_peer = pad 32 [1], msg_plaintext = [104, 105], msg_outgoing = False\<rparr>]"
    by (auto simp: toy_ends toy_engine_sel)
  with s b show ?thesis unfolding toy_ends(3) toy_world_def by auto
qed

text \<open>
  (C37) A long message is lost silently: when the sealed packet exceeds the 2048-byte receive
  buffer (a plaintext of more than 1925 bytes), \<^verbatim>\<open>send\<close> still reports success and records
  the message as sent, but the receiver sees only the first 2048 bytes of the datagram
  and drops it without any change of state.
\<close>

theorem long_message_lost:
  assumes "crypto_laws E" "ends E e f"
    and "send E (eng_public f) m e w = (True, e', w')" "length m + 40 < 65536"
    and "length m > 1925"
  shows "\<exists>dest b. sent w' = sent w @ [(dest, b)] \<and> length b > kReceiveBufferSize \<and>
    (\<forall>src v. dispatch E \<lparr>dg_from = src, dg_data = take kReceiveBufferSize b\<rparr> f v = (False, f, v))"
proof -
  from send_True [OF assms(3)] obtain s dest q s' u u' where
    s: "session_for E e (eng_public f) s" "encrypt_as E s PacketType.Message m u = (q, s', u')"
    and out: "sent w' = sent w @ [(dest, serialize q)]" by blast
  note q = sealed_message_facts [OF assms(1,2) s assms(4)]
  have long: "kReceiveBufferSize < length (serialize q)" using q(2) assms(5) by (simp add: kReceiveBufferSize_def)
  have "fst (parse (take kReceiveBufferSize (serialize q)) default_packet) \<noteq> Ok"
    using parse_serialize_truncated [OF q(1) long] by simp
  then have "fst (deserialize (take kReceiveBufferSize (serialize q)) default_packet) = False"
    by (simp add: deserialize_def case_prod_beta)
  then have "dispatch E \<lparr>dg_from = src, dg_data = take kReceiveBufferSize (serialize q)\<rparr> f v = (False, f, v)" for src v
    by (cases "deserialize (take kReceiveBufferSize (serialize q)) default_packet") (simp add: dispatch_def)
  with out long show ?thesis by blast
qed

theorem long_message_lost_witness:
  "\<exists>e' w' dest b. send toy_env (pad 32 [2]) (replicate 2000 0) toy_alice toy_world = (True, e', w') \<and>
     sent w' = [(dest, b)] \<and>
     dispatch toy_env \<lparr>dg_from = default_endpoint, dg_data = take kReceiveBufferSize b\<rparr> toy_engine toy_world
       = (False, toy_engine, toy_world)"
proof -
  obtain e' w' where s: "send toy_env (eng_public toy_engine) (replicate 2000 0) toy_alice toy_world = (True, e', w')"
    using toy_send by blast
  from long_message_lost [OF crypto_laws_toy toy_ends(1) s] obtain dest b where
    "sent w' = sent toy_world @ [(dest, b)]"
    "\<forall>src v. dispatch toy_env \<lparr>dg_from = src, dg_data = take kReceiveBufferSize b\<rparr> toy_engine v = (False, toy_engine, v)"
    by auto
  with s show ?thesis by (auto simp: toy_ends toy_world_def)
qed

text \<open>
  Two requests that cross get stuck: once a contact request has gone out to a peer, the peer's own
  request is ignored without a trace and the local user cannot accept it, so when both sides
  ask each other both wait for an answer that neither can give.
\<close>

theorem crossing_requests_stuck:
  assumes "send_contact_request E p ep g e w = (True, e', w')" "to_hex p \<notin> eng_incoming e"
  shows "handle_contact_request E p g' e' v = (e', v) \<and> fst (accept_contact E p e' v) = False"
proof -
  from send_contact_request_eff [OF assms(1)] have "trust_of e' p = Some Pending" "eng_incoming e' = eng_incoming e"
    by (auto simp: trust_of_def trust_change_def)
  then show ?thesis using assms(2)
    by (simp add: handle_contact_request_def accept_contact_def decide_contact_def trust_of_def Let_def)
qed

end
