(* ===== verification/Handshake.thy ===== *)
theory Handshake
  imports EndToEnd
begin

text \<open>
  Two engines becoming contacts: a request sent by one surfaces at the other, the other's
  acceptance reaches the first, and from then on both accept each other's messages.
\<close>

section \<open>A sealed packet of any type arrives\<close>

lemma sealed_facts:
  assumes "crypto_laws E" "ends E e f" "session_for E e (eng_public f) s"
    and enc: "sealed_for E s ty m q" and "length m + 40 < 65536" "wf_type ty"
  shows "wf_packet q" and "source q = eng_public e" and "ptype q = ty"
    and "counter q = next_counter e (eng_public f)"
proof -
  obtain v s' v' where enc: "encrypt_as E s ty m v = (q, s', v')" using enc unfolding sealed_for_def by blast
  have s: "session_ok E e (eng_public f) s" using assms(2,3) session_for_ok by (auto simp: ends_def)
  have len: "length (ses_key s) = kSessionKeyBytes"
    using s length_agree_shared_key [OF crypto_lawsD(3) [OF assms(1)]] by (auto simp: session_ok_def)
  have pk: "length (eng_public e) = 32" "length (eng_public f) = 32"
    using assms(2) unfolding ends_def key_pair_def crypto_sizes by blast+
  note p = encrypt_as_fields [OF enc] and laws = crypto_lawsD(1,2) [OF assms(1)]
  show "source q = eng_public e" "ptype q = ty" "counter q = next_counter e (eng_public f)"
    using p s session_for_counter [OF assms(3)] by (simp_all add: session_ok_def)
  show "wf_packet q"
    by (rule encrypt_as_wf [OF laws _ len enc])
       (use s pk assms(5,6) in \<open>simp_all add: session_ok_def fits_u16_def\<close>)
qed

lemma ends_sym: "ends E e f \<Longrightarrow> ends E f e"
  by (auto simp: ends_def)

lemma ends_session_for:
  assumes "crypto_laws E" "ends E e f" "session_for E e (eng_public f) s"
  shows "\<exists>t. session_for E f (eng_public e) t"
proof -
  have "session_ok E e (eng_public f) s" using assms(2,3) session_for_ok by (auto simp: ends_def)
  moreover have "agree_shared_key E (eng_secret e) (eng_public f) = agree_shared_key E (eng_secret f) (eng_public e)"
    using assms(1,2) by (intro agree_key_pairs) (simp_all add: ends_def)
  ultimately have "agree_shared_key E (eng_secret f) (eng_public e) \<noteq> None"
    unfolding session_ok_def by (metis option.distinct(1))
  then show ?thesis by (rule session_for_exists)
qed

text \<open>The engine in front of the handler: the session has moved on to the packet's counter.\<close>

definition received_from :: "bytes \<Rightarrow> u64 \<Rightarrow> Session \<Rightarrow> Engine \<Rightarrow> Engine \<Rightarrow> bool" where
  "received_from p c t f f1 \<longleftrightarrow> (\<exists>eps. f1 = f\<lparr>eng_sessions := (eng_sessions f)(to_hex p \<mapsto>
     t\<lparr>ses_have_received := True, ses_last_received := c\<rparr>), eng_endpoints := eps\<rparr>)"

lemma sealed_arrives:
  assumes laws: "crypto_laws E" and en: "ends E e f" and s: "session_for E e (eng_public f) s"
    and q: "sealed_for E s ty m q" and m: "length m + 40 < 65536"
    and ty: "ty = ContactRequest \<or> ty = ContactResponse"
    and fresh: "fresh_counter (seen_of f (eng_public e)) (next_counter e (eng_public f))"
  shows "\<exists>t f1. session_for E f (eng_public e) t \<and>
    received_from (eng_public e) (next_counter e (eng_public f)) t f f1 \<and>
    dispatch E \<lparr>dg_from = src, dg_data = serialize q\<rparr> f v = (True,
      (if ty = ContactRequest then handle_contact_request E (eng_public e) m f1 v
       else handle_contact_response E (eng_public e) m f1 v))"
proof -
  have wt: "wf_type ty" using ty by (auto simp: wf_type_def packet_type_of_def)
  note sq = sealed_facts [OF laws en s q m wt]
  obtain u s' u' where enc: "encrypt_as E s ty m u = (q, s', u')" using q unfolding sealed_for_def by blast
  obtain t where t: "session_for E f (eng_public e) t" using ends_session_for [OF laws en s] by blast
  let ?t = "t\<lparr>ses_have_received := True, ses_last_received := next_counter e (eng_public f)\<rparr>"
  have dec: "decrypt E t q = (Some m, ?t)"
    using decrypt_encrypt [OF crypto_lawsD(1,2) [OF laws] ends_paired [OF laws en s t] enc]
      fresh session_for_seen [OF t] session_for_counter [OF s] by simp
  have d: "deserialize (serialize q) default_packet = (True, q)" using sq(1) by simp
  let ?f = "f\<lparr>eng_sessions := (eng_sessions f)(to_hex (eng_public e) \<mapsto> ?t)\<rparr>"
  define eps where "eps = (if (case eng_probes ?f (to_hex (eng_public e)) of None \<Rightarrow> True | Some p \<Rightarrow> \<not> pr_confirmed p)
     then (eng_endpoints ?f)(to_hex (eng_public e) \<mapsto> src) else eng_endpoints ?f)"
  have "dispatch E \<lparr>dg_from = src, dg_data = serialize q\<rparr> f v = deliver E q m src ?f v"
    using d ty sq session_for_ensure [OF t] dec by (auto simp: dispatch_def put_session_def Let_def)
  also have "\<dots> = (True, (if ty = ContactRequest then handle_contact_request E (eng_public e) m (?f\<lparr>eng_endpoints := eps\<rparr>) v
       else handle_contact_response E (eng_public e) m (?f\<lparr>eng_endpoints := eps\<rparr>) v))"
    using ty sq by (auto simp: deliver_def eps_def Let_def split: option.splits)
  finally show ?thesis using t unfolding received_from_def by blast
qed

text \<open>What receiving and sending leave for the peer: last counter seen and next counter used.\<close>

lemma received_from_facts:
  assumes "received_from p c t f f1" "session_for E f p t"
  shows "seen_of f1 p = Some c" "next_counter f1 p = next_counter f p" "trust_of f1 = trust_of f"
    "eng_incoming f1 = eng_incoming f" "eng_outgoing f1 = eng_outgoing f" "eng_events f1 = eng_events f"
    "eng_request_handler f1 = eng_request_handler f" "eng_response_handler f1 = eng_response_handler f"
    "eng_contacts f1 = eng_contacts f" "eng_public f1 = eng_public f" "session_step E f f1"
    "eng_relay f1 = eng_relay f"
proof -
  obtain eps where f1: "f1 = f\<lparr>eng_sessions := (eng_sessions f)(to_hex p \<mapsto>
     t\<lparr>ses_have_received := True, ses_last_received := c\<rparr>), eng_endpoints := eps\<rparr>"
    using assms(1) unfolding received_from_def by blast
  show "seen_of f1 p = Some c" by (simp add: f1 seen_of_def last_seen_def)
  show "next_counter f1 p = next_counter f p"
    using session_for_counter [OF assms(2)] by (simp add: f1 next_counter_def)
  show "trust_of f1 = trust_of f" by (rule trust_of_cong) (simp add: f1)
  show "session_step E f f1" using assms(2) by (intro session_stepI(2)) (simp_all add: f1 same_keys_def)
qed (use assms(1) in \<open>auto simp: received_from_def\<close>)

lemma ends_step: "ends E e f \<Longrightarrow> session_step E f f' \<Longrightarrow> ends E e f'"
  using session_step_ok by (auto simp: ends_def) (auto simp: session_step_def)

lemma ends_step': "ends E e f \<Longrightarrow> session_step E e e' \<Longrightarrow> ends E e' f"
  using ends_step ends_sym by blast

lemma seen_next_cong:
  "eng_sessions e' = eng_sessions e \<Longrightarrow> seen_of e' p = seen_of e p \<and> next_counter e' p = next_counter e p"
  by (simp add: seen_of_def next_counter_def)

lemma seen_next_bump:
  assumes "session_for E e p s" "eng_sessions e' = (eng_sessions e)(to_hex p \<mapsto> bump s)"
  shows "seen_of e' p = seen_of e p \<and> next_counter e' p = next_counter e p + 1"
proof
  have "seen_of e' p = last_seen (bump s)" using assms(2) by (simp add: seen_of_def)
  then show "seen_of e' p = seen_of e p" using session_for_seen [OF assms(1)] by simp
  have "next_counter e' p = ses_send_counter s + 1" using assms(2) by (simp add: next_counter_def bump_def)
  then show "next_counter e' p = next_counter e p + 1" using session_for_counter [OF assms(1)] by simp
qed

section \<open>The three steps\<close>

text \<open>Two engines that accept each other and whose next messages will both be fresh.\<close>

definition can_talk :: "env \<Rightarrow> Engine \<Rightarrow> Engine \<Rightarrow> bool" where
  "can_talk E e f \<longleftrightarrow> ends E e f \<and> trust_of e (eng_public f) = Some Accepted \<and> trust_of f (eng_public e) = Some Accepted \<and>
     fresh_counter (seen_of f (eng_public e)) (next_counter e (eng_public f)) \<and>
     fresh_counter (seen_of e (eng_public f)) (next_counter f (eng_public e))"

lemma request_sent:
  assumes "send_contact_request E p ep g e w = (True, e1, w1)"
  obtains s d q where "session_for E e p s" "sealed_for E s ContactRequest g q" "sent w1 = sent w @ [(d, serialize q)]"
    "trust_of e1 p = Some Pending" "to_hex p \<in> eng_outgoing e1" "session_step E e e1"
    "seen_of e1 p = seen_of e p" "next_counter e1 p = next_counter e p + 1"
    "eng_events e1 = eng_events e" "eng_response_handler e1 = eng_response_handler e"
proof -
  from send_contact_request_eff [OF assms] obtain s st sock ds where s: "session_for E e p s"
    "trust_change p Pending (eng_contacts e) st"
    "e1 = e\<lparr>eng_sessions := (eng_sessions e)(to_hex p \<mapsto> bump s),
             eng_endpoints := (eng_endpoints e)(to_hex p \<mapsto> ep),
             eng_outgoing := insert (to_hex p) (eng_outgoing e), eng_contacts := st, eng_socket := sock\<rparr>"
    "sent w1 = sent w @ ds" "sealed_dgs E s ContactRequest g True ds" by blast
  then obtain d q where q: "ds = [(d, serialize q)]" "sealed_for E s ContactRequest g q"
    unfolding sealed_dgs_def if_True by blast
  show thesis
  proof (rule that [OF s(1) q(2)])
    show "sent w1 = sent w @ [(d, serialize q)]" using s(4) q(1) by simp
    show "trust_of e1 p = Some Pending" using s(2) by (simp add: s(3) trust_of_def trust_change_def)
    show "session_step E e e1" by (rule session_stepI(2) [OF _ _ s(1), of _ "bump s"]) (simp_all add: s(3))
    show "seen_of e1 p = seen_of e p" "next_counter e1 p = next_counter e p + 1"
      using seen_next_bump [OF s(1), of e1] by (simp_all add: s(3))
  qed (simp_all add: s(3))
qed

lemma decision_sent:
  assumes "decide_contact E t d p f v = (True, f1, v1)"
  obtains s a q where "session_for E f p s" "sealed_for E s ContactResponse [d] q" "sent v1 = sent v @ [(a, serialize q)]"
    "trust_of f1 p = Some t" "session_step E f f1"
    "seen_of f1 p = seen_of f p" "next_counter f1 p = next_counter f p + 1" "eng_events f1 = eng_events f"
proof -
  from decide_contact_eff [OF assms] obtain s st sock ds where s: "session_for E f p s"
    "decision_change p t (eng_contacts f) st"
    "f1 = f\<lparr>eng_sessions := (eng_sessions f)(to_hex p \<mapsto> bump s),
             eng_incoming := eng_incoming f - {to_hex p}, eng_contacts := st, eng_socket := sock\<rparr>"
    "sent v1 = sent v @ ds" "sealed_dgs E s ContactResponse [d] True ds" unfolding decided_def by blast
  then obtain a q where q: "ds = [(a, serialize q)]" "sealed_for E s ContactResponse [d] q"
    unfolding sealed_dgs_def if_True by blast
  show thesis
  proof (rule that [OF s(1) q(2)])
    show "sent v1 = sent v @ [(a, serialize q)]" using s(4) q(1) by simp
    show "trust_of f1 p = Some t" using s(2) by (simp add: s(3) trust_of_def decision_change_def)
    show "session_step E f f1" by (rule session_stepI(2) [OF _ _ s(1), of _ "bump s"]) (simp_all add: s(3))
    show "seen_of f1 p = seen_of f p" "next_counter f1 p = next_counter f p + 1"
      using seen_next_bump [OF s(1), of f1] by (simp_all add: s(3))
  qed (simp_all add: s(3))
qed

text \<open>The request arrives, and is shown.\<close>

lemma request_arrives:
  assumes "crypto_laws E" "ends E e f" "session_for E e (eng_public f) s"
    and "sealed_for E s ContactRequest g q" "length g + 40 < 65536"
    and "trust_of f (eng_public e) = None" "to_hex (eng_public e) \<notin> eng_incoming f"
    and "fresh_counter (seen_of f (eng_public e)) (next_counter e (eng_public f))"
  shows "\<exists>f1 v1. dispatch E \<lparr>dg_from = src, dg_data = serialize q\<rparr> f v = (True, f1, v1) \<and> sent v1 = sent v \<and>
    trust_of f1 (eng_public e) = Some Pending \<and> to_hex (eng_public e) \<in> eng_incoming f1 \<and>
    eng_events f1 = eng_events f @ (if eng_request_handler f then [RequestEvent (eng_public e) g] else []) \<and>
    session_step E f f1 \<and> seen_of f1 (eng_public e) = Some (next_counter e (eng_public f)) \<and>
    next_counter f1 (eng_public e) = next_counter f (eng_public e) \<and> eng_relay f1 = eng_relay f"
proof -
  let ?p = "eng_public e"
  from sealed_arrives [OF assms(1-5) _ assms(8), of src v] obtain t f0 where t: "session_for E f ?p t"
    "received_from ?p (next_counter e (eng_public f)) t f f0"
    and d: "dispatch E \<lparr>dg_from = src, dg_data = serialize q\<rparr> f v = (True, handle_contact_request E ?p g f0 v)" by auto
  note f0 = received_from_facts [OF t(2,1)]
  obtain f1 v1 where h: "handle_contact_request E ?p g f0 v = (f1, v1)" by fastforce
  have "\<not> (trust_of f0 ?p \<noteq> None \<or> to_hex ?p \<in> eng_incoming f0)" using assms(6,7) f0 by simp
  with handle_contact_request_eff [OF h] obtain st where f1:
    "f1 = f0\<lparr>eng_incoming := insert (to_hex ?p) (eng_incoming f0), eng_contacts := st,
          eng_events := eng_events f0 @ (if eng_request_handler f0 then [RequestEvent ?p g] else [])\<rparr>"
    "sent v1 = sent v" "request_change ?p g (eng_contacts f0) st" by auto
  have "trust_of f1 ?p = Some Pending" using f1(3) by (simp add: f1(1) trust_of_def request_change_def)
  moreover have "session_step E f f1" using f0(11) by (simp add: session_step_def f1(1))
  moreover have "seen_of f1 ?p = seen_of f0 ?p \<and> next_counter f1 ?p = next_counter f0 ?p"
    by (rule seen_next_cong) (simp add: f1(1))
  ultimately show ?thesis using d h f0 f1(2) by (simp add: f1(1))
qed

text \<open>The answer arrives, and settles the request.\<close>

lemma answer_arrives:
  assumes "crypto_laws E" "ends E f e" "session_for E f (eng_public e) s"
    and "sealed_for E s ContactResponse [d] q" "to_hex (eng_public f) \<in> eng_outgoing e"
    and "fresh_counter (seen_of e (eng_public f)) (next_counter f (eng_public e))"
  shows "\<exists>e1 u1. dispatch E \<lparr>dg_from = src, dg_data = serialize q\<rparr> e u = (True, e1, u1) \<and> sent u1 = sent u \<and>
    trust_of e1 (eng_public f) = Some (if d = kAccept then Accepted else Rejected) \<and>
    eng_events e1 = eng_events e @ (if eng_response_handler e then [ResponseEvent (eng_public f) (d = kAccept)] else []) \<and>
    session_step E e e1 \<and> seen_of e1 (eng_public f) = Some (next_counter f (eng_public e)) \<and>
    next_counter e1 (eng_public f) = next_counter e (eng_public f)"
proof -
  let ?p = "eng_public f"
  have "length [d] + 40 < 65536" by simp
  from sealed_arrives [OF assms(1-4) this _ assms(6), of src u] obtain t e0 where t: "session_for E e ?p t"
    "received_from ?p (next_counter f (eng_public e)) t e e0"
    and dp: "dispatch E \<lparr>dg_from = src, dg_data = serialize q\<rparr> e u = (True, handle_contact_response E ?p [d] e0 u)" by auto
  note e0 = received_from_facts [OF t(2,1)]
  obtain e1 u1 where h: "handle_contact_response E ?p [d] e0 u = (e1, u1)" by fastforce
  have "to_hex ?p \<in> eng_outgoing e0" using assms(5) e0 by simp
  moreover have d: "([d] \<noteq> [] \<and> [d] ! 0 = kAccept) \<longleftrightarrow> d = kAccept" by simp
  ultimately obtain st where e1: "e1 = e0\<lparr>eng_outgoing := eng_outgoing e0 - {to_hex ?p}, eng_contacts := st,
        eng_events := eng_events e0 @ (if eng_response_handler e0 then [ResponseEvent ?p (d = kAccept)] else [])\<rparr>"
    "sent u1 = sent u" "trust_change ?p (if d = kAccept then Accepted else Rejected) (eng_contacts e0) st"
    using handle_contact_response_eff [OF h, unfolded d] by auto
  have "trust_of e1 ?p = Some (if d = kAccept then Accepted else Rejected)"
    using e1(3) by (simp add: e1(1) trust_of_def trust_change_def)
  moreover have "session_step E e e1" using e0(11) by (simp add: session_step_def e1(1))
  moreover have "seen_of e1 ?p = seen_of e0 ?p \<and> next_counter e1 ?p = next_counter e0 ?p"
    by (rule seen_next_cong) (simp add: e1(1))
  ultimately show ?thesis using dp h e0 e1(2) by (simp add: e1(1))
qed

text \<open>From the surfaced request on: the acceptance completes the introduction.\<close>

lemma word_less_succ: "c \<noteq> - 1 \<Longrightarrow> c < c + 1" for c :: u64
  by (metis add.commute add_eq_0_iff lessI unatSuc word_less_nat_alt)

lemma acceptance_completes:
  assumes "crypto_laws E" "ends E e f"
    and e1: "session_step E e e1" "to_hex (eng_public f) \<in> eng_outgoing e1"
      "seen_of e1 (eng_public f) = seen_of e (eng_public f)"
      "next_counter e1 (eng_public f) = next_counter e (eng_public f) + 1"
    and f1: "session_step E f f1" "seen_of f1 (eng_public e) = Some (next_counter e (eng_public f))"
      "next_counter f1 (eng_public e) = next_counter f (eng_public e)"
    and fresh: "fresh_counter (seen_of e (eng_public f)) (next_counter f (eng_public e))"
    and room: "next_counter e (eng_public f) \<noteq> - 1" "next_counter f (eng_public e) \<noteq> - 1"
    and ac: "accept_contact E (eng_public e) f1 x = (True, f2, x2)"
  shows "\<exists>c d. sent x2 = sent x @ [(c, d)] \<and>
    (\<forall>src u. \<exists>e2 u2. dispatch E \<lparr>dg_from = src, dg_data = d\<rparr> e1 u = (True, e2, u2) \<and>
       eng_events e2 = eng_events e1 @ (if eng_response_handler e1 then [ResponseEvent (eng_public f) True] else []) \<and>
       can_talk E e2 f2)"
proof -
  let ?e = "eng_public e" and ?f = "eng_public f"
  have pub: "eng_public e1 = ?e" "eng_public f1 = ?f" using e1(1) f1(1) by (auto simp: session_step_def)
  have en: "ends E f1 e1" using ends_sym [OF ends_step [OF ends_step' [OF assms(2) e1(1)] f1(1)]] .
  obtain t c r where t: "session_for E f1 ?e t" "sealed_for E t ContactResponse [kAccept] r"
      "sent x2 = sent x @ [(c, serialize r)]" "trust_of f2 ?e = Some Accepted" "session_step E f1 f2"
      "seen_of f2 ?e = seen_of f1 ?e" "next_counter f2 ?e = next_counter f1 ?e + 1" "eng_events f2 = eng_events f1"
    by (rule decision_sent [OF ac [unfolded accept_contact_def]])
  have fresh1: "fresh_counter (seen_of e1 ?f) (next_counter f1 ?e)" using fresh e1(3) f1(3) by simp
  have "\<exists>e2 u2. dispatch E \<lparr>dg_from = src, dg_data = serialize r\<rparr> e1 u = (True, e2, u2) \<and>
      eng_events e2 = eng_events e1 @ (if eng_response_handler e1 then [ResponseEvent ?f True] else []) \<and>
      can_talk E e2 f2" for src u
  proof -
    from answer_arrives [OF assms(1) en, unfolded pub, OF t(1,2) e1(2) fresh1, of src u] obtain e2 u2 where e2:
      "dispatch E \<lparr>dg_from = src, dg_data = serialize r\<rparr> e1 u = (True, e2, u2)" "trust_of e2 ?f = Some Accepted"
      "eng_events e2 = eng_events e1 @ (if eng_response_handler e1 then [ResponseEvent ?f True] else [])"
      "session_step E e1 e2" "seen_of e2 ?f = Some (next_counter f1 ?e)" "next_counter e2 ?f = next_counter e1 ?f"
      by auto
    have "ends E e2 f2" using ends_sym [OF ends_step [OF ends_step' [OF en t(5)] e2(4)]] .
    moreover have "eng_public e2 = ?e" "eng_public f2 = ?f"
      using e2(4) t(5) pub by (auto simp: session_step_def)
    ultimately have "can_talk E e2 f2"
      using e2(2,5,6) t(4,6,7) f1(2,3) e1(4) word_less_succ [OF room(1)] word_less_succ [OF room(2)]
      by (simp add: can_talk_def fresh_counter_def)
    then show ?thesis using e2(1,3) by blast
  qed
  with t(3) show ?thesis by blast
qed

section \<open>When sending succeeds\<close>

definition socket_works :: "env \<Rightarrow> bool" where
  "socket_works E \<longleftrightarrow> (\<forall>s to d w. fst (send_to E s to d w))"

lemma send_encrypted_works:
  assumes "socket_works E" "eng_endpoints e (to_hex p) \<noteq> None \<or> eng_relay e \<noteq> None"
  shows "\<exists>e' w'. send_encrypted E p s ty m e w = (True, e', w')"
proof -
  obtain q s' w1 where q: "encrypt_as E s ty m w = (q, s', w1)" by (metis prod_cases3)
  let ?e = "put_session p s' e"
  obtain d where d: "(case eng_endpoints ?e (to_hex p) of Some ep \<Rightarrow> Some ep | None \<Rightarrow> eng_relay ?e) = Some d"
    using assms(2) by (cases "eng_endpoints e (to_hex p)") (auto simp: put_session_def)
  have "fst (send_to E (eng_socket ?e) d (serialize q) w1)" using assms(1) by (simp add: socket_works_def)
  with q d show ?thesis
    by (auto simp: send_encrypted_def send_packet_def engine_send_to_def split: prod.splits)
qed

lemma send_contact_request_works:
  assumes "socket_works E" "trust_of e p \<noteq> Some Accepted" "session_for E e p s"
  shows "\<exists>e' w'. send_contact_request E p ep g e w = (True, e', w')"
proof -
  let ?e = "e\<lparr>eng_sessions := (eng_sessions e)(to_hex p \<mapsto> s), eng_endpoints := (eng_endpoints e)(to_hex p \<mapsto> ep),
      eng_outgoing := insert (to_hex p) (eng_outgoing e)\<rparr>"
  obtain e2 w2 where st: "set_trust E p Pending ?e w = (e2, w2)" by fastforce
  from set_trust_eff [OF st] have "eng_endpoints e2 (to_hex p) \<noteq> None" by auto
  then obtain e3 w3 where "send_encrypted E p s ContactRequest g e2 w2 = (True, e3, w3)"
    using send_encrypted_works [OF assms(1)] by blast
  with st show ?thesis using assms(2) session_for_ensure [OF assms(3)]
    by (simp add: send_contact_request_def trust_of_def Let_def)
qed

lemma decide_contact_works:
  assumes "socket_works E" "to_hex p \<in> eng_incoming e" "session_for E e p s" "eng_relay e \<noteq> None"
  shows "\<exists>e' w'. decide_contact E t d p e w = (True, e', w')"
proof -
  let ?e = "e\<lparr>eng_sessions := (eng_sessions e)(to_hex p \<mapsto> s), eng_incoming := eng_incoming e - {to_hex p}\<rparr>"
  let ?u = "store_remove_request E p (eng_contacts e) w"
  obtain e2 w2 where st: "set_trust E p t (?e\<lparr>eng_contacts := fst ?u\<rparr>) (snd ?u) = (e2, w2)" by fastforce
  from set_trust_eff [OF st] have "eng_relay e2 \<noteq> None" using assms(4) by auto
  then obtain e3 w3 where "send_encrypted E p s ContactResponse [d] e2 w2 = (True, e3, w3)"
    using send_encrypted_works [OF assms(1)] by blast
  with st show ?thesis using assms(2) session_for_ensure [OF assms(3)]
    by (cases ?u) (simp add: decide_contact_def Let_def)
qed

section \<open>Properties\<close>

text \<open>
  (C6) Becoming contacts: between two engines that can agree on a key, where one has never
  heard of the other, a contact request reported as sent is exactly one datagram, and
  whatever address it comes from it is shown to the other user as a pending request with its
  greeting.  If that user accepts and the answer is reported as sent, the answer too is one
  datagram; when it reaches the requester, the requester is told of the acceptance, both
  sides trust each other, and the next message of either side will be accepted as fresh.
\<close>

theorem contact_handshake:
  assumes "crypto_laws E" "ends E e f" "length g + 40 < 65536"
    and "trust_of f (eng_public e) = None" "to_hex (eng_public e) \<notin> eng_incoming f"
    and "fresh_counter (seen_of f (eng_public e)) (next_counter e (eng_public f))"
    and "fresh_counter (seen_of e (eng_public f)) (next_counter f (eng_public e))"
    and "next_counter e (eng_public f) \<noteq> - 1" "next_counter f (eng_public e) \<noteq> - 1"
    and "send_contact_request E (eng_public f) ep g e w = (True, e1, w1)"
  shows "\<exists>a b. sent w1 = sent w @ [(a, b)] \<and> trust_of e1 (eng_public f) = Some Pending \<and>
    (\<forall>src v. \<exists>f1 v1. dispatch E \<lparr>dg_from = src, dg_data = b\<rparr> f v = (True, f1, v1) \<and>
       trust_of f1 (eng_public e) = Some Pending \<and>
       eng_events f1 = eng_events f @ (if eng_request_handler f then [RequestEvent (eng_public e) g] else []) \<and>
       (\<forall>x f2 x2. accept_contact E (eng_public e) f1 x = (True, f2, x2) \<longrightarrow>
          (\<exists>c d. sent x2 = sent x @ [(c, d)] \<and>
             (\<forall>src' u. \<exists>e2 u2. dispatch E \<lparr>dg_from = src', dg_data = d\<rparr> e1 u = (True, e2, u2) \<and>
                eng_events e2 = eng_events e @ (if eng_response_handler e then [ResponseEvent (eng_public f) True] else []) \<and>
                can_talk E e2 f2))))"
proof -
  let ?e = "eng_public e" and ?f = "eng_public f"
  obtain s a q where s: "session_for E e ?f s" "sealed_for E s ContactRequest g q"
      "sent w1 = sent w @ [(a, serialize q)]" "trust_of e1 ?f = Some Pending" "to_hex ?f \<in> eng_outgoing e1"
      "session_step E e e1" "seen_of e1 ?f = seen_of e ?f" "next_counter e1 ?f = next_counter e ?f + 1"
      "eng_events e1 = eng_events e" "eng_response_handler e1 = eng_response_handler e"
    by (rule request_sent [OF assms(10)])
  have first: "\<exists>f1 v1. dispatch E \<lparr>dg_from = src, dg_data = serialize q\<rparr> f v = (True, f1, v1) \<and>
       trust_of f1 ?e = Some Pending \<and>
       eng_events f1 = eng_events f @ (if eng_request_handler f then [RequestEvent ?e g] else []) \<and>
       (\<forall>x f2 x2. accept_contact E ?e f1 x = (True, f2, x2) \<longrightarrow>
          (\<exists>c d. sent x2 = sent x @ [(c, d)] \<and>
             (\<forall>src' u. \<exists>e2 u2. dispatch E \<lparr>dg_from = src', dg_data = d\<rparr> e1 u = (True, e2, u2) \<and>
                eng_events e2 = eng_events e @ (if eng_response_handler e then [ResponseEvent ?f True] else []) \<and>
                can_talk E e2 f2)))" for src v
  proof -
    from request_arrives [OF assms(1,2) s(1,2) assms(3-6), of src v] obtain f1 v1 where f1:
      "dispatch E \<lparr>dg_from = src, dg_data = serialize q\<rparr> f v = (True, f1, v1)" "trust_of f1 ?e = Some Pending"
      "eng_events f1 = eng_events f @ (if eng_request_handler f then [RequestEvent ?e g] else [])"
      "session_step E f f1" "seen_of f1 ?e = Some (next_counter e ?f)" "next_counter f1 ?e = next_counter f ?e" by blast
    from acceptance_completes [OF assms(1,2) s(6,5,7,8) f1(4-6) assms(7-9)]
    show ?thesis using f1(1-3) unfolding s(9,10) by blast
  qed
  show ?thesis using s(3,4) first by blast
qed

text \<open>Two strangers with working sockets: the introduction runs to its end.\<close>

definition toy_carol :: Engine where
  "toy_carol = (new_engine (pad 32 [3]) (pad 64 [3]))\<lparr>eng_response_handler := True\<rparr>"

definition toy_dave :: Engine where
  "toy_dave = (new_engine (pad 32 [4]) (pad 64 [4]))\<lparr>eng_request_handler := True, eng_relay := Some default_endpoint\<rparr>"

lemma toy_strangers:
  "ends toy_env toy_carol toy_dave" "eng_public toy_carol = pad 32 [3]" "eng_public toy_dave = pad 32 [4]"
  "trust_of toy_carol p = None" "trust_of toy_dave p = None" "eng_incoming toy_dave = {}"
  "seen_of toy_carol p = None" "seen_of toy_dave p = None" "next_counter toy_carol p = 0" "next_counter toy_dave p = 0"
  "eng_request_handler toy_dave = True" "eng_response_handler toy_carol = True" "eng_events toy_dave = []" "eng_events toy_carol = []"
  by (simp_all add: ends_def toy_carol_def toy_dave_def new_engine_def sessions_ok_def trust_of_def
      store_trust_of_def default_store_def seen_of_def next_counter_def)

lemma toy_socket_works: "socket_works toy_env"
proof -
  have "fst (send_to toy_env s to d w)" for s to d w using toy_send_to [of s to d w] by auto
  then show ?thesis by (simp add: socket_works_def)
qed

theorem contact_handshake_witness:
  "\<exists>e1 w1 a b f1 v1 f2 v2 c d e2 u2.
     send_contact_request toy_env (pad 32 [4]) default_endpoint [104, 105] toy_carol toy_world = (True, e1, w1) \<and>
     sent w1 = [(a, b)] \<and>
     dispatch toy_env \<lparr>dg_from = default_endpoint, dg_data = b\<rparr> toy_dave toy_world = (True, f1, v1) \<and>
     eng_events f1 = [RequestEvent (pad 32 [3]) [104, 105]] \<and>
     accept_contact toy_env (pad 32 [3]) f1 toy_world = (True, f2, v2) \<and> sent v2 = [(c, d)] \<and>
     dispatch toy_env \<lparr>dg_from = default_endpoint, dg_data = d\<rparr> e1 toy_world = (True, e2, u2) \<and>
     eng_events e2 = [ResponseEvent (pad 32 [4]) True] \<and> can_talk toy_env e2 f2"
proof -
  have sf: "\<exists>s. session_for toy_env toy_carol (pad 32 [4]) s"
    by (rule session_for_exists) (simp add: toy_carol_def new_engine_def)
  have t0: "trust_of toy_carol (pad 32 [4]) \<noteq> Some Accepted" by (simp add: toy_strangers)
  obtain e1 w1 where req: "send_contact_request toy_env (eng_public toy_dave) default_endpoint [104, 105] toy_carol toy_world
      = (True, e1, w1)" using send_contact_request_works [OF toy_socket_works t0] sf unfolding toy_strangers(3) by blast
  have len: "length [104 :: byte, 105] + 40 < 65536" by simp
  have out: "sent toy_world = []" by (simp add: toy_world_def)
  have pre: "trust_of toy_dave (eng_public toy_carol) = None" "to_hex (eng_public toy_carol) \<notin> eng_incoming toy_dave"
    "fresh_counter (seen_of toy_dave (eng_public toy_carol)) (next_counter toy_carol (eng_public toy_dave))"
    "fresh_counter (seen_of toy_carol (eng_public toy_dave)) (next_counter toy_dave (eng_public toy_carol))"
    "next_counter toy_carol (eng_public toy_dave) \<noteq> - 1" "next_counter toy_dave (eng_public toy_carol) \<noteq> - 1"
    by (simp_all add: toy_strangers)
  from contact_handshake [OF crypto_laws_toy toy_strangers(1) len pre req] obtain a b where b: "sent w1 = [(a, b)]"
    and rest: "\<forall>src v. \<exists>f1 v1. dispatch toy_env \<lparr>dg_from = src, dg_data = b\<rparr> toy_dave v = (True, f1, v1) \<and>
       trust_of f1 (pad 32 [3]) = Some Pending \<and> eng_events f1 = [RequestEvent (pad 32 [3]) [104, 105]] \<and>
       (\<forall>x f2 x2. accept_contact toy_env (pad 32 [3]) f1 x = (True, f2, x2) \<longrightarrow>
          (\<exists>c d. sent x2 = sent x @ [(c, d)] \<and>
             (\<forall>src' u. \<exists>e2 u2. dispatch toy_env \<lparr>dg_from = src', dg_data = d\<rparr> e1 u = (True, e2, u2) \<and>
                eng_events e2 = [ResponseEvent (pad 32 [4]) True] \<and> can_talk toy_env e2 f2)))"
    unfolding toy_strangers out append_Nil if_True by blast
  from rest [rule_format, of default_endpoint toy_world] obtain f1 v1 where
    d1: "dispatch toy_env \<lparr>dg_from = default_endpoint, dg_data = b\<rparr> toy_dave toy_world = (True, f1, v1)"
    "eng_events f1 = [RequestEvent (pad 32 [3]) [104, 105]]"
    and answer: "\<forall>x f2 x2. accept_contact toy_env (pad 32 [3]) f1 x = (True, f2, x2) \<longrightarrow>
          (\<exists>c d. sent x2 = sent x @ [(c, d)] \<and>
             (\<forall>src' u. \<exists>e2 u2. dispatch toy_env \<lparr>dg_from = src', dg_data = d\<rparr> e1 u = (True, e2, u2) \<and>
                eng_events e2 = [ResponseEvent (pad 32 [4]) True] \<and> can_talk toy_env e2 f2))" by blast
  obtain s a' q where q: "session_for toy_env toy_carol (eng_public toy_dave) s" "sealed_for toy_env s ContactRequest [104, 105] q"
      "sent w1 = sent toy_world @ [(a', serialize q)]"
    by (rule request_sent [OF req])
  have "b = serialize q" using b q(3) out by simp
  with request_arrives [OF crypto_laws_toy toy_strangers(1) q(1,2) len, unfolded toy_strangers, of default_endpoint toy_world] d1(1)
  have f1: "to_hex (pad 32 [3]) \<in> eng_incoming f1" "eng_relay f1 = eng_relay toy_dave" "session_step toy_env toy_dave f1" by auto
  then have "eng_secret f1 = pad 64 [4]" by (simp add: session_step_def toy_dave_def new_engine_def)
  then obtain t where "session_for toy_env f1 (pad 32 [3]) t" using session_for_exists [of toy_env f1 "pad 32 [3]"] by auto
  then have "\<exists>f2 v2. accept_contact toy_env (pad 32 [3]) f1 toy_world = (True, f2, v2)"
    unfolding accept_contact_def
    by (rule decide_contact_works [OF toy_socket_works f1(1)]) (simp add: f1(2) toy_dave_def new_engine_def)
  then obtain f2 v2 where "accept_contact toy_env (pad 32 [3]) f1 toy_world = (True, f2, v2)" by blast
  note acc = this
  from answer [rule_format, OF acc] obtain c d where "sent v2 = [(c, d)]"
    "\<exists>e2 u2. dispatch toy_env \<lparr>dg_from = default_endpoint, dg_data = d\<rparr> e1 toy_world = (True, e2, u2) \<and>
       eng_events e2 = [ResponseEvent (pad 32 [4]) True] \<and> can_talk toy_env e2 f2" unfolding out by auto
  with req b d1 acc show ?thesis unfolding toy_strangers(3) by blast
qed

text \<open>
  (C38) A decision is announced at most once, and can be lost for good: when a user accepts a pending request of a peer
  whose address the engine does not know and no relay is set (so it is after a restart, which
  keeps the requests and forgets the addresses), the contact is accepted and nothing is sent; from then on the
  engine neither lets the user repeat the answer nor takes notice of another request of that peer, who stays without one.
\<close>

theorem answer_lost:
  assumes "to_hex p \<in> eng_incoming e" "eng_endpoints e (to_hex p) = None" "eng_relay e = None"
    and "session_for E e p s" "accept_contact E p e w = (ok, e', w')"
  shows "\<not> ok \<and> sent w' = sent w \<and> trust_of e' p = Some Accepted \<and>
    (\<forall>v. accept_contact E p e' v = (False, e', v) \<and> reject_contact E p e' v = (False, e', v)) \<and>
    (\<forall>g v. handle_contact_request E p g e' v = (e', v))"
proof -
  have d: "decide_contact E Accepted kAccept p e w = (ok, e', w')" using assms(5) by (simp add: accept_contact_def)
  from decide_contact_decided [OF d assms(1) session_for_ensure [OF assms(4)]]
  obtain t st sock ds where 1: "decision_change p Accepted (eng_contacts e) st"
    "e' = e\<lparr>eng_sessions := (eng_sessions e)(to_hex p \<mapsto> bump t), eng_incoming := eng_incoming e - {to_hex p},
        eng_contacts := st, eng_socket := sock\<rparr>"
    unfolding decided_def by blast
  have tr: "trust_of e' p = Some Accepted" using 1 by (simp add: trust_of_def decision_change_def)
  have "\<not> ok \<and> sent w' = sent w"
  proof -
    let ?e = "e\<lparr>eng_sessions := (eng_sessions e)(to_hex p \<mapsto> s), eng_incoming := eng_incoming e - {to_hex p}\<rparr>"
    let ?u = "store_remove_request E p (eng_contacts e) w"
    obtain e2 w2 where st: "set_trust E p Accepted (?e\<lparr>eng_contacts := fst ?u\<rparr>) (snd ?u) = (e2, w2)" by fastforce
    from set_trust_eff [OF st] have e2: "eng_endpoints e2 (to_hex p) = None" "eng_relay e2 = None" "sent w2 = sent w"
      using assms(2,3) by (auto simp: frame_simps)
    have "send_encrypted E p s ContactResponse [kAccept] e2 w2 = (ok, e', w')"
      using d st assms(1) session_for_ensure [OF assms(4)] by (cases ?u) (simp add: decide_contact_def Let_def)
    then show ?thesis
      using e2 encrypt_as_fields(9) by (auto simp: send_encrypted_def send_packet_def put_session_def split: prod.splits)
  qed
  moreover have "to_hex p \<notin> eng_incoming e'" by (simp add: 1(2))
  moreover have "store_trust_of (eng_contacts e') p \<noteq> None" using tr by (simp add: trust_of_def)
  ultimately show ?thesis using tr
    by (simp add: accept_contact_def reject_contact_def decide_contact_def handle_contact_request_def)
qed

theorem answer_lost_witness:
  "let e = (new_engine (pad 32 [4]) (pad 64 [4]))\<lparr>eng_incoming := {to_hex (pad 32 [3])}\<rparr> in
   \<exists>e' w'. accept_contact toy_env (pad 32 [3]) e toy_world = (False, e', w') \<and> sent w' = [] \<and>
     trust_of e' (pad 32 [3]) = Some Accepted \<and> accept_contact toy_env (pad 32 [3]) e' toy_world = (False, e', toy_world)"
proof -
  let ?e = "(new_engine (pad 32 [4]) (pad 64 [4]))\<lparr>eng_incoming := {to_hex (pad 32 [3])}\<rparr>"
  obtain s where s: "session_for toy_env ?e (pad 32 [3]) s"
    using session_for_exists [of toy_env ?e "pad 32 [3]"] by (auto simp: new_engine_def)
  obtain ok e' w' where a: "accept_contact toy_env (pad 32 [3]) ?e toy_world = (ok, e', w')" by (metis prod_cases3)
  from answer_lost [OF _ _ _ s a] have "\<not> ok \<and> sent w' = [] \<and> trust_of e' (pad 32 [3]) = Some Accepted \<and>
      accept_contact toy_env (pad 32 [3]) e' toy_world = (False, e', toy_world)"
    by (simp add: new_engine_def toy_world_def)
  with a show ?thesis by (auto simp: Let_def)
qed

text \<open>A run in which a request of a stranger arrives through the socket and is surfaced.\<close>

lemma toy_request_run:
  obtains b e1 where "engine_run (toy_net ''h:1'' b) (new_engine (pad 32 [4]) (pad 64 [4]))
      [DoBind default_endpoint, DoOnContactRequest, DoPoll 10] e1"
    "eng_events e1 = [RequestEvent (pad 32 [3]) [104, 105]]" "trust_of e1 (pad 32 [3]) = Some Pending"
proof -
  obtain s where s: "session_for toy_env toy_carol (pad 32 [4]) s"
    using session_for_exists [of toy_env toy_carol "pad 32 [4]"] by (auto simp: toy_carol_def new_engine_def)
  obtain q s' w' where enc: "encrypt_as toy_env s ContactRequest [104, 105] toy_world = (q, s', w')" by (metis prod_cases3)
  then have q: "sealed_for toy_env s ContactRequest [104, 105] q" by (auto simp: sealed_for_def)
  let ?b = "serialize q"
  let ?E = "toy_net ''h:1'' ?b" and ?e0 = "new_engine (pad 32 [4]) (pad 64 [4])"
  obtain ok e w where bind: "engine_bind ?E default_endpoint ?e0 toy_world = (ok, e, w)" by (metis prod_cases3)
  then have e: "is_open (eng_socket e)" "\<exists>sk. e = ?e0\<lparr>eng_socket := sk\<rparr>"
    by (auto simp: engine_bind_def socket_bind_def socket_close_def open_fd_def resolve_def is_open_def Let_def split: prod.splits if_splits)
  let ?f = "on_contact_request e"
  have ss: "session_ok toy_env toy_carol (pad 32 [4]) s"
    using session_for_ok [OF _ s] toy_strangers(1) by (auto simp: ends_def)
  have len: "length ?b \<le> kReceiveBufferSize"
  proof -
    note p = encrypt_as_fields [OF enc]
    have n: "s = new_session toy_env (pad 32 [3]) (pad 64 [3]) (pad 32 [4])" "ses_valid s"
      using s by (auto simp: session_for_def toy_carol_def new_engine_def)
    have "length (ses_key s) = kSessionKeyBytes"
      using paired_new_session [OF crypto_laws_toy toy_key_pair toy_key_pair, of 3 4] n unfolding paired_def by blast
    then have "length (payload q) = 42" using p(11) [OF n(2)] length_seal [OF toy_env_laws(1,3)] by simp
    moreover have "length (source q) = 32" "length (destination q) = 32" using p(6,7) ss by (simp_all add: session_ok_def toy_strangers)
    ultimately show ?thesis by (simp add: serialize_eq kReceiveBufferSize_def)
  qed
  have f: "eng_public ?f = pad 32 [4]" "trust_of ?f p = None" "eng_incoming ?f = {}" "seen_of ?f p = None" "eng_events ?f = []"
    "eng_request_handler ?f" "is_open (eng_socket ?f)" for p
    using e by (auto simp: on_contact_request_def new_engine_def trust_of_def store_trust_of_def default_store_def seen_of_def)
  have en: "ends ?E toy_carol ?f"
    using toy_strangers(1) e(2) by (auto simp: ends_def toy_net_same on_contact_request_def new_engine_def sessions_ok_def session_ok_def toy_carol_def)
  have s': "session_for ?E toy_carol (eng_public ?f) s" "sealed_for ?E s ContactRequest [104, 105] q"
    using s q by (simp_all add: f(1) session_for_def sealed_for_def toy_net_same)
  obtain dg w1 where r: "receive ?E (eng_socket ?f) 10 kReceiveBufferSize toy_world = (Some dg, w1)" "dg_data dg = ?b"
    using len f(7) by (cases "endpoint_from_sockaddr ?E \<lparr>sa_family = 2, sa_data = bytes_of_string ''h:1''\<rparr>
        (next_call (next_call toy_world))") (simp add: receive_def)
  from request_arrives [OF toy_net_same(1) en s', of "dg_from dg" w1] obtain f1 v1 where
    f1: "dispatch ?E dg ?f w1 = (True, f1, v1)" "eng_events f1 = [RequestEvent (pad 32 [3]) [104, 105]]"
      "trust_of f1 (pad 32 [3]) = Some Pending"
    using r(2) by (auto simp: f toy_strangers) (metis Datagram.surjective old.unit.exhaust)
  let ?as = "[DoBind default_endpoint, DoOnContactRequest, DoPoll 10]"
  have run1: "engine_run ?E ?e0 ?as f1"
    using engine_run.act [OF engine_run.act [OF engine_run.act [OF engine_run.init, of ?E "DoBind default_endpoint" ?e0 toy_world e w],
        of DoOnContactRequest w ?f w], of "DoPoll 10" toy_world f1 v1] bind f1(1) r(1) by (simp add: poll_def)
  from that [OF run1 f1(2,3)] show thesis .
qed

text \<open>The request is surfaced once; when the network delivers it again, not once more.\<close>

theorem engine_one_request_witness:
  "\<exists>b e1. let E = toy_net ''h:1'' b in
     engine_run E (new_engine (pad 32 [4]) (pad 64 [4])) [DoBind default_endpoint, DoOnContactRequest, DoPoll 10] e1 \<and>
     eng_events e1 = [RequestEvent (pad 32 [3]) [104, 105]] \<and>
     length (filter (is_request_from (pad 32 [3])) (eng_events (fst (run E (DoPoll 10) e1 toy_world)))) \<le> 1"
proof -
  obtain b e1 where r: "engine_run (toy_net ''h:1'' b) (new_engine (pad 32 [4]) (pad 64 [4]))
      [DoBind default_endpoint, DoOnContactRequest, DoPoll 10] e1" "eng_events e1 = [RequestEvent (pad 32 [3]) [104, 105]]"
    by (rule toy_request_run)
  obtain e2 w2 where run2: "run (toy_net ''h:1'' b) (DoPoll 10) e1 toy_world = (e2, w2)" by fastforce
  have "length (filter (is_request_from (pad 32 [3])) (eng_events e2)) \<le> 1"
    using engine_one_request [OF engine_run.act [OF r(1) run2], of "pad 32 [3]"] by (simp add: late_opens_def)
  with r run2 show ?thesis unfolding Let_def by (intro exI [of _ b] exI [of _ e1]) simp
qed

theorem engine_refines_flow_witness:
  "\<exists>b e1 ls. list_all2 allows [DoBind default_endpoint, DoOnContactRequest, DoPoll 10] ls \<and>
     engine_run (toy_net ''h:1'' b) (new_engine (pad 32 [4]) (pad 64 [4])) [DoBind default_endpoint, DoOnContactRequest, DoPoll 10] e1 \<and>
     flow_run (flow_of (new_engine (pad 32 [4]) (pad 64 [4]))) ls (flow_of e1) \<and>
     fl_trust (flow_of e1) (pad 32 [3]) = Some Pending \<and> fl_events (flow_of e1) = [RequestEvent (pad 32 [3]) [104, 105]]"
proof -
  obtain b e1 where r: "engine_run (toy_net ''h:1'' b) (new_engine (pad 32 [4]) (pad 64 [4]))
      [DoBind default_endpoint, DoOnContactRequest, DoPoll 10] e1" "eng_events e1 = [RequestEvent (pad 32 [3]) [104, 105]]"
      "trust_of e1 (pad 32 [3]) = Some Pending"
    by (rule toy_request_run)
  from engine_refines_flow [OF r(1)] r show ?thesis unfolding flow_sel by blast
qed

text \<open>A request that is sent is one sealed datagram.\<close>

theorem engine_wire_sealed_witness:
  "\<exists>e' w' d. run toy_env (DoSendRequest (pad 32 [4]) default_endpoint [104, 105]) (new_engine (pad 32 [3]) (pad 64 [3])) toy_world = (e', w') \<and>
     sent w' = [d] \<and> wire_ok toy_env (new_engine (pad 32 [3]) (pad 64 [3])) (snd d)"
proof -
  let ?e = "new_engine (pad 32 [3]) (pad 64 [3])"
  have sf: "\<exists>s. session_for toy_env ?e (pad 32 [4]) s" by (rule session_for_exists) (simp add: new_engine_def)
  have t0: "trust_of ?e (pad 32 [4]) \<noteq> Some Accepted"
    by (simp add: new_engine_def trust_of_def store_trust_of_def default_store_def)
  obtain e1 w1 where req: "send_contact_request toy_env (pad 32 [4]) default_endpoint [104, 105] ?e toy_world = (True, e1, w1)"
    using send_contact_request_works [OF toy_socket_works t0] sf by blast
  then have run: "run toy_env (DoSendRequest (pad 32 [4]) default_endpoint [104, 105]) ?e toy_world = (e1, w1)" by simp
  obtain s d q where "sent w1 = sent toy_world @ [(d, serialize q)]" by (rule request_sent [OF req])
  then have out: "sent w1 = [(d, serialize q)]" by (simp add: toy_world_def)
  from engine_wire_sealed [OF engine_run.init run] out run show ?thesis by (auto simp: toy_world_def)
qed

end
