(* ===== verification/SignalingClient.thy ===== *)
theory SignalingClient
  imports Packet Socket
begin

text \<open>
  The client side of signaling (\<^verbatim>\<open>libs/net/src/signaling_client.cpp\<close>).  The borrowed socket is
  a field and comes back updated.  Waiting for a packet is a loop without a static bound
  (unrelated datagrams are discarded for as long as they keep coming before the deadline),
  so \<open>await_loop\<close> is a partial function: \<open>None\<close> is a call that never returns, and the
  operations built on it pass that on.
\<close>

section \<open>State\<close>

record SignalingClient =
  sc_socket :: UdpSocket
  sc_server :: Endpoint
  sc_public_key :: bytes
  sc_signer :: "(bytes \<Rightarrow> bytes) option"
  sc_public_endpoint :: "Endpoint option"

record DiscoverResult =
  dr_responded :: bool
  dr_endpoint :: "Endpoint option"

definition kDefaultTimeoutMs :: int where "kDefaultTimeoutMs = 700"
definition kDefaultAttempts :: int where "kDefaultAttempts = 3"

definition new_signaling_client ::
  "UdpSocket \<Rightarrow> Endpoint \<Rightarrow> bytes \<Rightarrow> (bytes \<Rightarrow> bytes) option \<Rightarrow> SignalingClient" where
  "new_signaling_client socket server pk signer = \<lparr>sc_socket = socket, sc_server = server,
     sc_public_key = pk, sc_signer = signer, sc_public_endpoint = None\<rparr>"

section \<open>Sending and waiting\<close>

definition sc_send :: "env \<Rightarrow> Packet \<Rightarrow> SignalingClient \<Rightarrow> world \<Rightarrow> bool \<times> SignalingClient \<times> world" where
  "sc_send E packet c w =
     (case send_to E (sc_socket c) (sc_server c) (serialize packet) w of (ok, s, w) \<Rightarrow> (ok, c\<lparr>sc_socket := s\<rparr>, w))"

partial_function (option) await_loop ::
  "env \<Rightarrow> PacketType \<Rightarrow> int \<Rightarrow> UdpSocket \<Rightarrow> world \<Rightarrow> (Packet option \<times> world) option" where
  "await_loop E expected deadline s w =
     (let now = steady_clock_now E (calls w); w = next_call w in
      if now \<ge> deadline then Some (None, w)
      else let remaining = (deadline - now) div 1000000 in
        case receive E s remaining kReceiveBufferSize w of
          (None, w) \<Rightarrow> Some (None, w)
        | (Some dg, w) \<Rightarrow>
            (case deserialize (dg_data dg) default_packet of (ok, pkt) \<Rightarrow>
               if ok \<and> ptype pkt = expected then Some (Some pkt, w)
               else await_loop E expected deadline s w))"

declare await_loop.simps [simp del]

definition await_packet ::
  "env \<Rightarrow> PacketType \<Rightarrow> int \<Rightarrow> SignalingClient \<Rightarrow> world \<Rightarrow> (Packet option \<times> world) option" where
  "await_packet E expected timeout_ms c w =
     (let deadline = steady_clock_now E (calls w) + timeout_ms * 1000000
      in await_loop E expected deadline (sc_socket c) (next_call w))"

section \<open>Operations\<close>

text \<open>The two retry loops count the attempts that are left.\<close>

fun register_loop ::
  "env \<Rightarrow> int \<Rightarrow> nat \<Rightarrow> SignalingClient \<Rightarrow> world \<Rightarrow> (bool \<times> SignalingClient \<times> world) option" where
  "register_loop E timeout_ms 0 c w = Some (False, c, w)"
| "register_loop E timeout_ms (Suc left) c w =
     (let request = default_packet\<lparr>ptype := Register, source := sc_public_key c\<rparr> in
      case sc_send E request c w of
        (False, c, w) \<Rightarrow> register_loop E timeout_ms left c w
      | (True, c, w) \<Rightarrow>
          (case await_packet E Hello timeout_ms c w of
             None \<Rightarrow> None
           | Some (None, w) \<Rightarrow> register_loop E timeout_ms left c w
           | Some (Some challenge, w) \<Rightarrow>
               let signed_register = default_packet\<lparr>ptype := Register, source := sc_public_key c,
                     payload := (case sc_signer c of Some signer \<Rightarrow> signer (payload challenge) | None \<Rightarrow> [])\<rparr> in
               (case sc_send E signed_register c w of
                  (False, c, w) \<Rightarrow> register_loop E timeout_ms left c w
                | (True, c, w) \<Rightarrow>
                    (case await_packet E Ack timeout_ms c w of
                       None \<Rightarrow> None
                     | Some (Some ack, w) \<Rightarrow>
                         Some (True, c\<lparr>sc_public_endpoint := parse_endpoint (payload ack)\<rparr>, w)
                     | Some (None, w) \<Rightarrow> register_loop E timeout_ms left c w))))"

definition register_self ::
  "env \<Rightarrow> int \<Rightarrow> int \<Rightarrow> SignalingClient \<Rightarrow> world \<Rightarrow> (bool \<times> SignalingClient \<times> world) option" where
  "register_self E timeout_ms attempts c w = register_loop E timeout_ms (nat attempts) c w"

fun discover_loop ::
  "env \<Rightarrow> bytes \<Rightarrow> int \<Rightarrow> nat \<Rightarrow> SignalingClient \<Rightarrow> world \<Rightarrow> (DiscoverResult \<times> SignalingClient \<times> world) option" where
  "discover_loop E target timeout_ms 0 c w = Some (\<lparr>dr_responded = False, dr_endpoint = None\<rparr>, c, w)"
| "discover_loop E target timeout_ms (Suc left) c w =
     (let query = default_packet\<lparr>ptype := Discover, destination := target\<rparr> in
      case sc_send E query c w of
        (False, c, w) \<Rightarrow> discover_loop E target timeout_ms left c w
      | (True, c, w) \<Rightarrow>
          (case await_packet E Connect timeout_ms c w of
             None \<Rightarrow> None
           | Some (Some resp, w) \<Rightarrow>
               Some (\<lparr>dr_responded = True, dr_endpoint = parse_endpoint (payload resp)\<rparr>, c, w)
           | Some (None, w) \<Rightarrow> discover_loop E target timeout_ms left c w))"

definition discover ::
  "env \<Rightarrow> bytes \<Rightarrow> int \<Rightarrow> int \<Rightarrow> SignalingClient \<Rightarrow> world \<Rightarrow> (DiscoverResult \<times> SignalingClient \<times> world) option" where
  "discover E target timeout_ms attempts c w = discover_loop E target timeout_ms (nat attempts) c w"

definition send_connect ::
  "env \<Rightarrow> bytes \<Rightarrow> bytes \<Rightarrow> SignalingClient \<Rightarrow> world \<Rightarrow> bool \<times> SignalingClient \<times> world" where
  "send_connect E target info c w =
     sc_send E (default_packet\<lparr>ptype := Connect, source := sc_public_key c, destination := target, payload := info\<rparr>) c w"

definition heartbeat ::
  "env \<Rightarrow> int \<Rightarrow> SignalingClient \<Rightarrow> world \<Rightarrow> (bool \<times> SignalingClient \<times> world) option" where
  "heartbeat E timeout_ms c w =
     (let beat = default_packet\<lparr>ptype := Heartbeat, source := sc_public_key c\<rparr> in
      case sc_send E beat c w of
        (False, c, w) \<Rightarrow> Some (False, c, w)
      | (True, c, w) \<Rightarrow>
          (case await_packet E Heartbeat timeout_ms c w of
             None \<Rightarrow> None | Some (r, w) \<Rightarrow> Some (r \<noteq> None, c, w)))"

definition disconnect :: "env \<Rightarrow> SignalingClient \<Rightarrow> world \<Rightarrow> SignalingClient \<times> world" where
  "disconnect E c w =
     (let bye = default_packet\<lparr>ptype := Disconnect, source := sc_public_key c\<rparr>
      in snd (sc_send E bye c w))"

text \<open>The accessors of the header; \<open>public_endpoint\<close> is what the server saw, once registered.\<close>

definition sc_local_endpoint :: "env \<Rightarrow> SignalingClient \<Rightarrow> world \<Rightarrow> Endpoint option \<times> world" where
  "sc_local_endpoint E c w = local_endpoint E (sc_socket c) w"

definition public_endpoint :: "SignalingClient \<Rightarrow> Endpoint option" where
  "public_endpoint c = sc_public_endpoint c"

section \<open>Waiting\<close>

lemma receive_frame:
  "receive E s t n w = (r, w') \<Longrightarrow> sent w' = sent w \<and> files w' = files w \<and> fds w' = fds w \<and> calls w \<le> calls w'"
  by (auto simp: receive_def endpoint_from_sockaddr_def Let_def split: if_splits option.splits prod.splits)


definition await_post :: "PacketType \<Rightarrow> world \<Rightarrow> Packet option \<times> world \<Rightarrow> bool" where
  "await_post expected w y \<longleftrightarrow> sent (snd y) = sent w \<and> files (snd y) = files w \<and> calls w < calls (snd y)
     \<and> (\<forall>p. fst y = Some p \<longrightarrow> ptype p = expected)"

text \<open>One round of the loop, as the cases the code distinguishes.\<close>

lemma await_loop_timeout:
  "deadline \<le> steady_clock_now E (calls w) \<Longrightarrow> await_loop E ex deadline s w = Some (None, next_call w)"
  by (subst await_loop.simps) (simp add: Let_def)

lemma await_loop_round:
  assumes "steady_clock_now E (calls w) < deadline"
    "receive E s ((deadline - steady_clock_now E (calls w)) div 1000000) kReceiveBufferSize (next_call w) = (dg, w1)"
  shows "await_loop E ex deadline s w =
    (case dg of None \<Rightarrow> Some (None, w1)
     | Some d \<Rightarrow> (let r = deserialize (dg_data d) default_packet in
         if fst r \<and> ptype (snd r) = ex then Some (Some (snd r), w1) else await_loop E ex deadline s w1))"
  by (subst await_loop.simps) (use assms in \<open>simp add: Let_def split: option.split prod.split\<close>)

lemma await_loop_sound:
  assumes "await_loop E expected deadline s w = Some y"
  shows "await_post expected w y"
  using assms
proof (rule await_loop.raw_induct [where P = "\<lambda>E ex dl s w y. await_post ex w y", rotated])
  fix await :: "env \<Rightarrow> PacketType \<Rightarrow> int \<Rightarrow> UdpSocket \<Rightarrow> world \<Rightarrow> (Packet option \<times> world) option"
    and E :: env and ex :: PacketType and dl :: int and s :: UdpSocket and w :: world and y
  assume IH: "\<And>E ex dl s w y. await E ex dl s w = Some y \<Longrightarrow> await_post ex w y"
  assume eq: "(let now = steady_clock_now E (calls w); w = next_call w in
      if now \<ge> dl then Some (None, w)
      else let remaining = (dl - now) div 1000000 in
        case receive E s remaining kReceiveBufferSize w of
          (None, w) \<Rightarrow> Some (None, w)
        | (Some dg, w) \<Rightarrow>
            (case deserialize (dg_data dg) default_packet of (ok, pkt) \<Rightarrow>
               if ok \<and> ptype pkt = ex then Some (Some pkt, w)
               else await E ex dl s w)) = Some y"
  obtain dg w1 where rc: "receive E s ((dl - steady_clock_now E (calls w)) div 1000000) kReceiveBufferSize (next_call w) = (dg, w1)"
    by fastforce
  from receive_frame [OF rc] have f: "sent w1 = sent w" "files w1 = files w" "calls w < calls w1" by auto
  show "await_post ex w y"
    using eq rc f by (auto simp: Let_def await_post_def split: if_splits option.splits prod.splits dest!: IH)
qed

text \<open>
  The steady clock does not stand still: every point in time is eventually behind it.  This is
  what the loop relies on to end; nothing bounds the number of rounds before the deadline.
\<close>

definition clock_advances :: "env \<Rightarrow> bool" where
  "clock_advances E \<longleftrightarrow> (\<forall>t. \<exists>N. \<forall>n \<ge> N. t \<le> steady_clock_now E n)"

lemma clock_advances_toy: "clock_advances toy_env" "clock_advances (toy_net addr d)"
proof -
  have "clock_advances E" if "steady_clock_now E = (\<lambda>i. int i * 300000000)" for E
    unfolding clock_advances_def that
  proof (intro allI)
    fix t
    have "t \<le> int n * 300000000" if "n \<ge> nat t" for n using that by linarith
    then show "\<exists>N. \<forall>n \<ge> N. t \<le> int n * 300000000" by blast
  qed
  then show "clock_advances toy_env" "clock_advances (toy_net addr d)" by (simp_all add: toy_net_def)
qed

lemma await_loop_returns:
  assumes "\<forall>n \<ge> N. deadline \<le> steady_clock_now E n"
  shows "\<exists>y. await_loop E ex deadline s w = Some y"
proof (induction "N - calls w" arbitrary: w rule: less_induct)
  case less
  show ?case
  proof (cases "deadline \<le> steady_clock_now E (calls w)")
    case True
    then show ?thesis by (simp add: await_loop_timeout)
  next
    case False
    then have small: "calls w < N" using assms by (meson not_le)
    obtain dg w1 where rc: "receive E s ((deadline - steady_clock_now E (calls w)) div 1000000) kReceiveBufferSize (next_call w) = (dg, w1)"
      by fastforce
    have "N - calls w1 < N - calls w" using receive_frame [OF rc] small by auto
    note IH = less(1) [OF this]
    show ?thesis
      using False IH by (subst await_loop_round [OF _ rc]) (auto simp: Let_def split: option.split)
  qed
qed

lemma await_packet_returns: "clock_advances E \<Longrightarrow> \<exists>r w'. await_packet E ex t c w = Some (r, w')"
  using await_loop_returns unfolding clock_advances_def await_packet_def Let_def
  by (metis surj_pair)

lemma await_packet_frame:
  assumes "await_packet E ex t c w = Some (r, w')"
  shows "sent w' = sent w" "r = Some p \<Longrightarrow> ptype p = ex"
  using await_loop_sound assms unfolding await_packet_def await_post_def Let_def by fastforce+

section \<open>The requests\<close>

text \<open>\<open>to_server c n w w'\<close>: between the two worlds at most \<open>n\<close> datagrams went out, all to the server.\<close>

definition to_server :: "SignalingClient \<Rightarrow> nat \<Rightarrow> world \<Rightarrow> world \<Rightarrow> bool" where
  "to_server c n w w' \<longleftrightarrow> (\<exists>ds. sent w' = sent w @ map (Pair (sc_server c)) ds \<and> length ds \<le> n)"

lemma to_server_refl: "sent w' = sent w \<Longrightarrow> to_server c n w w'"
  unfolding to_server_def by (rule exI [of _ "[]"]) simp

lemma to_server_trans:
  assumes "to_server c m u v" "to_server c' n v w" "sc_server c' = sc_server c" "m + n \<le> k"
  shows "to_server c k u w"
proof -
  from assms obtain ds es where "sent v = sent u @ map (Pair (sc_server c)) ds" "length ds \<le> m"
    "sent w = sent v @ map (Pair (sc_server c)) es" "length es \<le> n" by (auto simp: to_server_def)
  with assms(4) have "sent w = sent u @ map (Pair (sc_server c)) (ds @ es)" "length (ds @ es) \<le> k" by auto
  then show ?thesis unfolding to_server_def by blast
qed

lemma to_server_idle: "to_server c n u v \<Longrightarrow> sent w = sent v \<Longrightarrow> to_server c n u w"
  by (simp add: to_server_def)

lemma sc_send_frame:
  assumes "sc_send E p c w = (ok, c', w')"
  shows "sent w' = sent w @ (if ok then [(sc_server c, serialize p)] else [])"
    and "sc_server c' = sc_server c" "sc_signer c' = sc_signer c" "sc_public_key c' = sc_public_key c"
  using assms by (auto simp: sc_send_def send_to_def resolve_def open_fd_def Let_def split: prod.splits option.splits if_splits)

lemma sc_send_one: "sc_send E p c w = (ok, c', w') \<Longrightarrow> to_server c 1 w w'"
  using sc_send_frame(1) unfolding to_server_def by (intro exI [of _ "if ok then [serialize p] else []"]) fastforce

lemma register_loop_returns:
  assumes "clock_advances E"
  shows "\<exists>ok c' w'. register_loop E t n c w = Some (ok, c', w') \<and> sc_server c' = sc_server c \<and> to_server c (2 * n) w w'"
proof (induction n arbitrary: c w)
  case 0
  then show ?case by (auto simp: to_server_refl)
next
  case (Suc n)
  \<comment> \<open>the next attempt, after at most two datagrams\<close>
  have again: "\<exists>ok c2 w2. register_loop E t n c1 w1 = Some (ok, c2, w2) \<and> sc_server c2 = sc_server c \<and> to_server c (2 * Suc n) w w2"
    if "sc_server c1 = sc_server c" "to_server c 2 w w1" for c1 w1
  proof -
    obtain ok c2 w2 where r: "register_loop E t n c1 w1 = Some (ok, c2, w2)" "sc_server c2 = sc_server c1" "to_server c1 (2 * n) w1 w2"
      using Suc by blast
    from to_server_trans [OF that(2) r(3) that(1)] have "to_server c (2 * Suc n) w w2" by simp
    with r that(1) show ?thesis by auto
  qed
  let ?req = "default_packet\<lparr>ptype := Register, source := sc_public_key c\<rparr>"
  obtain ok1 c1 w1 where s1: "sc_send E ?req c w = (ok1, c1, w1)" by (metis prod_cases3)
  note f1 = sc_send_frame(2) [OF s1] and o1 = sc_send_one [OF s1]
  obtain ch w2 where a1: "await_packet E Hello t c1 w1 = Some (ch, w2)" using await_packet_returns [OF assms] by blast
  have t2: "to_server c 1 w w2" by (rule to_server_idle [OF o1 await_packet_frame(1) [OF a1]])
  let ?reg = "\<lambda>p. default_packet\<lparr>ptype := Register, source := sc_public_key c1,
      payload := (case sc_signer c1 of Some signer \<Rightarrow> signer (payload p) | None \<Rightarrow> [])\<rparr>"
  have weak: "to_server c 2 w v" if "to_server c 1 w v" for v
    using that by (fastforce simp: to_server_def)
  show ?case
  proof (cases "ok1 \<and> ch \<noteq> None")
    case False
    then show ?thesis using again [OF f1 weak [OF o1]] again [OF f1 weak [OF t2]]
      by (auto simp: Let_def s1 a1 split: bool.split)
  next
    case True
    then obtain p where p: "ch = Some p" by auto
    obtain ok2 c2 w3 where s2: "sc_send E (?reg p) c1 w2 = (ok2, c2, w3)" by (metis prod_cases3)
    obtain ack w4 where a2: "await_packet E Ack t c2 w3 = Some (ack, w4)" using await_packet_returns [OF assms] by blast
    have f2: "sc_server c2 = sc_server c" using sc_send_frame(2) [OF s2] f1 by simp
    have t3: "to_server c 2 w w3" by (rule to_server_trans [OF t2 sc_send_one [OF s2] f1]) simp
    have t4: "to_server c 2 w w4" by (rule to_server_idle [OF t3 await_packet_frame(1) [OF a2]])
    have "to_server c (2 * Suc n) w w4" using t4 by (fastforce simp: to_server_def)
    then show ?thesis using True again [OF f2 t3] again [OF f2 t4] f2
      by (auto simp: Let_def s1 a1 p s2 a2 split: bool.split option.split)
  qed
qed

lemma discover_loop_returns:
  assumes "clock_advances E"
  shows "\<exists>r c' w'. discover_loop E target t n c w = Some (r, c', w') \<and> sc_server c' = sc_server c \<and> to_server c n w w'"
proof (induction n arbitrary: c w)
  case 0
  then show ?case by (simp add: to_server_refl)
next
  case (Suc n)
  have again: "\<exists>r c2 w2. discover_loop E target t n c1 w1 = Some (r, c2, w2) \<and> sc_server c2 = sc_server c \<and> to_server c (Suc n) w w2"
    if "sc_server c1 = sc_server c" "to_server c 1 w w1" for c1 w1
    using Suc [of c1 w1] to_server_trans [OF that(2) _ that(1), of n _ "Suc n"] that(1) by auto
  let ?q = "default_packet\<lparr>ptype := Discover, destination := target\<rparr>"
  obtain ok1 c1 w1 where s1: "sc_send E ?q c w = (ok1, c1, w1)" by (metis prod_cases3)
  note f1 = sc_send_frame(2) [OF s1] and o1 = sc_send_one [OF s1]
  obtain r w2 where a1: "await_packet E Connect t c1 w1 = Some (r, w2)" using await_packet_returns [OF assms] by blast
  have t2: "to_server c 1 w w2" by (rule to_server_idle [OF o1 await_packet_frame(1) [OF a1]])
  then have "to_server c (Suc n) w w2" by (fastforce simp: to_server_def)
  then show ?case using again [OF f1 o1] again [OF f1 t2] f1
    by (auto simp: Let_def s1 a1 split: bool.split option.split)
qed

section \<open>Properties\<close>

text \<open>
  (C28) Every request of the signaling client returns, whatever arrives meanwhile: as long as the
  steady clock moves on, registration, discovery and the heartbeat end with a result, and
  they put at most two datagrams per attempt, one per attempt, and one datagram on the
  wire, each addressed to the signaling server.
\<close>

theorem signaling_client_returns:
  assumes "clock_advances E"
  shows "(\<exists>ok c' w'. register_self E t n c w = Some (ok, c', w') \<and> to_server c (2 * nat n) w w') \<and>
    (\<exists>r c' w'. discover E target t n c w = Some (r, c', w') \<and> to_server c (nat n) w w') \<and>
    (\<exists>ok c' w'. heartbeat E t c w = Some (ok, c', w') \<and> to_server c 1 w w')"
proof (intro conjI)
  show "\<exists>ok c' w'. register_self E t n c w = Some (ok, c', w') \<and> to_server c (2 * nat n) w w'"
    using register_loop_returns [OF assms] unfolding register_self_def by blast
  show "\<exists>r c' w'. discover E target t n c w = Some (r, c', w') \<and> to_server c (nat n) w w'"
    using discover_loop_returns [OF assms] unfolding discover_def by blast
  let ?b = "default_packet\<lparr>ptype := Heartbeat, source := sc_public_key c\<rparr>"
  obtain ok1 c1 w1 where s1: "sc_send E ?b c w = (ok1, c1, w1)" by (metis prod_cases3)
  obtain r w2 where a1: "await_packet E Heartbeat t c1 w1 = Some (r, w2)" using await_packet_returns [OF assms] by blast
  note o1 = sc_send_one [OF s1]
  note to_server_idle [OF o1 await_packet_frame(1) [OF a1]]
  with o1 show "\<exists>ok c' w'. heartbeat E t c w = Some (ok, c', w') \<and> to_server c 1 w w'"
    by (auto simp: heartbeat_def Let_def s1 a1 split: bool.split)
qed

theorem signaling_client_returns_witness:
  "\<exists>ok c' w'. register_self (toy_net ''h:9'' []) kDefaultTimeoutMs kDefaultAttempts
      (new_signaling_client default_socket default_endpoint (pad 32 [1]) None) toy_world = Some (ok, c', w') \<and>
     length (sent w') \<le> 6"
proof -
  let ?c = "new_signaling_client default_socket default_endpoint (pad 32 [1]) None"
  obtain ok c' w' where r: "register_self (toy_net ''h:9'' []) kDefaultTimeoutMs kDefaultAttempts ?c toy_world = Some (ok, c', w')"
    and t: "to_server ?c (2 * nat kDefaultAttempts) toy_world w'"
    using signaling_client_returns [OF clock_advances_toy(2)] by meson
  from t have "length (sent w') \<le> 6" by (auto simp: to_server_def toy_world_def kDefaultAttempts_def)
  with r show ?thesis by blast
qed

text \<open>
  Discovery believes the first CONNECT: whoever sent it, and whichever peer it is about, the
  first datagram that parses as a CONNECT after the query decides the answer, since
  neither the sender's address nor the queried key is compared.
\<close>

theorem discover_trusts_any_connect:
  assumes "attempts > 0"
    and "sc_send E (default_packet\<lparr>ptype := Discover, destination := target\<rparr>) c w = (True, c1, w1)"
    and "steady_clock_now E (Suc (calls w1)) < steady_clock_now E (calls w1) + t * 1000000"
    and "receive E (sc_socket c1) ((steady_clock_now E (calls w1) + t * 1000000 - steady_clock_now E (Suc (calls w1))) div 1000000)
      kReceiveBufferSize (next_call (next_call w1)) = (Some \<lparr>dg_from = anyone, dg_data = serialize p\<rparr>, w2)"
    and "wf_packet p" "ptype p = Connect"
  shows "discover E target t attempts c w =
    Some (\<lparr>dr_responded = True, dr_endpoint = parse_endpoint (payload p)\<rparr>, c1, w2)"
proof -
  obtain n where n: "nat attempts = Suc n" using assms(1) by (cases "nat attempts") auto
  have "await_packet E Connect t c1 w1 = Some (Some p, w2)"
    using await_loop_round [OF _ assms(4) [folded next_call_simps(1) [of w1]]] assms(3,5,6)
    by (simp add: await_packet_def Let_def)
  then show ?thesis by (simp add: discover_def n Let_def assms(2))
qed

theorem discover_trusts_any_connect_witness:
  "\<exists>w'. discover (toy_net ''evil:9'' (serialize (default_packet\<lparr>ptype := Connect, payload := bytes_of_string (endpoint_to_string \<lparr>host = ''evil'', port = 9\<rparr>)\<rparr>)))
      (pad 32 [2]) kDefaultTimeoutMs kDefaultAttempts
      (new_signaling_client \<lparr>sock_fd = 3, sock_family = 2\<rparr> \<lparr>host = ''server'', port = 1\<rparr> (pad 32 [1]) None) toy_world
    = Some (\<lparr>dr_responded = True, dr_endpoint = Some \<lparr>host = ''evil'', port = 9\<rparr>\<rparr>,
        new_signaling_client \<lparr>sock_fd = 3, sock_family = 2\<rparr> \<lparr>host = ''server'', port = 1\<rparr> (pad 32 [1]) None, w')"
proof -
  let ?p = "default_packet\<lparr>ptype := Connect, payload := bytes_of_string (endpoint_to_string \<lparr>host = ''evil'', port = 9\<rparr>)\<rparr>"
  let ?E = "toy_net ''evil:9'' (serialize ?p)"
  let ?c = "new_signaling_client \<lparr>sock_fd = 3, sock_family = 2\<rparr> \<lparr>host = ''server'', port = 1\<rparr> (pad 32 [1]) None"
  let ?q = "default_packet\<lparr>ptype := Discover, destination := pad 32 [2]\<rparr>"
  obtain w1 where s: "sc_send ?E ?q ?c toy_world = (True, ?c, w1)"
    by (simp add: sc_send_def send_to_def resolve_def is_open_def new_signaling_client_def toy_net_def Let_def)
  have short: "length (serialize ?p) \<le> kReceiveBufferSize"
    by (simp add: serialize_eq default_packet_def kReceiveBufferSize_def endpoint_to_string_def dec_string.simps [of 9])
  have "\<exists>from w2. receive ?E (sc_socket ?c) 400 kReceiveBufferSize (next_call (next_call w1)) =
      (Some \<lparr>dg_from = from, dg_data = serialize ?p\<rparr>, w2)"
    using short by (simp add: receive_def is_open_def new_signaling_client_def toy_net_def endpoint_from_sockaddr_def
        Let_def split: option.split prod.split)
  then obtain anyone w2 where r: "receive ?E (sc_socket ?c) 400 kReceiveBufferSize (next_call (next_call w1)) =
      (Some \<lparr>dg_from = anyone, dg_data = serialize ?p\<rparr>, w2)" by blast
  have wf: "wf_packet ?p" "ptype ?p = Connect"
    by (simp_all add: wf_packet_def default_packet_def wf_type_def fits_u16_def endpoint_to_string_def dec_string.simps [of 9] packet_type_of_def)
  have clk: "steady_clock_now ?E n = int n * 300000000" for n by (simp add: toy_net_def)
  from discover_trusts_any_connect [of kDefaultAttempts ?E "pad 32 [2]" ?c toy_world ?c w1 kDefaultTimeoutMs, OF _ s _ _ wf]
  show ?thesis using r by (simp add: clk kDefaultTimeoutMs_def kDefaultAttempts_def)
qed
end
