(* ===== verification/Durable.thy ===== *)
theory Durable
  imports Flow SignalingClient
begin

text \<open>
  The database file as a copy of the engine's memory: every operation of the engine that changes
  contacts, history or requests has written the file before it returns, so a restart on that
  file finds all of it.
\<close>

section \<open>A disk that works\<close>

definition disk_works :: "env \<Rightarrow> bool" where
  "disk_works E \<longleftrightarrow> disk_keeps E \<and> (\<forall>i p b. \<exists>c. file_write E i p b = Closed c) \<and>
     (\<forall>i p q. file_rename_ok E i p q) \<and> (\<forall>i p. file_read_ok E i p)"

text \<open>The laws of the cipher, the generator and the password hash that the file format needs.\<close>

definition file_laws :: "env \<Rightarrow> bool" where
  "file_laws E \<longleftrightarrow> disk_works E \<and> aead_correct E \<and> random_sized E \<and> pwhash_deterministic E"

lemma file_lawsD:
  "file_laws E \<Longrightarrow> disk_keeps E" "file_laws E \<Longrightarrow> aead_correct E" "file_laws E \<Longrightarrow> random_sized E"
  "file_laws E \<Longrightarrow> pwhash_deterministic E" "file_laws E \<Longrightarrow> disk_works E"
  "file_laws E \<Longrightarrow> file_read_ok E i p"
  by (simp_all add: file_laws_def disk_works_def)

lemma file_laws_toy: "file_laws toy_env"
  using toy_env_laws by (simp add: file_laws_def disk_works_def)

lemma write_blob_works:
  assumes "file_laws E" "length salt = kSaltBytes" "length key = kSessionKeyBytes"
  shows "fst (write_blob E path magic salt key plaintext w)"
proof -
  have "fst (seal E key plaintext ((bytes_of_string magic @ [kFileVersion]) @ salt) w) \<noteq> []"
    by (rule seal_nonempty [OF file_lawsD(3) [OF assms(1)] assms(3)])
  moreover have "\<exists>c. file_write E i p b = Closed c" "file_rename_ok E i p q" for i p q b
    using assms(1) by (simp_all add: file_laws_def disk_works_def)
  ultimately show ?thesis using assms(2,3)
    by (simp add: write_blob_def Let_def split: prod.split write_result.split) (metis fst_conv write_result.distinct)
qed

lemma store_reopen_at:
  assumes laws: "disk_keeps E" "aead_correct E" "random_sized E" "pwhash_deterministic E"
    and saved: "store_save E s w = (True, w1)"
    and key: "fst (derive_key E pass (st_salt s) w0) = st_key s" "st_key s \<noteq> []"
    and wf: "wf_lists (st_contacts s) (st_messages s) (st_requests s)"
    and files: "files w2 (st_path s) = files w1 (st_path s)" "\<And>i. file_read_ok E i (st_path s)"
  shows "\<exists>w3. store_open E s0 (st_path s) pass w2 =
    (True, s0\<lparr>st_contacts := st_contacts s, st_messages := st_messages s, st_requests := st_requests s,
       st_salt := st_salt s, st_key := st_key s, st_path := st_path s, st_persistent := True\<rparr>, w3)
    \<and> files w3 = files w2"
proof -
  let ?path = "st_path s"
  have blob: "write_blob E ?path kStoreMagic (st_salt s) (st_key s)
      (encode (st_contacts s) (st_messages s) (st_requests s)) w = (True, w1)"
    using saved by (simp add: store_save_def split: if_splits)
  have magic: "length kStoreMagic = 4" by (simp add: kStoreMagic_def)
  note rd = written_blob_readable [OF blob laws(1-3) magic]
  have dom: "?path \<in> dom (files w2)"
    using write_blob_True [OF blob laws(1)] files(1) by auto
  obtain w3 where w3: "derive_key E pass (st_salt s) (next_call w2) = (st_key s, w3)"
    using derive_key_deterministic [OF laws(4)] key(1) by (metis prod.collapse)
  have "files w3 = files w2"
    using derive_key_frame(1) [of E pass "st_salt s" "next_call w2"] by (simp add: w3)
  then show ?thesis
    using dom rd(1) [OF files(1,2)] rd(2) [of w3, OF _ files(2)] files(1) key(2) w3 wf
    by (simp add: store_open_def decode_encode_eq)
qed

section \<open>The file of a store\<close>

text \<open>
  The store is persistent, with the key of the passphrase, and opening its file yields exactly what
  it has in memory, as long as that fits the length fields of the file format.
\<close>

definition store_meta :: "env \<Rightarrow> string \<Rightarrow> string \<Rightarrow> Store \<Rightarrow> bool" where
  "store_meta E path pass s \<longleftrightarrow> st_path s = path \<and> st_persistent s \<and> length (st_salt s) = kSaltBytes \<and> length (st_key s) = kSessionKeyBytes \<and>
     (\<exists>v. fst (derive_key E pass (st_salt s) v) = st_key s)"

definition reopens :: "env \<Rightarrow> string \<Rightarrow> Store \<Rightarrow> world \<Rightarrow> bool" where
  "reopens E pass s w \<longleftrightarrow> (\<forall>w2 s0. files w2 (st_path s) = files w (st_path s) \<longrightarrow>
     (\<exists>w3. store_open E s0 (st_path s) pass w2 =
       (True, s0\<lparr>st_contacts := st_contacts s, st_messages := st_messages s, st_requests := st_requests s,
          st_salt := st_salt s, st_key := st_key s, st_path := st_path s, st_persistent := True\<rparr>, w3) \<and> files w3 = files w2))"

definition on_disk :: "env \<Rightarrow> string \<Rightarrow> string \<Rightarrow> Store \<Rightarrow> world \<Rightarrow> bool" where
  "on_disk E path pass s w \<longleftrightarrow> store_meta E path pass s \<and>
     (wf_lists (st_contacts s) (st_messages s) (st_requests s) \<longrightarrow> reopens E pass s w)"

lemma reopensD:
  assumes "reopens E pass s w" "st_path s = path" "files w2 path = files w path"
  shows "\<exists>s' w3. store_open E s0 path pass w2 = (True, s', w3) \<and> files w3 = files w2 \<and>
    st_contacts s' = st_contacts s \<and> st_messages s' = st_messages s \<and> st_requests s' = st_requests s"
  using assms unfolding reopens_def by fastforce

lemma store_meta_cong:
  "st_path s' = st_path s \<Longrightarrow> st_persistent s' = st_persistent s \<Longrightarrow> st_salt s' = st_salt s \<Longrightarrow> st_key s' = st_key s \<Longrightarrow> store_meta E path pass s' = store_meta E path pass s"
  by (simp add: store_meta_def)

lemma store_save_works:
  assumes "file_laws E" "store_meta E path pass s"
  shows "\<exists>w'. store_save E s w = (True, w')"
proof -
  have "fst (store_save E s w)"
    using assms write_blob_works [OF assms(1)] by (simp add: store_save_def store_meta_def)
  then show ?thesis by (metis prod.collapse)
qed

lemma on_disk_saved:
  assumes laws: "file_laws E" and meta: "store_meta E path pass s" and f: "files w' = files (snd (store_save E s w))"
  shows "on_disk E path pass s w'"
proof -
  obtain u where u: "store_save E s w = (True, u)" using store_save_works [OF laws meta] by blast
  obtain v where v: "fst (derive_key E pass (st_salt s) v) = st_key s"
    using meta unfolding store_meta_def by blast
  have "length (st_key s) = 32" using meta by (simp add: store_meta_def crypto_sizes)
  then have "st_key s \<noteq> []" by auto
  note re = store_reopen_at [OF file_lawsD(1-4) [OF laws] u v this _ _ file_lawsD(6) [OF laws]]
  have "files w' = files u" using f u by simp
  with meta re show ?thesis unfolding on_disk_def reopens_def by metis
qed

lemma on_disk_frame_path: "on_disk E path pass s w \<Longrightarrow> files w' path = files w path \<Longrightarrow> on_disk E path pass s w'"
  by (auto simp: on_disk_def reopens_def store_meta_def)

lemma on_disk_frame: "on_disk E path pass s w \<Longrightarrow> files w' = files w \<Longrightarrow> on_disk E path pass s w'"
  by (rule on_disk_frame_path) simp_all

lemma on_disk_autosave:
  assumes "file_laws E" "store_meta E path pass s" "autosave E s w = (s', w')"
  shows "on_disk E path pass s' w'"
  using assms(3) on_disk_saved [OF assms(1,2), of w' w] assms(2) by (auto simp: autosave_def store_meta_def)

lemma on_disk_ops:
  assumes laws: "file_laws E" and "on_disk E path pass s w"
  shows "store_upsert E c s w = (s', w') \<Longrightarrow> on_disk E path pass s' w'"
    and "store_append_message E m s w = (s', w') \<Longrightarrow> on_disk E path pass s' w'"
    and "store_add_request E q s w = (s', w') \<Longrightarrow> on_disk E path pass s' w'"
    and "store_remove_request E p s w = (s', w') \<Longrightarrow> on_disk E path pass s' w'"
proof -
  have meta: "store_meta E path pass s" using assms(2) by (simp add: on_disk_def)
  have m: "store_meta E path pass (s\<lparr>st_contacts := x\<rparr>)" "store_meta E path pass (s\<lparr>st_messages := y\<rparr>)"
    "store_meta E path pass (s\<lparr>st_requests := z\<rparr>)" for x y z
    using meta store_meta_cong by (metis Store.select_convs Store.surjective Store.update_convs)+
  show "store_upsert E c s w = (s', w') \<Longrightarrow> on_disk E path pass s' w'"
    unfolding store_upsert_def by (rule on_disk_autosave [OF laws m(1)])
  show "store_append_message E m s w = (s', w') \<Longrightarrow> on_disk E path pass s' w'"
    unfolding store_append_message_def by (rule on_disk_autosave [OF laws m(2)])
  show "store_add_request E q s w = (s', w') \<Longrightarrow> on_disk E path pass s' w'"
    using assms(2) on_disk_autosave [OF laws m(3)] by (auto simp: store_add_request_def split: if_splits)
  show "on_disk E path pass s' w'" if r: "store_remove_request E p s w = (s', w')"
  proof (cases "length (filter (\<lambda>q. q_peer q \<noteq> p) (st_requests s)) = length (st_requests s)")
    case True
    then have "filter (\<lambda>q. q_peer q \<noteq> p) (st_requests s) = st_requests s"
      by (metis filter_id_conv length_filter_less less_irrefl)
    with r True assms(2) show ?thesis by (auto simp: store_remove_request_def Let_def)
  next
    case False
    with r meta m(3) on_disk_saved [OF laws m(3)] show ?thesis
      by (auto simp: store_remove_request_def Let_def store_meta_def)
  qed
qed

text \<open>A store that was just opened is on disk, whether the file was there or has been created.\<close>

lemma reads_at:
  assumes "\<And>i. file_read_ok E i path"
  shows "read_salt E path m w = ((case files w path of None \<Rightarrow> None | Some f \<Rightarrow>
      fst (read_salt E path m \<lparr>calls = 0, files = [path \<mapsto> f], fds = {}, sent = []\<rparr>)), next_call w)"
    "read_blob E path m k w = ((case files w path of None \<Rightarrow> None | Some f \<Rightarrow>
      fst (read_blob E path m k \<lparr>calls = 0, files = [path \<mapsto> f], fds = {}, sent = []\<rparr>)), next_call w)"
  using assms by (simp_all add: read_salt_def read_blob_def read_file_def split: option.split)

text \<open>Loading depends on nothing but the bytes of the file and the passphrase.\<close>

lemma store_open_load:
  assumes "pwhash_deterministic E" "\<And>i p. file_read_ok E i p" "path \<in> dom (files w)"
  shows "\<exists>w'. files w' = files w \<and> store_open E s path pass w =
    (case fst (read_salt E path kStoreMagic w) of None \<Rightarrow> (False, s, w')
     | Some salt \<Rightarrow> let key = fst (derive_key E pass salt w) in
         if key = [] then (False, s, w')
         else (case fst (read_blob E path kStoreMagic key w) of None \<Rightarrow> (False, s, w')
           | Some plain \<Rightarrow> (case decode plain of None \<Rightarrow> (False, s, w')
             | Some (c, m, q) \<Rightarrow> (True, s\<lparr>st_contacts := c, st_messages := m, st_requests := q,
                 st_salt := salt, st_key := key, st_path := path, st_persistent := True\<rparr>, w'))))"
proof (cases "fst (read_salt E path kStoreMagic w)")
  case None
  then show ?thesis using assms(3) reads_at(1) [OF assms(2), where path = path and m = kStoreMagic and w = w]
    by (intro exI [of _ "next_call w"]) (auto simp: store_open_def split: prod.splits)
next
  case (Some salt)
  have rs: "read_salt E path kStoreMagic w = (Some salt, next_call w)"
    using Some reads_at(1) [OF assms(2), where path = path and m = kStoreMagic and w = w] by simp
  obtain key v where k: "derive_key E pass salt (next_call w) = (key, v)" by fastforce
  have kw: "fst (derive_key E pass salt w) = key" and fv: "files v = files w"
    using derive_key_deterministic [OF assms(1), of pass salt w "next_call w"] derive_key_frame(1) [of E pass salt "next_call w"] k by simp_all
  have rb: "read_blob E path kStoreMagic key v = (fst (read_blob E path kStoreMagic key w), next_call v)"
    using reads_at(2) [OF assms(2), where path = path and m = kStoreMagic and k = key and w = v]
      reads_at(2) [OF assms(2), where path = path and m = kStoreMagic and k = key and w = w] fv by simp
  let ?w = "if key = [] then v else next_call v"
  have "store_open E s path pass w =
    (if key = [] then (False, s, ?w)
         else (case fst (read_blob E path kStoreMagic key w) of None \<Rightarrow> (False, s, ?w)
           | Some plain \<Rightarrow> (case decode plain of None \<Rightarrow> (False, s, ?w)
             | Some (c, m, q) \<Rightarrow> (True, s\<lparr>st_contacts := c, st_messages := m, st_requests := q,
                 st_salt := salt, st_key := key, st_path := path, st_persistent := True\<rparr>, ?w))))"
    using assms(3) by (simp add: store_open_def rs k rb split: option.split)
  then show ?thesis using fv by (intro exI [of _ ?w]) (simp add: Some kw Let_def)
qed

lemma store_open_loaded:
  assumes "pwhash_deterministic E" "\<And>i p. file_read_ok E i p"
    and o: "store_open E s path pass w = (True, s', w')" "path \<in> dom (files w)"
  shows "files w' = files w" "st_path s' = path" "st_persistent s'" "\<exists>v. fst (derive_key E pass (st_salt s') v) = st_key s'"
    "length (st_salt s') = kSaltBytes" "length (st_key s') = kSessionKeyBytes"
    "files w2 path = files w path \<Longrightarrow> \<exists>w3. store_open E s0 path pass w2 = (True, s0\<lparr>st_contacts := st_contacts s',
       st_messages := st_messages s', st_requests := st_requests s', st_salt := st_salt s', st_key := st_key s',
       st_path := path, st_persistent := True\<rparr>, w3) \<and> files w3 = files w2"
proof -
  obtain u where u: "files u = files w" "store_open E s path pass w =
    (case fst (read_salt E path kStoreMagic w) of None \<Rightarrow> (False, s, u)
     | Some salt \<Rightarrow> let key = fst (derive_key E pass salt w) in
         if key = [] then (False, s, u)
         else (case fst (read_blob E path kStoreMagic key w) of None \<Rightarrow> (False, s, u)
           | Some plain \<Rightarrow> (case decode plain of None \<Rightarrow> (False, s, u)
             | Some (c, m, q) \<Rightarrow> (True, s\<lparr>st_contacts := c, st_messages := m, st_requests := q,
                 st_salt := salt, st_key := key, st_path := path, st_persistent := True\<rparr>, u))))"
    using store_open_load [OF assms(1,2,4)] by blast
  obtain salt where salt: "fst (read_salt E path kStoreMagic w) = Some salt"
    using o(1) u(2) by (cases "fst (read_salt E path kStoreMagic w)") auto
  define key where "key = fst (derive_key E pass salt w)"
  have ne: "key \<noteq> []" using o(1) u(2) salt by (auto simp: key_def Let_def)
  obtain plain where plain: "fst (read_blob E path kStoreMagic key w) = Some plain"
    using o(1) u(2) salt ne by (cases "fst (read_blob E path kStoreMagic key w)") (auto simp: key_def Let_def)
  obtain c m q where dec: "decode plain = Some (c, m, q)"
    using o(1) u(2) salt ne plain by (cases "decode plain") (auto simp: key_def Let_def)
  have s': "s' = s\<lparr>st_contacts := c, st_messages := m, st_requests := q, st_salt := salt, st_key := key,
      st_path := path, st_persistent := True\<rparr>" "w' = u"
    using o(1) u(2) salt ne plain dec by (simp_all add: key_def Let_def)
  show "files w' = files w" "st_path s' = path" "st_persistent s'" using s' u(1) by simp_all
  show "\<exists>v. fst (derive_key E pass (st_salt s') v) = st_key s'" using s' key_def by auto
  show "length (st_salt s') = kSaltBytes"
    using salt s' by (auto simp: read_salt_def blob_sizes valid_header_def split: option.splits if_splits prod.splits)
  show "length (st_key s') = kSessionKeyBytes"
    using plain s' by (auto simp: read_blob_def open_sealed_def split: option.splits if_splits prod.splits)
  assume f: "files w2 path = files w path"
  have "path \<in> dom (files w2)" using f assms(4) by (simp add: dom_def)
  from store_open_load [OF assms(1,2) this, of s0 pass] obtain u2 where u2: "files u2 = files w2" "store_open E s0 path pass w2 =
    (case fst (read_salt E path kStoreMagic w2) of None \<Rightarrow> (False, s0, u2)
     | Some salt \<Rightarrow> let key = fst (derive_key E pass salt w2) in
         if key = [] then (False, s0, u2)
         else (case fst (read_blob E path kStoreMagic key w2) of None \<Rightarrow> (False, s0, u2)
           | Some plain \<Rightarrow> (case decode plain of None \<Rightarrow> (False, s0, u2)
             | Some (c, m, q) \<Rightarrow> (True, s0\<lparr>st_contacts := c, st_messages := m, st_requests := q,
                 st_salt := salt, st_key := key, st_path := path, st_persistent := True\<rparr>, u2))))" by blast
  have "fst (read_salt E path kStoreMagic w2) = Some salt" "fst (read_blob E path kStoreMagic key w2) = Some plain"
    using salt plain f reads_at [OF assms(2), where path = path] by (metis fst_conv)+
  moreover have "fst (derive_key E pass salt w2) = key"
    unfolding key_def by (rule derive_key_deterministic [OF assms(1)])
  ultimately show "\<exists>w3. store_open E s0 path pass w2 = (True, s0\<lparr>st_contacts := st_contacts s',
       st_messages := st_messages s', st_requests := st_requests s', st_salt := st_salt s', st_key := st_key s',
       st_path := path, st_persistent := True\<rparr>, w3) \<and> files w3 = files w2"
    using u2 ne dec s' by (simp add: Let_def)
qed

lemma store_open_on_disk:
  assumes laws: "file_laws E" and o: "store_open E s path pass w = (True, s', w')"
  shows "on_disk E path pass s' w'" "st_path s' = path"
proof -
  have "on_disk E path pass s' w' \<and> st_path s' = path"
  proof (cases "path \<in> dom (files w)")
    case False
    obtain salt w1 where g: "generate_salt E w = (salt, w1)" by fastforce
    obtain key w2 where k: "derive_key E pass salt w1 = (key, w2)" by fastforce
    have s': "s' = s\<lparr>st_salt := salt, st_key := key, st_path := path, st_persistent := True\<rparr>" "store_save E s' w2 = (True, w')"
      using o False g k by (auto simp: store_open_def Let_def split: if_splits prod.splits)
    then have "length salt = kSaltBytes \<and> length key = kSessionKeyBytes"
      using write_blob_True [OF _ file_lawsD(1) [OF laws]] by (auto simp: store_save_def)
    moreover have "fst (derive_key E pass salt w1) = key" using k by simp
    ultimately have "store_meta E path pass s'" using s'(1) by (auto simp: store_meta_def)
    from on_disk_saved [OF laws this, of w' w2] s' show ?thesis by simp
  next
    case True
    note ld = store_open_loaded [OF file_lawsD(4,6) [OF laws] o True]
    have "store_meta E path pass s'" using ld(2-6) by (simp add: store_meta_def)
    then show ?thesis using ld(1,2,7) unfolding on_disk_def reopens_def by auto
  qed
  then show "on_disk E path pass s' w'" "st_path s' = path" by blast+
qed

text \<open>On a file that is not there the store starts empty, and everything else on the disk stays as it is.\<close>

definition pwhash_works :: "env \<Rightarrow> bool" where
  "pwhash_works E \<longleftrightarrow> (\<forall>i p s. \<exists>k. crypto_pwhash E i p s = Some k \<and> length k = kSessionKeyBytes)"

lemma pwhash_works_toy: "pwhash_works toy_env"
  by (simp add: pwhash_works_def crypto_sizes)

lemma derive_key_works:
  "pwhash_works E \<Longrightarrow> length salt = kKdfSaltBytes \<Longrightarrow> length (fst (derive_key E p salt w)) = kSessionKeyBytes"
  by (auto simp: pwhash_works_def derive_key_def split: option.split) (metis option.distinct(1), metis option.inject)

lemma generate_salt_sized: "random_sized E \<Longrightarrow> length (fst (generate_salt E w)) = kKdfSaltBytes"
  by (simp add: generate_salt_def length_random_bytes)

lemma store_open_fresh:
  assumes laws: "file_laws E" "pwhash_works E" and f: "path \<notin> dom (files w)"
  shows "\<exists>s' w'. store_open E s path pass w = (True, s', w') \<and> st_contacts s' = st_contacts s \<and>
    st_messages s' = st_messages s \<and> st_requests s' = st_requests s"
proof -
  obtain salt w1 where g: "generate_salt E w = (salt, w1)" by fastforce
  obtain key w2 where k: "derive_key E pass salt w1 = (key, w2)" by fastforce
  have len: "length salt = kKdfSaltBytes" "length key = kSessionKeyBytes"
    using generate_salt_sized [OF file_lawsD(3) [OF laws(1)], of w] derive_key_works [OF laws(2), of salt pass w1] g k by simp_all
  let ?s = "s\<lparr>st_salt := salt, st_key := key, st_path := path, st_persistent := True\<rparr>"
  have "store_meta E path pass ?s"
    using len k by (auto simp: store_meta_def kKdfSaltBytes_def kSaltBytes_def) (metis fst_conv)
  from store_save_works [OF laws(1) this] obtain w' where "store_save E ?s w2 = (True, w')" by blast
  moreover have "key \<noteq> []" using len(2) by (auto simp: crypto_sizes)
  ultimately show ?thesis using f g k by (auto simp: store_open_def Let_def)
qed

section \<open>The engine\<close>

definition durable :: "env \<Rightarrow> string \<Rightarrow> string \<Rightarrow> Engine \<Rightarrow> world \<Rightarrow> bool" where
  "durable E path pass e w \<longleftrightarrow> file_laws E \<and> on_disk E path pass (eng_contacts e) w"

lemma durable_frame: "durable E path pass e w \<Longrightarrow> eng_contacts e' = eng_contacts e \<Longrightarrow> files w' = files w \<Longrightarrow> durable E path pass e' w'"
  using on_disk_frame [of E path pass "eng_contacts e" w w'] by (simp add: durable_def)

lemma durable_socket_step:
  "durable E path pass e w \<Longrightarrow> e' = e\<lparr>eng_socket := s\<rparr> \<Longrightarrow> files w' = files w \<Longrightarrow> durable E path pass e' w'"
  by (rule durable_frame) simp_all

lemma durableD: "durable E path pass e w \<Longrightarrow> file_laws E" "durable E path pass e w \<Longrightarrow> on_disk E path pass (eng_contacts e) w"
  by (simp_all add: durable_def)

lemma durable_upsert: "durable E path pass e w \<Longrightarrow> engine_upsert E c e w = (e', w') \<Longrightarrow> durable E path pass e' w'"
  by (auto simp: durable_def engine_upsert_def split: prod.splits intro: on_disk_ops(1))

lemma durable_set_trust: "durable E path pass e w \<Longrightarrow> set_trust E p t e w = (e', w') \<Longrightarrow> durable E path pass e' w'"
  by (auto simp: set_trust_def Let_def intro: durable_upsert)

lemma durable_set_nickname: "durable E path pass e w \<Longrightarrow> set_nickname E p n e w = (e', w') \<Longrightarrow> durable E path pass e' w'"
  by (auto simp: set_nickname_def Let_def intro: durable_upsert)

lemma durable_record:
  assumes "durable E path pass e w" "record_message E p m out e w = (e', w')"
  shows "durable E path pass e' w'"
proof -
  have 1: "on_disk E path pass (eng_contacts e) (next_call w)" by (rule on_disk_frame [OF durableD(2) [OF assms(1)]]) simp
  show ?thesis
    using assms(2) on_disk_ops(2) [OF durableD(1) [OF assms(1)] 1] durableD(1) [OF assms(1)]
    by (auto simp: durable_def record_message_def now_seconds_def split: prod.splits)
qed

lemma durable_send_encrypted:
  assumes "durable E path pass e w" "send_encrypted E p s ty m e w = (ok, e', w')"
  shows "durable E path pass e' w'"
  using send_encrypted_eff [OF assms(2)] durable_frame [OF assms(1)] by auto

lemma durable_ensure:
  assumes "durable E path pass e w" "ensure_session E p e = (r, e')"
  shows "durable E path pass e' w"
proof -
  have "eng_contacts e' = eng_contacts e"
    using assms(2) by (auto simp: ensure_session_def Let_def split: option.splits if_splits)
  with assms(1) show ?thesis by (simp add: durable_def)
qed

lemma durable_fields:
  "durable E path pass (e\<lparr>eng_endpoints := a\<rparr>) w = durable E path pass e w" "durable E path pass (e\<lparr>eng_outgoing := b\<rparr>) w = durable E path pass e w"
  "durable E path pass (e\<lparr>eng_incoming := b\<rparr>) w = durable E path pass e w" "durable E path pass (e\<lparr>eng_events := c\<rparr>) w = durable E path pass e w"
  "durable E path pass (put_session p s e) w = durable E path pass e w"
  by (simp_all add: durable_def put_session_def)

lemma durable_request:
  assumes "durable E path pass e w" "send_contact_request E p ep g e w = (ok, e', w')"
  shows "durable E path pass e' w'"
proof -
  obtain r e1 where r: "ensure_session E p e = (r, e1)" by fastforce
  note 1 = durable_ensure [OF assms(1) r]
  let ?e = "e1\<lparr>eng_endpoints := (eng_endpoints e1)(to_hex p \<mapsto> ep), eng_outgoing := insert (to_hex p) (eng_outgoing e1)\<rparr>"
  obtain e2 w2 where t: "set_trust E p Pending ?e w = (e2, w2)" by fastforce
  have "durable E path pass ?e w" using 1 by (simp add: durable_def)
  note 2 = durable_set_trust [OF this t]
  show ?thesis
    using assms r 1 t durable_send_encrypted [OF 2]
    by (auto simp: send_contact_request_def Let_def split: if_splits option.splits)
qed

lemma durable_decide:
  assumes "durable E path pass e w" "decide_contact E t d p e w = (ok, e', w')"
  shows "durable E path pass e' w'"
proof -
  obtain r e1 where r: "ensure_session E p e = (r, e1)" by fastforce
  note 1 = durable_ensure [OF assms(1) r]
  obtain st w1 where rm: "store_remove_request E p (eng_contacts e1) w = (st, w1)" by fastforce
  let ?e = "e1\<lparr>eng_incoming := eng_incoming e1 - {to_hex p}, eng_contacts := st\<rparr>"
  have 2: "durable E path pass ?e w1"
    using on_disk_ops(4) [OF durableD [OF 1] rm] durableD(1) [OF 1] by (simp add: durable_def)
  obtain e2 w2 where t: "set_trust E p t ?e w1 = (e2, w2)" by fastforce
  note 3 = durable_set_trust [OF 2 t]
  show ?thesis
    using assms r 1 rm t durable_send_encrypted [OF 3]
    by (auto simp: decide_contact_def Let_def split: if_splits option.splits)
qed

lemma durable_send:
  assumes "durable E path pass e w" "send E p m e w = (ok, e', w')"
  shows "durable E path pass e' w'"
proof -
  obtain r e1 where r: "ensure_session E p e = (r, e1)" by fastforce
  note 1 = durable_ensure [OF assms(1) r]
  show ?thesis
    using assms r 1
    by (auto simp: send_def split: if_splits option.splits prod.splits bool.splits
        dest: durable_send_encrypted intro: durable_record)
qed

lemma durable_message: "durable E path pass e w \<Longrightarrow> handle_message E p m e w = (e', w') \<Longrightarrow> durable E path pass e' w'"
  by (auto simp: handle_message_def durable_fields split: prod.splits if_splits dest: durable_record)

lemma durable_incoming_request:
  assumes "durable E path pass e w" "handle_contact_request E p g e w = (e', w')"
  shows "durable E path pass e' w'"
proof (cases "store_trust_of (eng_contacts e) p \<noteq> None \<or> to_hex p \<in> eng_incoming e")
  case True
  with assms show ?thesis by (auto simp: handle_contact_request_def)
next
  case False
  let ?e = "e\<lparr>eng_incoming := insert (to_hex p) (eng_incoming e)\<rparr>" and ?g = "string_of_bytes g"
  obtain e1 w1 where t: "set_trust E p Pending ?e w = (e1, w1)" by fastforce
  have 1: "durable E path pass e1 w1" by (rule durable_set_trust [OF _ t]) (use assms(1) in \<open>simp add: durable_fields\<close>)
  obtain e2 w2 where n: "(if ?g \<noteq> [] then set_nickname E p ?g e1 w1 else (e1, w1)) = (e2, w2)" by fastforce
  have 2: "durable E path pass e2 w2" using 1 n by (auto split: if_splits intro: durable_set_nickname)
  obtain st w3 where q: "store_add_request E \<lparr>q_peer = p, q_greeting = ?g, q_timestamp = os_time E (calls w2)\<rparr>
      (eng_contacts e2) (next_call w2) = (st, w3)" by fastforce
  have "on_disk E path pass (eng_contacts e2) (next_call w2)"
    by (rule on_disk_frame [OF durableD(2) [OF 2]]) simp
  from on_disk_ops(3) [OF durableD(1) [OF 2] this q] durableD(1) [OF 2]
  have "durable E path pass (e2\<lparr>eng_contacts := st\<rparr>) w3" by (simp add: durable_def)
  with assms(2) False t n q show ?thesis
    by (auto simp: handle_contact_request_def now_seconds_def Let_def durable_fields split: if_splits)
qed

lemma durable_incoming_response:
  "durable E path pass e w \<Longrightarrow> handle_contact_response E p d e w = (e', w') \<Longrightarrow> durable E path pass e' w'"
  by (auto simp: handle_contact_response_def Let_def durable_fields split: if_splits prod.splits
      dest!: durable_set_trust [rotated])

lemma durable_start_probing:
  "durable E path pass e w \<Longrightarrow> start_probing E p ep e w = (e', w') \<Longrightarrow> durable E path pass e' w'"
  using start_probing_eff [of E p ep e w e' w'] by (auto intro: durable_frame)

lemma durable_probe:
  assumes "durable E path pass e w" "handle_probe E p src e w = (e', w')"
  shows "durable E path pass e' w'"
  using assms by (auto simp: handle_probe_def Let_def durable_def split: if_splits option.splits dest!: send_probe_eff intro: on_disk_frame)

lemma durable_connected:
  assumes "durable E path pass e w" "handle_connect E p pl e w = (e', w')"
  shows "durable E path pass e' w'"
proof -
  have "durable E path pass (e\<lparr>eng_endpoints := a\<rparr>) w" for a using assms(1) by (simp add: durable_def)
  with assms show ?thesis
    by (auto simp: handle_connect_def Let_def split: option.splits intro: durable_start_probing)
qed

lemma durable_deliver:
  assumes "durable E path pass e w" "deliver E p m src e w = (ok, e', w')"
  shows "durable E path pass e' w'"
proof -
  obtain e1 where e1: "eng_contacts e1 = eng_contacts e" "deliver E p m src e w = (case ptype p of
        PacketType.Message \<Rightarrow> (True, handle_message E (source p) m e1 w)
      | ContactRequest \<Rightarrow> (True, handle_contact_request E (source p) m e1 w)
      | ContactResponse \<Rightarrow> (True, handle_contact_response E (source p) m e1 w)
      | _ \<Rightarrow> (False, e1, w))" using deliver_split by blast
  have 1: "durable E path pass e1 w" by (rule durable_frame [OF assms(1) e1(1) refl])
  show ?thesis
    using assms(2) 1 unfolding e1(2)
    by (auto split: PacketType.splits intro: durable_message durable_incoming_request durable_incoming_response)
qed

lemma durable_dispatch:
  assumes "durable E path pass e w" "dispatch E dg e w = (ok, e', w')"
  shows "durable E path pass e' w'"
  using assms(2)
proof (cases rule: dispatch_cases)
  case bad
  with assms(1) show ?thesis by simp
next
  case (probe p)
  then show ?thesis using durable_probe [OF assms(1)] by blast
next
  case (conn p)
  then show ?thesis using durable_connected [OF assms(1)] by blast
next
  case (session p s e1)
  have 1: "durable E path pass (put_session (source p) s' e1) w" for s'
    using durable_ensure [OF assms(1) session(2)] by (simp add: durable_fields)
  show ?thesis
  proof (cases rule: decrypt_cases [of E s p])
    case rejected
    with session(3) 1 show ?thesis by auto
  next
    case (accepted m)
    with session(3) durable_deliver [OF 1] show ?thesis by auto
  qed
qed

lemma durable_poll:
  assumes "durable E path pass e w" "poll E t e w = (ok, e', w')"
  shows "durable E path pass e' w'"
proof -
  obtain dg w1 where r: "receive E (eng_socket e) t kReceiveBufferSize w = (dg, w1)" by fastforce
  have "durable E path pass e w1" by (rule durable_frame [OF assms(1) refl]) (use receive_frame [OF r] in simp)
  with assms(2) r show ?thesis by (auto simp: poll_def split: option.splits intro: durable_dispatch)
qed

lemma tick_loop_files: "files (snd (tick_loop E now order e w)) = files w"
proof (induction order arbitrary: e w)
  case (Cons key order)
  then show ?case
    by (auto split: option.splits prod.splits dest!: send_probe_eff)
qed simp

lemma socket_bind_files: "socket_bind E s ep w = (ok, s', w') \<Longrightarrow> files w' = files w"
  by (auto simp: socket_bind_def socket_close_def open_fd_def Let_def split: prod.splits option.splits if_splits
      dest!: arg_cong [of _ _ "\<lambda>r. files (snd r)"])

lemma durable_quiet:
  assumes "durable E path pass e w"
  shows "engine_bind E ep e w = (ok, e', w') \<Longrightarrow> durable E path pass e' w'"
    and "announce_to E ep e w = (ok, e', w') \<Longrightarrow> durable E path pass e' w'"
    and "connect E p ep e w = (ep', e', w') \<Longrightarrow> durable E path pass e' w'"
    and "tick E order e w = (e', w') \<Longrightarrow> durable E path pass e' w'"
proof -
  show "engine_bind E ep e w = (ok, e', w') \<Longrightarrow> durable E path pass e' w'"
    using assms by (auto simp: engine_bind_def split: prod.splits dest!: socket_bind_files intro: durable_frame)
  show "announce_to E ep e w = (ok, e', w') \<Longrightarrow> durable E path pass e' w'"
    using assms by (auto simp: announce_to_def Let_def dest!: engine_send_to_eff intro: durable_frame)
  have "durable E path pass (e\<lparr>eng_endpoints := a\<rparr>) w" for a using assms by (simp add: durable_def)
  then show "connect E p ep e w = (ep', e', w') \<Longrightarrow> durable E path pass e' w'"
    by (auto simp: connect_def Let_def split: prod.splits intro: durable_start_probing)
  show "durable E path pass e' w'" if t: "tick E order e w = (e', w')"
    using t tick_loop_eff [of E "steady_clock_now E (calls w)" order e "next_call w"]
      tick_loop_files [of E "steady_clock_now E (calls w)" order e "next_call w"]
    by (auto simp: tick_def intro: durable_frame [OF assms])
qed

lemma durable_add_peer:
  assumes "durable E path pass e w" "add_peer E p ep e w = (ok, e', w')"
  shows "durable E path pass e' w'"
proof -
  obtain r e1 where r: "ensure_session E p e = (r, e1)" by fastforce
  note 1 = durable_ensure [OF assms(1) r]
  then show ?thesis
    using assms r by (auto simp: add_peer_def Let_def durable_fields split: option.splits prod.splits
        intro: durable_set_trust [rotated])
qed

lemma durable_run:
  assumes "durable E path pass e w" "run E a e w = (e', w')" "\<And>p q. a \<noteq> DoOpenStore p q"
  shows "durable E path pass e' w'"
proof (cases a)
  case (DoBind ep) with assms show ?thesis using durable_quiet(1) by (metis run.simps(1) prod.collapse)
next
  case (DoAnnounce ep) with assms show ?thesis using durable_quiet(2) by (metis run.simps(2) prod.collapse)
next
  case (DoAddPeer p ep) with assms show ?thesis using durable_add_peer by (metis run.simps(4) prod.collapse)
next
  case (DoSetNickname p n) with assms show ?thesis using durable_set_nickname by (metis run.simps(5))
next
  case (DoSendRequest p ep g) with assms show ?thesis using durable_request by (metis run.simps(6) prod.collapse)
next
  case (DoAccept p) with assms show ?thesis using durable_decide by (metis run.simps(7) accept_contact_def prod.collapse)
next
  case (DoReject p) with assms show ?thesis using durable_decide by (metis run.simps(8) reject_contact_def prod.collapse)
next
  case (DoSend p m) with assms show ?thesis using durable_send by (metis run.simps(9) prod.collapse)
next
  case (DoConnect p ep) with assms show ?thesis using durable_quiet(3) by (metis run.simps(11) prod.collapse)
next
  case (DoTick order) with assms show ?thesis using durable_quiet(4) by (metis run.simps(12))
next
  case (DoPoll t) with assms show ?thesis using durable_poll by (metis run.simps(13) prod.collapse)
qed (use assms in \<open>auto simp: set_relay_def on_message_def on_contact_request_def on_contact_response_def durable_def\<close>)

section \<open>Restarting\<close>

text \<open>What an engine shows a user interface (\<^verbatim>\<open>contacts\<close>, \<^verbatim>\<open>conversation\<close>, \<^verbatim>\<open>pending_requests\<close> in \<^verbatim>\<open>engine.hpp\<close>).\<close>

definition engine_contacts :: "Engine \<Rightarrow> Contact list" where
  "engine_contacts e = st_contacts (eng_contacts e)"

definition engine_conversation :: "Engine \<Rightarrow> bytes \<Rightarrow> StoredMessage list" where
  "engine_conversation e peer = store_conversation (eng_contacts e) peer"

definition engine_pending_requests :: "Engine \<Rightarrow> Request list" where
  "engine_pending_requests e = st_requests (eng_contacts e)"

text \<open>A run of the engine in which only the engine touches the file between two actions.\<close>

inductive own_run :: "env \<Rightarrow> string \<Rightarrow> Engine \<Rightarrow> world \<Rightarrow> Action list \<Rightarrow> Engine \<Rightarrow> world \<Rightarrow> bool" for E path where
  init: "own_run E path e w [] e w"
| act: "own_run E path e w as e1 w1 \<Longrightarrow> files w2 path = files w1 path \<Longrightarrow> run E a e1 w2 = (e2, w3) \<Longrightarrow>
     own_run E path e w (as @ [a]) e2 w3"


lemma own_run_durable:
  "own_run E path e w as e' w' \<Longrightarrow> durable E path pass e w \<Longrightarrow> \<forall>p q. DoOpenStore p q \<notin> set as \<Longrightarrow> durable E path pass e' w'"
proof (induction rule: own_run.induct)
  case (act e w as e1 w1 w2 a e2 w3)
  then have "durable E path pass e1 w1" by simp
  then have "durable E path pass e1 w2"
    using act.hyps(2) by (auto simp: durable_def intro: on_disk_frame_path)
  then show ?case by (rule durable_run [OF _ act.hyps(3)]) (use act.prems(2) in auto)
qed

lemma durable_open_store:
  assumes "file_laws E" "open_store E path pass e w = (True, e', w')"
  shows "durable E path pass e' w'"
proof -
  obtain st where "store_open E (eng_contacts e) path pass w = (True, st, w')" "eng_contacts e' = st"
    using assms(2) by (auto simp: open_store_def Let_def split: prod.splits if_splits)
  with store_open_on_disk(1) [OF assms(1)] assms(1) show ?thesis by (auto simp: durable_def)
qed

text \<open>
  (C8) The database survives a restart: once the store is open, after any sequence
  of actions (requests, decisions, messages, received datagrams, announcements, failed sends), a new
  engine that opens the same file with the same passphrase succeeds and has the same
  contacts and trust, the same history and the same pending requests, each of which it can still decide.
  (The lists must fit the length fields of the file format, and nobody else may write that file.)
  What is not kept: sessions, addresses, and which requests of ours await an answer.
\<close>

theorem engine_restart_recovers:
  assumes laws: "file_laws E" and opened: "open_store E path pass e w = (True, e1, w1)"
    and run: "own_run E path e1 w1 as e2 w2" and once: "\<forall>p q. DoOpenStore p q \<notin> set as"
    and fits: "wf_lists (st_contacts (eng_contacts e2)) (st_messages (eng_contacts e2)) (st_requests (eng_contacts e2))"
    and same: "files w3 path = files w2 path"
  shows "\<exists>e3 w4. open_store E path pass (new_engine pk sk) w3 = (True, e3, w4) \<and>
    engine_contacts e3 = engine_contacts e2 \<and> engine_pending_requests e3 = engine_pending_requests e2 \<and>
    (\<forall>p. trust_of e3 p = trust_of e2 p \<and> engine_conversation e3 p = engine_conversation e2 p) \<and>
    (\<forall>q\<in>set (engine_pending_requests e3). to_hex (q_peer q) \<in> eng_incoming e3) \<and>
    eng_outgoing e3 = {} \<and> eng_sessions e3 = Map.empty \<and> eng_endpoints e3 = Map.empty"
proof -
  have "durable E path pass e2 w2"
    by (rule own_run_durable [OF run durable_open_store [OF laws opened] once])
  then have "store_meta E path pass (eng_contacts e2)" "reopens E pass (eng_contacts e2) w2"
    using fits by (simp_all add: durable_def on_disk_def)
  then obtain st w4 where "store_open E (eng_contacts (new_engine pk sk)) path pass w3 = (True, st, w4)"
      "st_contacts st = st_contacts (eng_contacts e2)" "st_messages st = st_messages (eng_contacts e2)"
      "st_requests st = st_requests (eng_contacts e2)"
    using reopensD [OF _ _ same, of E pass "eng_contacts e2" "eng_contacts (new_engine pk sk)"] by (auto simp: store_meta_def)
  then show ?thesis
    by (auto simp: open_store_def trust_of_def store_trust_of_def engine_contacts_def engine_conversation_def
        engine_pending_requests_def store_conversation_def new_engine_def)
qed


theorem engine_restart_recovers_witness:
  "\<exists>e1 w1 e2 w2 e3 w4. open_store toy_env ''db'' ''pw'' (new_engine [1] [2]) toy_world = (True, e1, w1) \<and>
     run toy_env (DoSetNickname (pad 32 [7]) ''bob'') e1 w1 = (e2, w2) \<and>
     open_store toy_env ''db'' ''pw'' (new_engine [1] [2]) w2 = (True, e3, w4) \<and>
     engine_contacts e3 = [\<lparr>c_key = pad 32 [7], c_nickname = ''bob'', c_trust = Pending, c_last_seen = 0\<rparr>]"
proof -
  let ?c = "\<lparr>c_key = pad 32 [7], c_nickname = ''bob'', c_trust = Pending, c_last_seen = 0\<rparr>"
  obtain st w1 where "store_open toy_env default_store ''db'' ''pw'' toy_world = (True, st, w1)"
    and st: "st_contacts st = []" "st_messages st = []" "st_requests st = []"
    using store_open_fresh [OF file_laws_toy pwhash_works_toy, of "''db''" toy_world default_store "''pw''"]
    by (auto simp: default_store_def toy_world_def)
  then obtain e1 where o: "open_store toy_env ''db'' ''pw'' (new_engine [1] [2]) toy_world = (True, e1, w1)"
    and e1: "eng_contacts e1 = st" by (simp add: open_store_def new_engine_def)
  obtain e2 w2 where r: "run toy_env (DoSetNickname (pad 32 [7]) ''bob'') e1 w1 = (e2, w2)" by fastforce
  have own: "own_run toy_env ''db'' e1 w1 ([] @ [DoSetNickname (pad 32 [7]) ''bob'']) e2 w2"
    by (rule own_run.act [OF own_run.init refl r])
  have e2: "st_contacts (eng_contacts e2) = [?c]" "st_messages (eng_contacts e2) = []" "st_requests (eng_contacts e2) = []"
    using r st e1
    by (auto simp: set_nickname_def engine_upsert_def store_find_def default_contact_def Let_def split: prod.splits
        dest!: arg_cong [of _ _ fst])
  then have "wf_lists (st_contacts (eng_contacts e2)) (st_messages (eng_contacts e2)) (st_requests (eng_contacts e2))"
    by (simp add: wf_lists_def wf_contact_def wf_trust_def trust_status_of_def fits_u16_def fits_u32_def is_i64_def)
  from engine_restart_recovers [OF file_laws_toy o own _ this refl, of "[1]" "[2]"] o r e2
  show ?thesis by (auto simp: engine_contacts_def)
qed

end
