(* ===== verification/Tables.thy ===== *)
theory Tables
  imports Endpoint
begin

text \<open>
  The two in-memory tables of the servers, \<^verbatim>\<open>PeerRegistry\<close> (\<^verbatim>\<open>servers/signaling/src/registry.cpp\<close>)
  and \<^verbatim>\<open>RouteTable\<close> (\<^verbatim>\<open>servers/relay/src/router.cpp\<close>), and the contract they share: a lookup
  returns what was put last and not swept since.  An unordered map is a HOL map; the sweep
  erases entries independently of each other, so the iteration order does not matter.
  Times are seconds of type \<open>int\<close>.
\<close>

section \<open>The contract\<close>

locale expiring_table =
  fixes put :: "string \<Rightarrow> Endpoint \<Rightarrow> int \<Rightarrow> 't \<Rightarrow> 't"
    and get :: "'t \<Rightarrow> string \<Rightarrow> Endpoint option"
    and seen :: "'t \<Rightarrow> string \<Rightarrow> int option"
    and sweep :: "int \<Rightarrow> 't \<Rightarrow> 't"
  assumes get_put: "get (put k ep now t) j = (if j = k then Some ep else get t j)"
    and seen_put: "seen (put k ep now t) j = (if j = k then Some now else seen t j)"
    and get_sweep: "get (sweep c t) j = (case seen t j of None \<Rightarrow> None | Some a \<Rightarrow> if a < c then None else get t j)"
    and seen_sweep: "seen (sweep c t) j = (case seen t j of None \<Rightarrow> None | Some a \<Rightarrow> if a < c then None else Some a)"
    and seen_get: "seen t j = None \<longleftrightarrow> get t j = None"
begin

lemma put_survives: "c \<le> now \<Longrightarrow> get (sweep c (put k ep now t)) k = Some ep"
  by (simp add: get_sweep seen_put get_put)

lemma sweep_sound: "get (sweep c t) j = Some ep \<Longrightarrow> get t j = Some ep \<and> (\<exists>a. seen t j = Some a \<and> c \<le> a)"
  by (auto simp: get_sweep split: option.splits if_splits)

lemma sweep_complete: "get t j = Some ep \<Longrightarrow> seen t j = Some a \<Longrightarrow> c \<le> a \<Longrightarrow> get (sweep c t) j = Some ep"
  by (simp add: get_sweep)

text \<open>Everything left after a sweep is young enough.\<close>

lemma sweep_young: "seen (sweep c t) j = Some a \<Longrightarrow> c \<le> a"
  by (auto simp: seen_sweep split: option.splits if_splits)

text \<open>Sweeping twice is sweeping once, at the later cutoff.\<close>

lemma sweep_sweep: "get (sweep c (sweep d t)) j = get (sweep (max c d) t) j"
  by (auto simp: get_sweep seen_sweep split: option.splits)

end

section \<open>The peer registry\<close>

record Entry =
  en_endpoint :: Endpoint
  en_last_seen :: int

type_synonym PeerRegistry = "string \<rightharpoonup> Entry"

definition registry_upsert :: "string \<Rightarrow> Endpoint \<Rightarrow> int \<Rightarrow> PeerRegistry \<Rightarrow> PeerRegistry" where
  "registry_upsert fp endpoint now peers = peers(fp \<mapsto> \<lparr>en_endpoint = endpoint, en_last_seen = now\<rparr>)"

definition registry_lookup :: "PeerRegistry \<Rightarrow> string \<Rightarrow> Endpoint option" where
  "registry_lookup peers fp = (case peers fp of None \<Rightarrow> None | Some it \<Rightarrow> Some (en_endpoint it))"

definition registry_remove :: "string \<Rightarrow> PeerRegistry \<Rightarrow> bool \<times> PeerRegistry" where
  "registry_remove fp peers = (peers fp \<noteq> None, peers(fp := None))"

definition registry_expire :: "int \<Rightarrow> PeerRegistry \<Rightarrow> PeerRegistry" where
  "registry_expire cutoff peers =
     (\<lambda>k. case peers k of None \<Rightarrow> None | Some it \<Rightarrow> if en_last_seen it < cutoff then None else Some it)"

section \<open>The route table\<close>

record RouteEntry =
  rt_endpoint :: Endpoint
  rt_last_seen :: int

type_synonym RouteTable = "string \<rightharpoonup> RouteEntry"

definition route_upsert :: "string \<Rightarrow> Endpoint \<Rightarrow> int \<Rightarrow> RouteTable \<Rightarrow> RouteTable" where
  "route_upsert key endpoint now routes = routes(key \<mapsto> \<lparr>rt_endpoint = endpoint, rt_last_seen = now\<rparr>)"

definition route_lookup :: "RouteTable \<Rightarrow> string \<Rightarrow> Endpoint option" where
  "route_lookup routes key = (case routes key of None \<Rightarrow> None | Some it \<Rightarrow> Some (rt_endpoint it))"

definition route_expire :: "int \<Rightarrow> RouteTable \<Rightarrow> RouteTable" where
  "route_expire cutoff routes =
     (\<lambda>k. case routes k of None \<Rightarrow> None | Some it \<Rightarrow> if rt_last_seen it < cutoff then None else Some it)"

section \<open>Both tables satisfy it\<close>

definition registry_seen :: "PeerRegistry \<Rightarrow> string \<Rightarrow> int option" where
  "registry_seen peers fp = map_option en_last_seen (peers fp)"

definition route_seen :: "RouteTable \<Rightarrow> string \<Rightarrow> int option" where
  "route_seen routes key = map_option rt_last_seen (routes key)"

interpretation registry: expiring_table registry_upsert registry_lookup registry_seen registry_expire
  by unfold_locales (auto simp: registry_upsert_def registry_lookup_def registry_seen_def registry_expire_def
      split: option.splits)

interpretation route: expiring_table route_upsert route_lookup route_seen route_expire
  by unfold_locales (auto simp: route_upsert_def route_lookup_def route_seen_def route_expire_def
      split: option.splits)

lemma registry_remove_lookup [simp]:
  "registry_lookup (snd (registry_remove fp peers)) k = (if k = fp then None else registry_lookup peers k)"
  "registry_seen (snd (registry_remove fp peers)) k = (if k = fp then None else registry_seen peers k)"
  by (simp_all add: registry_remove_def registry_lookup_def registry_seen_def)

end
