(* ===== verification/Relay.thy ===== *)
theory Relay
  imports Tables Crypto Packet Socket
begin

text \<open>
  The relay server (\<^verbatim>\<open>servers/relay/src/server.cpp\<close>): it learns where each source key was last
  seen and forwards datagrams by destination key, byte for byte.
\<close>

section \<open>State\<close>

record Forward =
  fw_to :: Endpoint
  fw_datagram :: bytes

record RelayConfig =
  route_ttl_seconds :: int

definition default_relay_config :: RelayConfig where
  "default_relay_config = \<lparr>route_ttl_seconds = 60\<rparr>"

record RelayServer =
  rl_config :: RelayConfig
  rl_routes :: RouteTable
  rl_socket :: UdpSocket
  rl_running :: bool

definition new_relay_server :: "RelayConfig \<Rightarrow> RelayServer" where
  "new_relay_server config = \<lparr>rl_config = config, rl_routes = Map.empty, rl_socket = default_socket,
     rl_running = False\<rparr>"

section \<open>Operations\<close>

definition relay_handle ::
  "bytes \<Rightarrow> Endpoint \<Rightarrow> int \<Rightarrow> Forward list \<Rightarrow> RelayServer \<Rightarrow> Forward list \<times> RelayServer" where
  "relay_handle datagram src now out s =
     (case deserialize datagram default_packet of
        (False, _) \<Rightarrow> (out, s)
      | (True, packet) \<Rightarrow>
          let s = (if source packet \<noteq> []
                   then s\<lparr>rl_routes := route_upsert (to_hex (source packet)) src now (rl_routes s)\<rparr> else s);
              out = (if destination packet \<noteq> []
                     then case route_lookup (rl_routes s) (to_hex (destination packet)) of
                         Some endpoint \<Rightarrow> out @ [\<lparr>fw_to = endpoint, fw_datagram = datagram\<rparr>]
                       | None \<Rightarrow> out
                     else out)
          in (out, s))"

definition relay_expire :: "int \<Rightarrow> RelayServer \<Rightarrow> RelayServer" where
  "relay_expire now s = s\<lparr>rl_routes := route_expire (now - route_ttl_seconds (rl_config s)) (rl_routes s)\<rparr>"

definition relay_bind :: "env \<Rightarrow> Endpoint \<Rightarrow> RelayServer \<Rightarrow> world \<Rightarrow> bool \<times> RelayServer \<times> world" where
  "relay_bind E local s w = (case socket_bind E (rl_socket s) local w of (ok, sk, w) \<Rightarrow> (ok, s\<lparr>rl_socket := sk\<rparr>, w))"

definition relay_run_once ::
  "env \<Rightarrow> int \<Rightarrow> int \<Rightarrow> RelayServer \<Rightarrow> world \<Rightarrow> bool \<times> RelayServer \<times> world" where
  "relay_run_once E timeout_ms now s w =
     (case (case receive E (rl_socket s) timeout_ms kReceiveBufferSize w of
              (None, w) \<Rightarrow> (False, s, w)
            | (Some dg, w) \<Rightarrow>
                (case relay_handle (dg_data dg) (dg_from dg) now [] s of (out, s) \<Rightarrow>
                 case send_each (send_to E) (rl_socket s) (map (\<lambda>f. (fw_to f, fw_datagram f)) out) w of (sk, w) \<Rightarrow>
                   (True, s\<lparr>rl_socket := sk\<rparr>, w))) of
        (processed, s, w) \<Rightarrow> (processed, relay_expire now s, w))"

text \<open>\<^verbatim>\<open>run\<close>, with the values the loop reads from \<^verbatim>\<open>running_\<close>.\<close>

fun relay_run_loop :: "env \<Rightarrow> bool list \<Rightarrow> RelayServer \<Rightarrow> world \<Rightarrow> (RelayServer \<times> world) option" where
  "relay_run_loop E [] s w = None"
| "relay_run_loop E (running # reads) s w =
     (if \<not> running then Some (s\<lparr>rl_running := False\<rparr>, w)
      else let now = os_time E (calls w) in
        case relay_run_once E 500 now s (next_call w) of (_, s, w) \<Rightarrow> relay_run_loop E reads s w)"

definition relay_run :: "env \<Rightarrow> bool list \<Rightarrow> RelayServer \<Rightarrow> world \<Rightarrow> (RelayServer \<times> world) option" where
  "relay_run E reads s w = relay_run_loop E reads (s\<lparr>rl_running := True\<rparr>) w"

definition relay_stop :: "RelayServer \<Rightarrow> RelayServer" where
  "relay_stop s = s\<lparr>rl_running := False\<rparr>"

text \<open>The signal handler of \<^verbatim>\<open>main\<close>, with the server \<^verbatim>\<open>g_server\<close> points to, if any.\<close>

definition relay_on_signal :: "RelayServer option \<Rightarrow> RelayServer option" where
  "relay_on_signal g_server = map_option relay_stop g_server"

text \<open>A signal that comes after the handler is installed and before \<^verbatim>\<open>run\<close> has set its flag is lost.\<close>

lemma relay_early_signal_lost:
  assumes "relay_on_signal (Some s) = Some s'"
  shows "relay_run E reads s' w = relay_run E reads s w"
  using assms by (auto simp: relay_on_signal_def relay_stop_def relay_run_def)

definition relay_local_endpoint :: "env \<Rightarrow> RelayServer \<Rightarrow> world \<Rightarrow> Endpoint option \<times> world" where
  "relay_local_endpoint E s w = local_endpoint E (rl_socket s) w"

definition relay_main_endpoint :: "string list \<Rightarrow> Endpoint" where
  "relay_main_endpoint argv =
     (let h = (if length argv > 1 then argv ! 1 else ''0.0.0.0'');
          p = (if length argv > 2 then ucast (strtoul (argv ! 2)) else 4434)
      in \<lparr>host = h, port = p\<rparr>)"

definition relay_main ::
  "env \<Rightarrow> string list \<Rightarrow> bool list \<Rightarrow> world \<Rightarrow> (int \<times> RelayServer \<times> world) option" where
  "relay_main E argv reads w =
     (case relay_bind E (relay_main_endpoint argv) (new_relay_server default_relay_config) w of
        (False, s, w) \<Rightarrow> Some (1, s, w)
      | (True, s, w) \<Rightarrow>
          (case relay_local_endpoint E s w of (_, w) \<Rightarrow>
           case relay_run E reads s w of None \<Rightarrow> None | Some (s, w) \<Rightarrow> Some (0, s, w)))"

section \<open>Lemmas\<close>

lemma relay_handle_ok:
  assumes "deserialize d default_packet = (True, p)"
  shows "relay_handle d src now out s =
    (let s' = (if source p \<noteq> [] then s\<lparr>rl_routes := route_upsert (to_hex (source p)) src now (rl_routes s)\<rparr> else s) in
     (out @ (if destination p = [] then [] else case route_lookup (rl_routes s') (to_hex (destination p)) of
         None \<Rightarrow> [] | Some ep \<Rightarrow> [\<lparr>fw_to = ep, fw_datagram = d\<rparr>]), s'))"
  using assms by (auto simp: relay_handle_def Let_def split: option.splits)

lemma relay_handle_out:
  assumes "relay_handle d src now out s = (out', s')"
  shows "\<exists>new. out' = out @ new \<and> length new \<le> 1 \<and> list_all (\<lambda>f. fw_datagram f = d) new"
proof -
  obtain ok p where d: "deserialize d default_packet = (ok, p)" by fastforce
  show ?thesis
  proof (cases ok)
    case False
    with assms d show ?thesis by (simp add: relay_handle_def)
  next
    case True
    with assms d relay_handle_ok [of d p src now out s] show ?thesis
      by (auto simp: Let_def split: if_splits option.splits)
  qed
qed

section \<open>Properties\<close>

text \<open>
  The relay forwards verbatim or not at all: a datagram produces at most one copy, with
  exactly the received bytes, and bytes that are no packet of the protocol change neither
  the routes nor the output.
\<close>

theorem relay_verbatim:
  "case relay_handle d src now out s of (out', s') \<Rightarrow>
     (\<exists>new. out' = out @ new \<and> length new \<le> 1 \<and> list_all (\<lambda>f. fw_datagram f = d) new) \<and>
     (if fst (deserialize d default_packet) then rl_socket s' = rl_socket s \<and> rl_config s' = rl_config s
      else out' = out \<and> s' = s)"
proof -
  obtain out' s' where h: "relay_handle d src now out s = (out', s')" by fastforce
  obtain ok p where p: "deserialize d default_packet = (ok, p)" by fastforce
  have "if ok then rl_socket s' = rl_socket s \<and> rl_config s' = rl_config s else out' = out \<and> s' = s"
    using h p relay_handle_ok [of d p src now out s] by (auto simp: relay_handle_def Let_def split: if_splits)
  with relay_handle_out [OF h] show ?thesis by (simp add: h p)
qed

text \<open>
  The relay is content-agnostic: two packets that differ only in their payloads are routed
  the same way, to the same addresses, and leave the same routes.
\<close>

theorem relay_content_agnostic:
  assumes "wf_packet p" "wf_packet (p\<lparr>payload := other\<rparr>)"
  shows "map fw_to (fst (relay_handle (serialize (p\<lparr>payload := other\<rparr>)) src now [] s))
       = map fw_to (fst (relay_handle (serialize p) src now [] s)) \<and>
    snd (relay_handle (serialize (p\<lparr>payload := other\<rparr>)) src now [] s) = snd (relay_handle (serialize p) src now [] s)"
  using relay_handle_ok [OF deserialize_serialize [OF assms(1)], of src now "[]" s]
    relay_handle_ok [OF deserialize_serialize [OF assms(2)], of src now "[]" s]
  by (auto simp: Let_def split: option.splits)

theorem relay_content_agnostic_witness:
  "map fw_to (fst (relay_handle (serialize (default_packet\<lparr>destination := [7], payload := [1]\<rparr>)) default_endpoint 0 [] (new_relay_server default_relay_config)))
   = map fw_to (fst (relay_handle (serialize (default_packet\<lparr>destination := [7]\<rparr>)) default_endpoint 0 [] (new_relay_server default_relay_config)))"
  using relay_content_agnostic [of "default_packet\<lparr>destination := [7]\<rparr>" "[1]" default_endpoint 0 "new_relay_server default_relay_config"]
  by (simp add: wf_packet_def default_packet_def wf_type_def packet_type_of_def fits_u16_def)

text \<open>
  Delivery through the relay: once a peer has announced itself (a packet with its key as
  source), every packet for that key that arrives while the route is alive, with a sweep in
  between, is forwarded to the address the announcement came from, unless the sender's
  own key is the same, and the sender's route is learnt on the way.
\<close>

theorem relay_delivers:
  assumes "wf_packet a" "source a = pk" "pk \<noteq> []" and "wf_packet p" "destination p = pk" "source p \<noteq> pk"
    and "t2 - route_ttl_seconds (rl_config s) \<le> t1"
  shows "map fw_to (fst (relay_handle (serialize p) from2 t3 []
      (relay_expire t2 (snd (relay_handle (serialize a) from1 t1 out s))))) = [from1]"
proof -
  let ?s1 = "s\<lparr>rl_routes := route_upsert (to_hex pk) from1 t1 (rl_routes s)\<rparr>"
  have s1: "snd (relay_handle (serialize a) from1 t1 out s) = ?s1"
    using relay_handle_ok [OF deserialize_serialize [OF assms(1)], of from1 t1 out s] assms(2,3) by (simp add: Let_def)
  let ?s2 = "relay_expire t2 ?s1"
  have "route_lookup (rl_routes ?s2) (to_hex pk) = Some from1"
    using assms(7) by (simp add: relay_expire_def route.put_survives)
  moreover have "to_hex (source p) \<noteq> to_hex pk" using assms(6) by simp
  ultimately show ?thesis
    using relay_handle_ok [OF deserialize_serialize [OF assms(4)], of from2 t3 "[]" ?s2] assms(3,5)
    by (auto simp: s1 Let_def route.get_put)
qed

theorem relay_delivers_witness:
  "map fw_to (fst (relay_handle (serialize (default_packet\<lparr>source := [1], destination := [7]\<rparr>)) default_endpoint 20 []
      (relay_expire 10 (snd (relay_handle (serialize (default_packet\<lparr>source := [7]\<rparr>)) \<lparr>host = ''h'', port = 1\<rparr> 5 []
        (new_relay_server default_relay_config)))))) = [\<lparr>host = ''h'', port = 1\<rparr>]"
  using relay_delivers [of "default_packet\<lparr>source := [7]\<rparr>" "[7]" "default_packet\<lparr>source := [1], destination := [7]\<rparr>" 10
      "new_relay_server default_relay_config" 5 default_endpoint 20 "\<lparr>host = ''h'', port = 1\<rparr>" "[]"]
  by (simp add: wf_packet_def default_packet_def wf_type_def packet_type_of_def fits_u16_def
      new_relay_server_def default_relay_config_def)

text \<open>
  Routes are soft state: after a sweep no route is older than the configured lifetime,
  and younger ones are kept.
\<close>

theorem relay_expire_live:
  "(case route_seen (rl_routes (relay_expire now s)) k of None \<Rightarrow> True
      | Some t \<Rightarrow> now - route_ttl_seconds (rl_config s) \<le> t) \<and>
   (case route_seen (rl_routes s) k of None \<Rightarrow> True
      | Some t \<Rightarrow> (if now - route_ttl_seconds (rl_config s) \<le> t
          then route_lookup (rl_routes (relay_expire now s)) k = route_lookup (rl_routes s) k
          else route_lookup (rl_routes (relay_expire now s)) k = None))"
  by (auto simp: relay_expire_def route.seen_sweep route.get_sweep split: option.splits)

end
