(* ===== verification/Paths.thy ===== *)
theory Paths
  imports Flow
begin

text \<open>
  The path to a peer: which address the engine sends a peer's packets to, and what changes it.
  A HELLO is not authenticated, so it decides the path alone; what follows shows
  how long that lasts, and that asking for a connection gives a direct path up.
\<close>

abbreviation path_to :: "Engine \<Rightarrow> bytes \<Rightarrow> Endpoint option" where
  "path_to e p \<equiv> eng_endpoints e (to_hex p)"

lemma ensure_session_paths:
  "ensure_session E q e = (r, e1) \<Longrightarrow> eng_endpoints e1 = eng_endpoints e \<and> eng_probes e1 = eng_probes e"
  by (auto simp: ensure_session_def Let_def split: option.splits if_splits)

text \<open>An authenticated packet moves the path of its sender only, and only while no direct path is confirmed.\<close>

lemma deliver_paths:
  assumes "deliver E pk m src e w = (ok, e', w')"
  shows "eng_endpoints e' = (if has_direct_path e (source pk) then eng_endpoints e
      else (eng_endpoints e)(to_hex (source pk) \<mapsto> src)) \<and> eng_probes e' = eng_probes e"
  using assms
  by (auto simp: deliver_def has_direct_path_def Let_def split: PacketType.splits option.splits if_splits
      dest!: handle_message_eff handle_contact_request_eff handle_contact_response_eff)

text \<open>A datagram that claims to be a probe of peer \<open>p\<close>.\<close>

definition claims_probe :: "bytes \<Rightarrow> Datagram \<Rightarrow> bool" where
  "claims_probe p dg \<longleftrightarrow> (case deserialize (dg_data dg) default_packet of (ok, pk) \<Rightarrow> ok \<and> ptype pk = Hello \<and> source pk = p)"

lemma dispatch_keeps_direct_path:
  assumes "dispatch E dg e w = (ok, e', w')" "has_direct_path e p" "path_to e p = Some a"
    and "\<not> claims_probe p dg"
  shows "path_to e' p = Some a \<and> has_direct_path e' p"
proof (cases "\<exists>pk. deserialize (dg_data dg) default_packet = (True, pk) \<and> ptype pk = Hello")
  case True
  then obtain pk where pk: "deserialize (dg_data dg) default_packet = (True, pk)" "ptype pk = Hello" by blast
  then have other: "source pk \<noteq> p" using assms(4) by (auto simp: claims_probe_def)
  show ?thesis
  proof (cases "handle_probe E (source pk) (dg_from dg) e w = (e', w')")
    case True
    from handle_probe_eff [OF this] other assms(2,3) show ?thesis by (auto simp: has_direct_path_def)
  next
    case False
    then have "e' = e" using assms(1) pk by (auto simp: dispatch_def Let_def split: if_splits)
    then show ?thesis using assms(2,3) by simp
  qed
next
  case False
  obtain parsed pk where d: "deserialize (dg_data dg) default_packet = (parsed, pk)" by fastforce
  have nh: "parsed \<Longrightarrow> ptype pk \<noteq> Hello" using False d by auto
  consider "\<not> parsed \<or> parsed \<and> ptype pk = PacketType.Message \<and> store_trust_of (eng_contacts e) (source pk) \<noteq> Some Accepted"
    | "parsed" "ptype pk = Connect"
    | "parsed" "ptype pk \<noteq> Connect" "\<not> (ptype pk = PacketType.Message \<and> store_trust_of (eng_contacts e) (source pk) \<noteq> Some Accepted)"
    by blast
  then show ?thesis
  proof cases
    case 1
    then have "e' = e" using assms(1) d nh by (auto simp: dispatch_def Let_def split: bool.splits if_splits)
    then show ?thesis using assms(2,3) by simp
  next
    case 2
    then have "handle_connect E (source pk) (payload pk) e w = (e', w')" using assms(1) d by (simp add: dispatch_def Let_def)
    from handle_connect_eff [OF this] show ?thesis
      using assms(2,3) by (cases "source pk = p") (auto simp: has_direct_path_def)
  next
    case 3
    obtain r e1 where r: "ensure_session E (source pk) e = (r, e1)" by fastforce
    note e1 = ensure_session_paths [OF r]
    show ?thesis
    proof (cases r)
      case None
      then show ?thesis using 3 assms(1-3) d nh r e1 by (auto simp: dispatch_def has_direct_path_def Let_def)
    next
      case (Some s)
      obtain m s' where dec: "decrypt E s pk = (m, s')" by fastforce
      have *: "eng_endpoints (put_session (source pk) s' e1) = eng_endpoints e" "eng_probes (put_session (source pk) s' e1) = eng_probes e"
        using e1 by (simp_all add: put_session_def)
      show ?thesis
      proof (cases m)
        case None
        then show ?thesis using 3 assms(1-3) d nh r Some dec * by (auto simp: dispatch_def has_direct_path_def Let_def)
      next
        case m: (Some plain)
        then have "deliver E pk plain (dg_from dg) (put_session (source pk) s' e1) w = (ok, e', w')"
          using 3 assms(1) d nh r Some dec by (auto simp: dispatch_def Let_def)
        from deliver_paths [OF this] * assms(2,3) show ?thesis
          by (cases "source pk = p") (auto simp: has_direct_path_def)
      qed
    qed
  qed
qed

section \<open>Properties\<close>

text \<open>The engine after some datagrams arrived, each in an arbitrary world.\<close>

inductive fed :: "env \<Rightarrow> Engine \<Rightarrow> Datagram list \<Rightarrow> Engine \<Rightarrow> bool" for E where
  none: "fed E e [] e"
| more: "fed E e dgs e' \<Longrightarrow> dispatch E dg e' w = (ok, e'', w') \<Longrightarrow> fed E e (dgs @ [dg]) e''"

lemma fed_keeps_direct_path:
  "fed E e dgs e' \<Longrightarrow> has_direct_path e p \<Longrightarrow> path_to e p = Some a \<Longrightarrow> \<forall>dg\<in>set dgs. \<not> claims_probe p dg \<Longrightarrow>
     path_to e' p = Some a \<and> has_direct_path e' p"
  by (induction rule: fed.induct) (auto dest: dispatch_keeps_direct_path)

text \<open>A message reported as sent is one datagram to the peer's address.\<close>

lemma send_goes_to:
  assumes "send E p m e w = (True, e', w')" "path_to e p = Some a"
  shows "\<exists>b. sent w' = sent w @ [(a, b)]"
proof -
  obtain s e1 where r: "ensure_session E p e = (Some s, e1)" "store_trust_of (eng_contacts e) p = Some Accepted"
    using assms(1) by (auto simp: send_def split: if_splits option.splits prod.splits)
  obtain ok e2 w2 where se: "send_encrypted E p s PacketType.Message m e1 w = (ok, e2, w2)" by (metis prod_cases3)
  have ok: ok and rec: "\<exists>e3. record_message E p m True e2 w2 = (e3, w')"
    using assms(1) r se by (auto simp: send_def split: if_splits prod.splits bool.splits)
  from send_encrypted_eff [OF se] ok ensure_session_paths [OF r(1)] assms(2)
  have "\<exists>b. sent w2 = sent w @ [(a, b)]" by auto
  moreover have "sent w' = sent w2" using rec record_message_eff [of E p m True e2 w2] by auto
  ultimately show ?thesis by simp
qed

text \<open>
  (C34) A forged HELLO captures a path: one unauthenticated HELLO that names a peer as its source makes the
  engine take the path to that peer for direct and confirmed, at the address the HELLO came from; whatever
  datagrams follow, from whomever, CONNECTs and authentic packets of the real peer from its real address
  included, the path stays there, and stays confirmed, as long as no HELLO names that peer again; and every
  message the engine then reports as sent to the peer is one datagram to that address.
\<close>

theorem forged_hello_captures_path:
  assumes "p \<noteq> []" "fits_u16 p" "fits_u16 (eng_public e)"
    and "dispatch E \<lparr>dg_from = attacker, dg_data = serialize (hello_packet p (eng_public e))\<rparr> e w = (ok, e1, w1)"
    and "fed E e1 dgs e2" "\<forall>dg\<in>set dgs. \<not> claims_probe p dg"
  shows "path_to e2 p = Some attacker \<and> has_direct_path e2 p \<and>
    (\<forall>m v e3 v'. send E p m e2 v = (True, e3, v') \<longrightarrow> (\<exists>b. sent v' = sent v @ [(attacker, b)]))"
proof -
  let ?h = "hello_packet p (eng_public e)"
  have "wf_packet ?h"
    using assms(2,3) by (simp add: hello_packet_def wf_packet_def default_packet_def wf_type_def packet_type_of_def fits_u16_def)
  then have d: "deserialize (serialize ?h) default_packet = (True, ?h)" by simp
  have "handle_probe E p attacker e w = (e1, w1)"
    using assms(1,4) d by (simp add: dispatch_def Let_def hello_packet_def)
  from handle_probe_eff [OF this] have 1: "path_to e1 p = Some attacker" "has_direct_path e1 p"
    by (auto simp: has_direct_path_def)
  from fed_keeps_direct_path [OF assms(5) 1(2,1) assms(6)] send_goes_to show ?thesis by blast
qed

lemma toy_datagram_type: "deserialize toy_datagram default_packet = (ok, pk) \<Longrightarrow> ok \<Longrightarrow> ptype pk \<noteq> Hello"
  using toy_first_message [of default_endpoint toy_world] by auto

theorem forged_hello_captures_path_witness:
  "\<exists>e1 w1 ok2 e2 w2. dispatch toy_env \<lparr>dg_from = \<lparr>host = ''evil'', port = 9\<rparr>, dg_data = serialize (hello_packet (pad 32 [1]) (pad 32 [2]))\<rparr>
       toy_engine toy_world = (True, e1, w1) \<and>
     dispatch toy_env \<lparr>dg_from = \<lparr>host = ''bob'', port = 1\<rparr>, dg_data = toy_datagram\<rparr> e1 w1 = (ok2, e2, w2) \<and>
     path_to e2 (pad 32 [1]) = Some \<lparr>host = ''evil'', port = 9\<rparr> \<and> has_direct_path e2 (pad 32 [1])"
proof -
  have pub: "eng_public toy_engine = pad 32 [2]" by (simp add: toy_engine_def new_engine_def)
  let ?dg = "\<lparr>dg_from = \<lparr>host = ''evil'', port = 9\<rparr>, dg_data = serialize (hello_packet (pad 32 [1]) (eng_public toy_engine))\<rparr>"
  obtain ok e1 w1 where d: "dispatch toy_env ?dg toy_engine toy_world = (ok, e1, w1)" by (metis prod_cases3)
  have f: "fits_u16 (pad 32 x)" "pad 32 x \<noteq> []" for x by (auto simp: fits_u16_def simp flip: length_greater_0_conv)
  have "wf_packet (hello_packet (pad 32 [1]) (pad 32 [2]))"
    using f(1) by (simp add: hello_packet_def wf_packet_def default_packet_def wf_type_def packet_type_of_def fits_u16_def)
  then have "deserialize (serialize (hello_packet (pad 32 [1]) (pad 32 [2]))) default_packet = (True, hello_packet (pad 32 [1]) (pad 32 [2]))" by simp
  then have ok: ok using d pub by (auto simp: dispatch_def Let_def hello_packet_def)
  let ?real = "\<lparr>dg_from = \<lparr>host = ''bob'', port = 1\<rparr>, dg_data = toy_datagram\<rparr>"
  obtain ok2 e2 w2 where d2: "dispatch toy_env ?real e1 w1 = (ok2, e2, w2)" by (metis prod_cases3)
  have fed: "fed toy_env e1 [?real] e2" using fed.more [OF fed.none d2] by simp
  have "\<not> claims_probe (pad 32 [1]) ?real" using toy_datagram_type by (auto simp: claims_probe_def)
  with forged_hello_captures_path [OF f(2) f(1) _ d fed] d d2 ok f(1) pub show ?thesis by auto
qed

text \<open>
  Asking for a connection gives up a confirmed direct path: with a relay configured,
  \<^verbatim>\<open>connect\<close> routes the peer through the relay again, sends no probe that could win the direct path
  back, and \<^verbatim>\<open>has_direct_path\<close> goes on saying that the path is direct.
\<close>

theorem connect_downgrades_path:
  assumes "eng_relay e = Some relay" "has_direct_path e p" "connect E p candidate e w = (active, e', w')"
  shows "active = relay \<and> path_to e' p = Some relay \<and> has_direct_path e' p \<and> w' = w"
  using assms by (auto simp: connect_def start_probing_def has_direct_path_def Let_def split: option.splits)

theorem connect_downgrades_path_witness:
  "let e = toy_engine\<lparr>eng_relay := Some default_endpoint,
       eng_probes := [to_hex [7] \<mapsto> default_probe\<lparr>pr_confirmed := True\<rparr>]\<rparr> in
   case connect toy_env [7] \<lparr>host = ''h'', port = 9\<rparr> e toy_world of (active, e', w') \<Rightarrow>
     path_to e' [7] = Some default_endpoint \<and> has_direct_path e' [7]"
proof -
  let ?e = "toy_engine\<lparr>eng_relay := Some default_endpoint, eng_probes := [to_hex [7] \<mapsto> default_probe\<lparr>pr_confirmed := True\<rparr>]\<rparr>"
  obtain active e' w' where c: "connect toy_env [7] \<lparr>host = ''h'', port = 9\<rparr> ?e toy_world = (active, e', w')" by (metis prod_cases3)
  from connect_downgrades_path [OF _ _ c] show ?thesis by (simp add: c has_direct_path_def Let_def)
qed

end
