(* ===== verification/Client.thy ===== *)
theory Client
  imports Engine SignalingClient IdentityStore
begin

text \<open>
  What the two front ends of \<^verbatim>\<open>cli/src\<close> share: reading words from a command line with
  \<^verbatim>\<open>std::istringstream\<close>, calling the signaling client over the engine's own socket, and adding a
  peer through the signaling server.  The parts of the host that only the front ends see
  (terminal, local time, the iteration order of hash tables) are a record of parameters.
\<close>

section \<open>The host\<close>

record tm =
  tm_year :: int
  tm_yday :: int
  tm_mon :: int
  tm_mday :: int
  tm_hour :: int
  tm_min :: int

text \<open>
  \<open>probe_order\<close> and \<open>name_order\<close> are the orders in which the engine's probe table and the
  client's name table are iterated at a given moment.  The key codes are those of ncurses.
\<close>

record host =
  probe_order :: "nat \<Rightarrow> string list"
  name_order :: "nat \<Rightarrow> string list"
  localtime_r :: "int \<Rightarrow> tm"
  strftime :: "string \<Rightarrow> tm \<Rightarrow> string"
  om_pass :: "string option"
  is_tty :: bool
  KEY_UP :: int
  KEY_DOWN :: int
  KEY_PPAGE :: int
  KEY_NPAGE :: int
  KEY_RESIZE :: int
  KEY_BACKSPACE :: int
  KEY_ENTER :: int

text \<open>The key codes of ncurses are distinct and lie above the range of bytes.\<close>

definition keys_ok :: "host \<Rightarrow> bool" where
  "keys_ok H \<longleftrightarrow> (let ks = [KEY_UP H, KEY_DOWN H, KEY_PPAGE H, KEY_NPAGE H, KEY_RESIZE H, KEY_BACKSPACE H, KEY_ENTER H]
     in distinct ks \<and> list_all (\<lambda>k. k \<ge> 256) ks)"

definition toy_host :: host where
  "toy_host = \<lparr>probe_order = \<lambda>_. [], name_order = \<lambda>_. [],
     localtime_r = \<lambda>t. \<lparr>tm_year = 70, tm_yday = t div 86400, tm_mon = 0, tm_mday = 1, tm_hour = 0, tm_min = 0\<rparr>,
     strftime = \<lambda>f t. f, om_pass = None, is_tty = False,
     KEY_UP = 259, KEY_DOWN = 258, KEY_PPAGE = 339, KEY_NPAGE = 338, KEY_RESIZE = 410, KEY_BACKSPACE = 263, KEY_ENTER = 343\<rparr>"

lemma keys_ok_toy: "keys_ok toy_host"
  by (simp add: keys_ok_def toy_host_def)

text \<open>The two characters outside ASCII that the texts use, in UTF-8.\<close>

definition em_dash :: string where "em_dash = [CHR 0xE2, CHR 0x80, CHR 0x94]"
definition ellipsis :: string where "ellipsis = [CHR 0xE2, CHR 0x80, CHR 0xA6]"

section \<open>Reading a command line\<close>

text \<open>
  \<^verbatim>\<open>in >> word\<close>: skip white space, read up to the next white space (the empty word at the end
  of the line); \<^verbatim>\<open>std::getline(in, text)\<close>: the rest up to a newline; and the removal of the one
  blank that separates the text from the word before it.
\<close>

definition read_word :: "string \<Rightarrow> string \<times> string" where
  "read_word s = (let s = dropWhile is_space s
     in (takeWhile (\<lambda>c. \<not> is_space c) s, dropWhile (\<lambda>c. \<not> is_space c) s))"

definition get_line :: "string \<Rightarrow> string" where
  "get_line s = takeWhile (\<lambda>c. c \<noteq> CHR 0x0A) s"

definition strip_blank :: "string \<Rightarrow> string" where
  "strip_blank text = (if text \<noteq> [] \<and> text ! 0 = CHR '' '' then drop 1 text else text)"

section \<open>Signaling over the engine's socket\<close>

definition signer_for :: "env \<Rightarrow> bytes \<Rightarrow> bytes \<Rightarrow> bytes" where
  "signer_for E sk = (\<lambda>challenge. sign_detached E challenge sk)"

text \<open>
  The signaling client borrows \<^verbatim>\<open>engine_.transport()\<close>: it works on the engine's socket, and what it
  does to the socket is done to the engine's.
\<close>

definition over_engine ::
  "(SignalingClient \<Rightarrow> world \<Rightarrow> ('r \<times> SignalingClient \<times> world) option) \<Rightarrow>
     SignalingClient \<Rightarrow> Engine \<Rightarrow> world \<Rightarrow> ('r \<times> SignalingClient \<times> Engine \<times> world) option" where
  "over_engine op c e w =
     (case op (c\<lparr>sc_socket := eng_socket e\<rparr>) w of
        None \<Rightarrow> None
      | Some (r, c, w) \<Rightarrow> Some (r, c, e\<lparr>eng_socket := sc_socket c\<rparr>, w))"

text \<open>
  Adding a peer through the server: look it up, start a hole punch towards it, ask it to punch
  back at our public endpoint if we know it, and send the contact request.
\<close>

datatype AddResult = Offline | NoResponse | RequestSent | RequestFailed

definition add_by_signaling ::
  "env \<Rightarrow> bytes \<Rightarrow> bytes \<Rightarrow> SignalingClient \<Rightarrow> Engine \<Rightarrow> world \<Rightarrow>
     (AddResult \<times> Endpoint option \<times> SignalingClient \<times> Engine \<times> world) option" where
  "add_by_signaling E pk greeting c e w =
     (case over_engine (discover E pk kDefaultTimeoutMs kDefaultAttempts) c e w of
        None \<Rightarrow> None
      | Some (found, c, e, w) \<Rightarrow>
          (case dr_endpoint found of
             None \<Rightarrow> Some (if dr_responded found then Offline else NoResponse, None, c, e, w)
           | Some ep \<Rightarrow>
               (case connect E pk ep e w of (active, e, w) \<Rightarrow>
                case (case public_endpoint c of
                        None \<Rightarrow> Some (True, c, e, w)
                      | Some mine \<Rightarrow> over_engine (\<lambda>c w. Some (send_connect E pk (bytes_of_string (endpoint_to_string mine)) c w)) c e w) of
                  None \<Rightarrow> None
                | Some (_, c, e, w) \<Rightarrow>
                    (case send_contact_request E pk active greeting e w of (ok, e, w) \<Rightarrow>
                       Some (if ok then RequestSent else RequestFailed, Some ep, c, e, w)))))"

section \<open>Words\<close>

lemma read_word_space: "is_space c \<Longrightarrow> read_word (c # s) = read_word s"
  by (simp add: read_word_def)

lemma read_word_append:
  assumes "list_all (\<lambda>c. \<not> is_space c) word" "word \<noteq> []" "rest = [] \<or> is_space (hd rest)"
  shows "read_word (word @ rest) = (word, rest)"
proof -
  have "dropWhile is_space (word @ rest) = word @ rest"
    using assms(1,2) by (cases word) simp_all
  moreover have "takeWhile (\<lambda>c. \<not> is_space c) (word @ rest) = word @ takeWhile (\<lambda>c. \<not> is_space c) rest"
    "dropWhile (\<lambda>c. \<not> is_space c) (word @ rest) = dropWhile (\<lambda>c. \<not> is_space c) rest"
    using assms(1) by (simp_all add: list_all_iff)
  moreover have "takeWhile (\<lambda>c. \<not> is_space c) rest = []" "dropWhile (\<lambda>c. \<not> is_space c) rest = rest"
    using assms(3) by (cases rest; simp)+
  ultimately show ?thesis by (simp add: read_word_def)
qed

lemma hex_no_space: "list_all (\<lambda>c. \<not> is_space c) (to_hex b)"
proof -
  have "\<not> is_space (kHex ! n)" if "n < 16" for n
  proof -
    have "n \<in> set [0, 1, 2, 3, 4, 5, 6, 7, 8, 9, 10, 11, 12, 13, 14, 15]" using that by simp arith
    then show ?thesis by (auto simp: kHex_def is_space_def)
  qed
  then show ?thesis
    using unat_high_nibble unat_low_nibble by (induction b) (simp_all add: to_hex_Cons hex_pair_def)
qed

end
