(* ===== verification/Signaling.thy ===== *)
theory Signaling
  imports Tables Crypto Packet Socket
begin

text \<open>
  The signaling server (\<^verbatim>\<open>servers/signaling/src/server.cpp\<close>): registration by proof of
  ownership, discovery, relayed connection info, keepalive, and expiry.  The handlers
  append to the list of outgoing packets, as the code does; log lines are left out.
  \<^verbatim>\<open>run\<close>'s flag is cleared by a signal handler at any time: the loop takes the sequence of
  what it reads from the flag.
\<close>

section \<open>State\<close>

record Outgoing =
  out_to :: Endpoint
  out_packet :: Packet

record SigConfig =
  peer_ttl_seconds :: int
  challenge_ttl_seconds :: int

definition default_sig_config :: SigConfig where
  "default_sig_config = \<lparr>peer_ttl_seconds = 120, challenge_ttl_seconds = 30\<rparr>"

record PendingChallenge =
  pend_challenge :: bytes
  pend_endpoint :: Endpoint
  pend_expiry :: int

record SignalingServer =
  sig_config :: SigConfig
  sig_registry :: PeerRegistry
  sig_socket :: UdpSocket
  sig_pending :: "string \<rightharpoonup> PendingChallenge"
  sig_running :: bool

definition new_signaling_server :: "SigConfig \<Rightarrow> SignalingServer" where
  "new_signaling_server config = \<lparr>sig_config = config, sig_registry = Map.empty, sig_socket = default_socket,
     sig_pending = Map.empty, sig_running = False\<rparr>"

definition kChallengeBytes :: nat where "kChallengeBytes = 32"

definition make :: "PacketType \<Rightarrow> bytes \<Rightarrow> bytes \<Rightarrow> bytes \<Rightarrow> Packet" where
  "make type src dst pl = default_packet\<lparr>ptype := type, source := src, destination := dst, payload := pl\<rparr>"

section \<open>Handlers\<close>

definition handle_register ::
  "env \<Rightarrow> Packet \<Rightarrow> Endpoint \<Rightarrow> int \<Rightarrow> Outgoing list \<Rightarrow> SignalingServer \<Rightarrow> world
    \<Rightarrow> Outgoing list \<times> SignalingServer \<times> world"
where
  "handle_register E inp src now out s w =
     (if length (source inp) \<noteq> kPublicKeyBytes then (out, s, w)
      else let key = to_hex (source inp) in
        if payload inp = []
        then case random_bytes E kChallengeBytes w of (challenge, w) \<Rightarrow>
          (out @ [\<lparr>out_to = src, out_packet = make Hello [] [] challenge\<rparr>],
           s\<lparr>sig_pending := (sig_pending s)(key \<mapsto> \<lparr>pend_challenge = challenge, pend_endpoint = src,
               pend_expiry = now + challenge_ttl_seconds (sig_config s)\<rparr>)\<rparr>, w)
        else if length (payload inp) = kSignatureBytes
        then case sig_pending s key of
            None \<Rightarrow> (out, s, w)
          | Some it \<Rightarrow>
              if pend_expiry it < now then (out, s, w)
              else if host (pend_endpoint it) \<noteq> host src \<or> port (pend_endpoint it) \<noteq> port src then (out, s, w)
              else if \<not> verify_detached E (payload inp) (pend_challenge it) (source inp)
              then (out, s\<lparr>sig_pending := (sig_pending s)(key := None)\<rparr>, w)
              else (out @ [\<lparr>out_to = src, out_packet = make Ack [] [] (bytes_of_string (endpoint_to_string src))\<rparr>],
                    s\<lparr>sig_registry := registry_upsert key src now (sig_registry s),
                      sig_pending := (sig_pending s)(key := None)\<rparr>, w)
        else (out, s, w))"

definition handle_discover ::
  "Packet \<Rightarrow> Endpoint \<Rightarrow> Outgoing list \<Rightarrow> SignalingServer \<Rightarrow> Outgoing list" where
  "handle_discover inp src out s =
     (if destination inp = [] then out
      else let key = to_hex (destination inp);
               pl = (case registry_lookup (sig_registry s) key of
                       Some endpoint \<Rightarrow> bytes_of_string (endpoint_to_string endpoint) | None \<Rightarrow> [])
           in out @ [\<lparr>out_to = src, out_packet = make Connect (destination inp) [] pl\<rparr>])"

definition sig_handle_connect :: "Packet \<Rightarrow> Outgoing list \<Rightarrow> SignalingServer \<Rightarrow> Outgoing list" where
  "sig_handle_connect inp out s =
     (if destination inp = [] then out
      else case registry_lookup (sig_registry s) (to_hex (destination inp)) of
        Some endpoint \<Rightarrow> out @ [\<lparr>out_to = endpoint, out_packet = inp\<rparr>]
      | None \<Rightarrow> out)"

definition handle_heartbeat ::
  "Packet \<Rightarrow> Endpoint \<Rightarrow> int \<Rightarrow> Outgoing list \<Rightarrow> SignalingServer \<Rightarrow> Outgoing list \<times> SignalingServer" where
  "handle_heartbeat inp src now out s =
     (let s = (if length (source inp) = kPublicKeyBytes
               then let key = to_hex (source inp) in
                 if registry_lookup (sig_registry s) key \<noteq> None
                 then s\<lparr>sig_registry := registry_upsert key src now (sig_registry s)\<rparr> else s
               else s)
      in (out @ [\<lparr>out_to = src, out_packet = make Heartbeat [] [] []\<rparr>], s))"

definition handle_disconnect :: "Packet \<Rightarrow> SignalingServer \<Rightarrow> SignalingServer" where
  "handle_disconnect inp s =
     (if length (source inp) = kPublicKeyBytes
      then s\<lparr>sig_registry := snd (registry_remove (to_hex (source inp)) (sig_registry s))\<rparr> else s)"

definition sig_handle ::
  "env \<Rightarrow> Packet \<Rightarrow> Endpoint \<Rightarrow> int \<Rightarrow> Outgoing list \<Rightarrow> SignalingServer \<Rightarrow> world
    \<Rightarrow> Outgoing list \<times> SignalingServer \<times> world"
where
  "sig_handle E inp src now out s w =
     (case ptype inp of
        Register \<Rightarrow> handle_register E inp src now out s w
      | Discover \<Rightarrow> (handle_discover inp src out s, s, w)
      | Connect \<Rightarrow> (sig_handle_connect inp out s, s, w)
      | Heartbeat \<Rightarrow> (case handle_heartbeat inp src now out s of (out, s) \<Rightarrow> (out, s, w))
      | Disconnect \<Rightarrow> (out, handle_disconnect inp s, w)
      | _ \<Rightarrow> (out, s, w))"

definition sig_expire :: "int \<Rightarrow> SignalingServer \<Rightarrow> SignalingServer" where
  "sig_expire now s =
     s\<lparr>sig_registry := registry_expire (now - peer_ttl_seconds (sig_config s)) (sig_registry s),
       sig_pending := (\<lambda>k. case sig_pending s k of None \<Rightarrow> None
                         | Some it \<Rightarrow> if pend_expiry it < now then None else Some it)\<rparr>"

section \<open>The loop\<close>

definition sig_bind :: "env \<Rightarrow> Endpoint \<Rightarrow> SignalingServer \<Rightarrow> world \<Rightarrow> bool \<times> SignalingServer \<times> world" where
  "sig_bind E local s w = (case socket_bind E (sig_socket s) local w of (ok, sk, w) \<Rightarrow> (ok, s\<lparr>sig_socket := sk\<rparr>, w))"

definition sig_run_once ::
  "env \<Rightarrow> int \<Rightarrow> int \<Rightarrow> SignalingServer \<Rightarrow> world \<Rightarrow> bool \<times> SignalingServer \<times> world" where
  "sig_run_once E timeout_ms now s w =
     (case (case receive E (sig_socket s) timeout_ms kReceiveBufferSize w of
              (None, w) \<Rightarrow> (False, s, w)
            | (Some dg, w) \<Rightarrow>
                (case deserialize (dg_data dg) default_packet of
                   (False, _) \<Rightarrow> (False, s, w)
                 | (True, inp) \<Rightarrow>
                     (case sig_handle E inp (dg_from dg) now [] s w of (out, s, w) \<Rightarrow>
                      case send_each (send_to E) (sig_socket s)
                             (map (\<lambda>o'. (out_to o', serialize (out_packet o'))) out) w of (sk, w) \<Rightarrow>
                        (True, s\<lparr>sig_socket := sk\<rparr>, w)))) of
        (processed, s, w) \<Rightarrow> (processed, sig_expire now s, w))"

text \<open>
  \<^verbatim>\<open>run\<close>: the list holds the values \<^verbatim>\<open>running_\<close> has when the loop condition reads it after it
  was set; the result is \<open>None\<close> while the loop is still running at the end of the list.
\<close>

fun sig_run_loop :: "env \<Rightarrow> bool list \<Rightarrow> SignalingServer \<Rightarrow> world \<Rightarrow> (SignalingServer \<times> world) option" where
  "sig_run_loop E [] s w = None"
| "sig_run_loop E (running # reads) s w =
     (if \<not> running then Some (s\<lparr>sig_running := False\<rparr>, w)
      else let now = os_time E (calls w) in
        case sig_run_once E 500 now s (next_call w) of (_, s, w) \<Rightarrow> sig_run_loop E reads s w)"

definition sig_run :: "env \<Rightarrow> bool list \<Rightarrow> SignalingServer \<Rightarrow> world \<Rightarrow> (SignalingServer \<times> world) option" where
  "sig_run E reads s w = sig_run_loop E reads (s\<lparr>sig_running := True\<rparr>) w"

definition sig_stop :: "SignalingServer \<Rightarrow> SignalingServer" where
  "sig_stop s = s\<lparr>sig_running := False\<rparr>"

text \<open>The signal handler of \<^verbatim>\<open>main\<close>, with the server \<^verbatim>\<open>g_server\<close> points to, if any.\<close>

definition sig_on_signal :: "SignalingServer option \<Rightarrow> SignalingServer option" where
  "sig_on_signal g_server = map_option sig_stop g_server"

text \<open>A signal that comes after the handler is installed and before \<^verbatim>\<open>run\<close> has set its flag is lost.\<close>

lemma sig_early_signal_lost:
  assumes "sig_on_signal (Some s) = Some s'"
  shows "sig_run E reads s' w = sig_run E reads s w"
  using assms by (auto simp: sig_on_signal_def sig_stop_def sig_run_def)

definition sig_local_endpoint :: "env \<Rightarrow> SignalingServer \<Rightarrow> world \<Rightarrow> Endpoint option \<times> world" where
  "sig_local_endpoint E s w = local_endpoint E (sig_socket s) w"

text \<open>The bind address of \<^verbatim>\<open>main\<close> from its arguments (the program name first).\<close>

definition sig_main_endpoint :: "string list \<Rightarrow> Endpoint" where
  "sig_main_endpoint argv =
     (let h = (if length argv > 1 then argv ! 1 else ''0.0.0.0'');
          p = (if length argv > 2 then ucast (strtoul (argv ! 2)) else 4433)
      in \<lparr>host = h, port = p\<rparr>)"

definition sig_main ::
  "env \<Rightarrow> string list \<Rightarrow> bool list \<Rightarrow> world \<Rightarrow> (int \<times> SignalingServer \<times> world) option" where
  "sig_main E argv reads w =
     (case sig_bind E (sig_main_endpoint argv) (new_signaling_server default_sig_config) w of
        (False, s, w) \<Rightarrow> Some (1, s, w)
      | (True, s, w) \<Rightarrow>
          (case sig_local_endpoint E s w of (_, w) \<Rightarrow>
           case sig_run E reads s w of None \<Rightarrow> None | Some (s, w) \<Rightarrow> Some (0, s, w)))"

section \<open>What the handlers change\<close>

abbreviation sig_lookup :: "SignalingServer \<Rightarrow> string \<Rightarrow> Endpoint option" where
  "sig_lookup s k \<equiv> registry_lookup (sig_registry s) k"

lemma make_sel [simp]:
  "ptype (make t a b c) = t" "source (make t a b c) = a" "destination (make t a b c) = b"
  "payload (make t a b c) = c" "version (make t a b c) = kProtocolVersion"
  by (simp_all add: make_def default_packet_def)

text \<open>A proof of ownership: the signature verifies the challenge pending for that key and address.\<close>

definition owner_proof :: "env \<Rightarrow> Packet \<Rightarrow> Endpoint \<Rightarrow> int \<Rightarrow> SignalingServer \<Rightarrow> bool" where
  "owner_proof E inp src now s \<longleftrightarrow> ptype inp = Register \<and>
     (\<exists>it. sig_pending s (to_hex (source inp)) = Some it \<and> now \<le> pend_expiry it \<and> pend_endpoint it = src \<and>
        verify_detached E (payload inp) (pend_challenge it) (source inp))"

lemma handle_register_lookup:
  assumes "handle_register E inp src now out s w = (out', s', w')" "ptype inp = Register"
    and "sig_lookup s' k = Some ep" "sig_lookup s k \<noteq> Some ep"
  shows "ep = src \<and> k = to_hex (source inp) \<and> length (source inp) = kPublicKeyBytes \<and> owner_proof E inp src now s"
proof (cases "sig_pending s (to_hex (source inp))")
  case None
  with assms show ?thesis
    by (auto simp: handle_register_def Let_def split: if_splits prod.splits)
next
  case (Some it)
  show ?thesis
  proof (cases "length (source inp) = kPublicKeyBytes \<and> length (payload inp) = kSignatureBytes \<and> \<not> pend_expiry it < now \<and>
      host (pend_endpoint it) = host src \<and> port (pend_endpoint it) = port src \<and>
      verify_detached E (payload inp) (pend_challenge it) (source inp)")
    case True
    then have "pend_endpoint it = src" by simp
    moreover have "payload inp \<noteq> []" using True by (auto simp: crypto_sizes)
    ultimately show ?thesis using assms True Some
      by (auto simp: handle_register_def Let_def owner_proof_def registry.get_put split: if_splits)
  next
    case False
    then have "sig_registry s' = sig_registry s"
      using assms(1) Some by (auto simp: handle_register_def Let_def split: if_splits prod.splits)
    with assms show ?thesis by simp
  qed
qed

lemma sig_handle_lookup:
  assumes "sig_handle E inp src now out s w = (out', s', w')"
    and "sig_lookup s' k = Some ep" "sig_lookup s k \<noteq> Some ep"
  shows "ep = src \<and> k = to_hex (source inp) \<and> length (source inp) = kPublicKeyBytes \<and>
    (owner_proof E inp src now s \<or> ptype inp = Heartbeat \<and> sig_lookup s k \<noteq> None)"
proof (cases "ptype inp")
  case Register
  with assms handle_register_lookup show ?thesis by (simp add: sig_handle_def)
next
  case Heartbeat
  with assms show ?thesis
    by (auto simp: sig_handle_def handle_heartbeat_def Let_def registry.get_put split: if_splits)
next
  case Disconnect
  with assms show ?thesis by (auto simp: sig_handle_def handle_disconnect_def split: if_splits)
qed (use assms in \<open>simp_all add: sig_handle_def\<close>)

text \<open>
  A request for a challenge by key \<open>k\<close>: it always replaces the pending entry, by a fresh challenge
  that goes out to the requester; nothing else adds or changes an entry.
\<close>

definition requests_challenge :: "string \<Rightarrow> Packet \<Rightarrow> bool" where
  "requests_challenge k inp \<longleftrightarrow> ptype inp = Register \<and> payload inp = [] \<and> length (source inp) = kPublicKeyBytes \<and>
     to_hex (source inp) = k"

lemma sig_handle_requested:
  assumes "sig_handle E inp src now out s w = (out', s', w')" "requests_challenge k inp"
  shows "\<exists>c. c = fst (random_bytes E kChallengeBytes w) \<and> out' = out @ [\<lparr>out_to = src, out_packet = make Hello [] [] c\<rparr>] \<and>
    sig_pending s' k = Some \<lparr>pend_challenge = c, pend_endpoint = src, pend_expiry = now + challenge_ttl_seconds (sig_config s)\<rparr>"
  using assms by (auto simp: requests_challenge_def sig_handle_def handle_register_def Let_def split: prod.splits)

lemma sig_handle_pending:
  assumes "sig_handle E inp src now out s w = (out', s', w')" "\<not> requests_challenge k inp" "sig_pending s' k = Some it"
  shows "sig_pending s k = Some it"
proof (cases "ptype inp")
  case Register
  with assms show ?thesis
    by (auto simp: requests_challenge_def sig_handle_def handle_register_def Let_def split: if_splits prod.splits option.splits)
qed (use assms in \<open>auto simp: sig_handle_def handle_heartbeat_def handle_disconnect_def Let_def split: if_splits\<close>)

lemma sig_handle_config: "sig_handle E inp src now out s w = (out', s', w') \<Longrightarrow> sig_config s' = sig_config s"
  by (auto simp: sig_handle_def handle_register_def handle_heartbeat_def handle_disconnect_def Let_def
      split: PacketType.splits if_splits prod.splits option.splits)

text \<open>At most one packet goes out for each that comes in.\<close>

lemma sig_handle_out:
  assumes "sig_handle E inp src now out s w = (out', s', w')"
  shows "\<exists>new. out' = out @ new \<and> length new \<le> 1 \<and> sent w' = sent w \<and>
    (\<forall>p\<in>set new. out_to p = src \<or> ptype inp = Connect \<and> out_packet p = inp \<and>
       sig_lookup s (to_hex (destination inp)) = Some (out_to p))"
proof (cases "ptype inp")
  case Register
  obtain c w1 where r: "random_bytes E kChallengeBytes w = (c, w1)" by fastforce
  then have "sent w1 = sent w" by (metis random_bytes_frame(2) snd_conv)
  with assms Register r show ?thesis
    by (auto simp: sig_handle_def handle_register_def Let_def split: if_splits option.splits)
next
  case Connect
  with assms show ?thesis
    by (auto simp: sig_handle_def sig_handle_connect_def split: if_splits option.splits)
next
  case Discover
  with assms show ?thesis by (auto simp: sig_handle_def handle_discover_def Let_def split: if_splits)
next
  case Heartbeat
  with assms show ?thesis by (auto simp: sig_handle_def handle_heartbeat_def Let_def)
qed (use assms in \<open>simp_all add: sig_handle_def\<close>)

section \<open>Runs\<close>

text \<open>The history of a server: each packet that arrived, from where and when, and what was answered.\<close>

datatype Exchange = Exchange (ex_in: Packet) (ex_src: Endpoint) (ex_now: int) (ex_out: "Outgoing list")

inductive sig_reach :: "env \<Rightarrow> Exchange list \<Rightarrow> SignalingServer \<Rightarrow> bool" for E where
  init: "sig_reach E [] (new_signaling_server config)"
| arrive: "sig_reach E es s \<Longrightarrow> sig_handle E inp src now [] s w = (out, s', w') \<Longrightarrow>
    sig_reach E (es @ [Exchange inp src now out]) s'"
| sweep: "sig_reach E es s \<Longrightarrow> sig_reach E es (sig_expire now s)"

text \<open>In exchange \<open>x\<close> the server issued the random challenge \<open>c\<close> for key \<open>k\<close>, and no later one in \<open>post\<close>.\<close>

definition issued :: "env \<Rightarrow> string \<Rightarrow> bytes \<Rightarrow> Exchange \<Rightarrow> Exchange list \<Rightarrow> bool" where
  "issued E k c x post \<longleftrightarrow> requests_challenge k (ex_in x) \<and> (\<exists>v. c = fst (random_bytes E kChallengeBytes v)) \<and>
     ex_out x = [\<lparr>out_to = ex_src x, out_packet = make Hello [] [] c\<rparr>] \<and>
     (\<forall>y\<in>set post. \<not> requests_challenge k (ex_in y))"

text \<open>
  The proof of ownership of \<open>k\<close> in a history: the server sent a random challenge to an address that had asked
  for one for that key, and while it was the latest and at most \<open>ttl\<close> seconds old, a REGISTER of that key came from
  that address whose payload is a signature of exactly that challenge under that key.
\<close>

definition proved :: "env \<Rightarrow> int \<Rightarrow> Exchange list \<Rightarrow> string \<Rightarrow> bool" where
  "proved E ttl es k \<longleftrightarrow> (\<exists>pre x mid y post c. es = pre @ x # mid @ y # post \<and> issued E k c x mid \<and>
     ptype (ex_in y) = Register \<and> source (ex_in y) = source (ex_in x) \<and> ex_src y = ex_src x \<and>
     ex_now y \<le> ex_now x + ttl \<and> verify_detached E (payload (ex_in y)) c (source (ex_in y)))"

definition challenged :: "env \<Rightarrow> int \<Rightarrow> Exchange list \<Rightarrow> string \<Rightarrow> PendingChallenge \<Rightarrow> bool" where
  "challenged E ttl es k it \<longleftrightarrow> (\<exists>pre x post. es = pre @ x # post \<and> issued E k (pend_challenge it) x post \<and>
     pend_endpoint it = ex_src x \<and> pend_expiry it = ex_now x + ttl)"

lemma challenged_more:
  "challenged E ttl es k it \<Longrightarrow> \<not> requests_challenge k (ex_in y) \<Longrightarrow> challenged E ttl (es @ [y]) k it"
  unfolding challenged_def issued_def by fastforce

lemma proved_more: "proved E ttl es k \<Longrightarrow> proved E ttl (es @ [y]) k"
  unfolding proved_def by fastforce

lemma sig_reach_inv:
  "sig_reach E es s \<Longrightarrow> (\<forall>k it. sig_pending s k = Some it \<longrightarrow> challenged E (challenge_ttl_seconds (sig_config s)) es k it) \<and>
     (\<forall>k ep. sig_lookup s k = Some ep \<longrightarrow> proved E (challenge_ttl_seconds (sig_config s)) es k)"
proof (induction rule: sig_reach.induct)
  case (init config)
  show ?case by (simp add: new_signaling_server_def registry_lookup_def)
next
  case (arrive es s inp src now w out s' w')
  let ?y = "Exchange inp src now out"
  let ?es = "es @ [?y]" and ?ttl = "challenge_ttl_seconds (sig_config s)"
  have cfg: "sig_config s' = sig_config s" by (rule sig_handle_config [OF arrive.hyps(2)])
  show ?case unfolding cfg
  proof (intro conjI allI impI)
    fix k it assume it: "sig_pending s' k = Some it"
    show "challenged E ?ttl ?es k it"
    proof (cases "requests_challenge k inp")
      case True
      from sig_handle_requested [OF arrive.hyps(2) this] it True show ?thesis
        unfolding challenged_def issued_def by (intro exI [of _ es] exI [of _ ?y] exI [of _ "[]"]) auto
    next
      case False
      with sig_handle_pending [OF arrive.hyps(2) this it] arrive.IH show ?thesis by (simp add: challenged_more)
    qed
  next
    fix k ep assume ep: "sig_lookup s' k = Some ep"
    show "proved E ?ttl ?es k"
    proof (cases "sig_lookup s k")
      case (Some ep')
      then show ?thesis using arrive.IH proved_more by blast
    next
      case None
      with sig_handle_lookup [OF arrive.hyps(2) ep] have p: "owner_proof E inp src now s" "k = to_hex (source inp)" by auto
      then obtain it where it: "sig_pending s k = Some it" "pend_endpoint it = src" "ptype inp = Register" "now \<le> pend_expiry it"
        "verify_detached E (payload inp) (pend_challenge it) (source inp)" by (auto simp: owner_proof_def)
      from arrive.IH it(1) obtain pre x post where x: "es = pre @ x # post" "issued E k (pend_challenge it) x post"
        "pend_endpoint it = ex_src x" "pend_expiry it = ex_now x + ?ttl" unfolding challenged_def by blast
      have "source inp = source (ex_in x)" using x(2) p(2) by (auto simp: issued_def requests_challenge_def)
      with x it show ?thesis unfolding proved_def
        by (intro exI [of _ pre] exI [of _ x] exI [of _ post] exI [of _ ?y] exI [of _ "[]"] exI [of _ "pend_challenge it"]) simp
    qed
  qed
next
  case (sweep es s now)
  then show ?case
    by (auto simp: sig_expire_def split: option.splits if_splits dest!: registry.sweep_sound)
qed
lemma handshake_complete:
  assumes laws: "sign_correct E" "key_pair E pk sk"
    and ask: "sig_handle E (make Register pk [] []) src t1 [] s w = (out1, s1, w1)"
    and reg: "reg = make Register pk [] (sign_detached E (payload (out_packet (hd out1))) sk)"
    and answer: "sig_handle E reg src t2 [] s1 w2 = (out2, s2, w3)"
    and time: "t2 \<le> t1 + challenge_ttl_seconds (sig_config s)"
  shows "map out_to out1 = [src] \<and> registry_lookup (sig_registry s2) (to_hex pk) = Some src \<and>
    map out_to out2 = [src] \<and> map (ptype \<circ> out_packet) out2 = [Ack] \<and>
    map (parse_endpoint \<circ> payload \<circ> out_packet) out2 = [Some src] \<and>
    map (parse_endpoint \<circ> payload \<circ> out_packet) (handle_discover (make Discover [] pk []) other [] s2) = [Some src] \<and>
    sig_handle E reg src t3 [] s2 w4 = ([], s2, w4)"
proof -
  have pk: "length pk = kPublicKeyBytes" "pk \<noteq> []" "length sk = kSecretKeyBytes" "pk = crypto_sign_sk_to_pk E sk"
    using laws(2) by (auto simp: key_pair_def crypto_sizes)
  obtain c w' where c: "random_bytes E kChallengeBytes w = (c, w')" by fastforce
  have out1: "out1 = [\<lparr>out_to = src, out_packet = make Hello [] [] c\<rparr>]"
    and s1: "s1 = s\<lparr>sig_pending := (sig_pending s)(to_hex pk \<mapsto> \<lparr>pend_challenge = c, pend_endpoint = src,
        pend_expiry = t1 + challenge_ttl_seconds (sig_config s)\<rparr>)\<rparr>"
    using ask pk(1) c by (auto simp: sig_handle_def handle_register_def Let_def)
  have pl: "payload reg = crypto_sign_detached E c sk" "source reg = pk" "ptype reg = Register"
    using pk(3) by (simp_all add: reg out1 sign_detached_def)
  have sig: "length (payload reg) = kSignatureBytes" "payload reg \<noteq> []" "verify_detached E (payload reg) c pk"
  proof -
    show "length (payload reg) = kSignatureBytes" using laws(1) pl(1) by (simp add: sign_correct_def crypto_sizes)
    then show "payload reg \<noteq> []" by (auto simp: crypto_sizes)
    show "verify_detached E (payload reg) c pk"
      using laws(1) pl(1) pk(1,4) by (auto simp: sign_correct_def verify_detached_def crypto_sizes)
  qed
  have s2: "s2 = s1\<lparr>sig_registry := registry_upsert (to_hex pk) src t2 (sig_registry s1),
      sig_pending := (sig_pending s1)(to_hex pk := None)\<rparr>"
    and out2: "out2 = [\<lparr>out_to = src, out_packet = make Ack [] [] (bytes_of_string (endpoint_to_string src))\<rparr>]"
    using answer pk(1) pl(2,3) sig time by (auto simp: sig_handle_def handle_register_def s1 Let_def)
  have look: "registry_lookup (sig_registry s2) (to_hex pk) = Some src" by (simp add: s2 registry.get_put)
  have "sig_handle E reg src t3 [] s2 w4 = ([], s2, w4)"
    using pk(1) pl(2,3) sig by (simp add: sig_handle_def handle_register_def s2 Let_def)
  with look out1 out2 pk(2) show ?thesis by (simp add: handle_discover_def Let_def)
qed

lemma toy_registered:
  "\<exists>es s. sig_reach toy_env es s \<and> registry_lookup (sig_registry s) (to_hex (pad 32 [1])) = Some default_endpoint"
proof -
  obtain out1 s1 w1 where 1: "sig_handle toy_env (make Register (pad 32 [1]) [] []) default_endpoint 0 []
      (new_signaling_server default_sig_config) toy_world = (out1, s1, w1)" by (metis prod_cases3)
  obtain out2 s2 w2 where 2: "sig_handle toy_env
      (make Register (pad 32 [1]) [] (sign_detached toy_env (payload (out_packet (hd out1))) (pad 64 [1])))
      default_endpoint 10 [] s1 w1 = (out2, s2, w2)" by (metis prod_cases3)
  have "registry_lookup (sig_registry s2) (to_hex (pad 32 [1])) = Some default_endpoint"
    using handshake_complete [OF toy_env_laws(9) toy_key_pair 1 refl 2]
    by (simp add: new_signaling_server_def default_sig_config_def)
  then show ?thesis using sig_reach.arrive [OF sig_reach.arrive [OF sig_reach.init 1] 2] by blast
qed

section \<open>Properties\<close>

text \<open>
  (C18) Registration needs proof of ownership: in every state the server can reach, a key is
  registered only if its history holds the proof: the server sent a random challenge to an address that had
  asked for one for that 32-byte key, and a later REGISTER of that key, from that same address, within the
  challenge's lifetime and before any newer challenge, carried a signature of exactly that challenge that
  verifies under the key; no other traffic can make a key discoverable.
\<close>

theorem registered_proved:
  assumes "sig_reach E es s" and "registry_lookup (sig_registry s) k = Some ep"
  shows "proved E (challenge_ttl_seconds (sig_config s)) es k"
  using sig_reach_inv [OF assms(1)] assms(2) by blast

theorem registered_proved_witness:
  "\<exists>es s. sig_reach toy_env es s \<and> registry_lookup (sig_registry s) (to_hex (pad 32 [1])) = Some default_endpoint \<and>
     proved toy_env (challenge_ttl_seconds (sig_config s)) es (to_hex (pad 32 [1]))"
  using toy_registered registered_proved by blast

text \<open>
  What can change a registration: a packet makes the registry answer a new address for a
  key only if that address is the packet's own source and the packet names the key as its
  source, and then either it is a REGISTER that proves ownership of the pending challenge
  of that address in time, or a HEARTBEAT for a key that is already registered.
\<close>

theorem registration_change:
  assumes "sig_handle E inp src now out s w = (out', s', w')"
    and "registry_lookup (sig_registry s') k = Some ep" "registry_lookup (sig_registry s) k \<noteq> Some ep"
  shows "ep = src \<and> k = to_hex (source inp) \<and> length (source inp) = kPublicKeyBytes \<and>
    (owner_proof E inp src now s \<or> ptype inp = Heartbeat \<and> registry_lookup (sig_registry s) k \<noteq> None)"
  by (rule sig_handle_lookup [OF assms])

theorem registration_change_witness:
  "let s = (new_signaling_server default_sig_config)\<lparr>sig_registry := registry_upsert (to_hex (pad 32 [1])) default_endpoint 0 Map.empty\<rparr>;
       (out', s', w') = sig_handle toy_env (make Heartbeat (pad 32 [1]) [] []) \<lparr>host = ''h'', port = 1\<rparr> 5 [] s toy_world
   in registry_lookup (sig_registry s') (to_hex (pad 32 [1])) = Some \<lparr>host = ''h'', port = 1\<rparr> \<and>
      registry_lookup (sig_registry s) (to_hex (pad 32 [1])) \<noteq> None"
proof -
  let ?s = "(new_signaling_server default_sig_config)\<lparr>sig_registry := registry_upsert (to_hex (pad 32 [1])) default_endpoint 0 Map.empty\<rparr>"
  let ?p = "make Heartbeat (pad 32 [1]) [] []" and ?k = "to_hex (pad 32 [1])"
  obtain out' s' w' where h: "sig_handle toy_env ?p \<lparr>host = ''h'', port = 1\<rparr> 5 [] ?s toy_world = (out', s', w')"
    by (metis prod_cases3)
  have l: "registry_lookup (sig_registry s') ?k = Some \<lparr>host = ''h'', port = 1\<rparr>"
    using h by (auto simp: sig_handle_def handle_heartbeat_def registry.get_put crypto_sizes Let_def)
  have "registry_lookup (sig_registry ?s) ?k \<noteq> Some \<lparr>host = ''h'', port = 1\<rparr>"
    by (simp add: registry.get_put default_endpoint_def)
  note r = registration_change [OF h l this]
  have "\<not> owner_proof toy_env ?p \<lparr>host = ''h'', port = 1\<rparr> 5 ?s" by (simp add: owner_proof_def)
  with r have "registry_lookup (sig_registry ?s) ?k \<noteq> None" by blast
  with l show ?thesis unfolding Let_def h prod.case by blast
qed

text \<open>
  (C36) A heartbeat redirects a registration without any proof: whoever sends a HEARTBEAT
  naming a registered key becomes the address that discovery returns for that key, although
  nothing in the packet shows ownership of the key.
\<close>

theorem heartbeat_redirects:
  assumes "ptype inp = Heartbeat" "length (source inp) = kPublicKeyBytes"
    and "registry_lookup (sig_registry s) (to_hex (source inp)) = Some victim"
    and "sig_handle E inp attacker now out s w = (out', s', w')"
  shows "registry_lookup (sig_registry s') (to_hex (source inp)) = Some attacker"
  using assms by (auto simp: sig_handle_def handle_heartbeat_def registry.get_put Let_def)

theorem heartbeat_redirects_witness:
  "let s = (new_signaling_server default_sig_config)\<lparr>sig_registry := registry_upsert (to_hex (pad 32 [1])) default_endpoint 0 Map.empty\<rparr>;
       (out', s', w') = sig_handle toy_env (make Heartbeat (pad 32 [1]) [] []) \<lparr>host = ''evil'', port = 9\<rparr> 5 [] s toy_world
   in registry_lookup (sig_registry s') (to_hex (pad 32 [1])) = Some \<lparr>host = ''evil'', port = 9\<rparr>"
proof -
  let ?s = "(new_signaling_server default_sig_config)\<lparr>sig_registry := registry_upsert (to_hex (pad 32 [1])) default_endpoint 0 Map.empty\<rparr>"
  let ?p = "make Heartbeat (pad 32 [1]) [] []"
  obtain out' s' w' where h: "sig_handle toy_env ?p \<lparr>host = ''evil'', port = 9\<rparr> 5 [] ?s toy_world = (out', s', w')"
    by (metis prod_cases3)
  have "length (source ?p) = kPublicKeyBytes"
    "registry_lookup (sig_registry ?s) (to_hex (source ?p)) = Some default_endpoint"
    by (simp_all add: crypto_sizes registry.get_put)
  from heartbeat_redirects [OF make_sel(1) this h] show ?thesis unfolding Let_def h prod.case make_sel .
qed

text \<open>
  The registration handshake succeeds: a client that holds the secret key of a public
  key and answers the server's challenge with its signature, from the same address and
  within the challenge's lifetime, is registered at that address and receives that
  address in the ACK; discovery of the key then returns an address text that parses back to
  it; and the same signed REGISTER again does nothing, since the challenge is used up.
\<close>

theorem registration_handshake:
  assumes laws: "sign_correct E" "key_pair E pk sk"
    and ask: "sig_handle E (make Register pk [] []) src t1 [] s w = (out1, s1, w1)"
    and reg: "reg = make Register pk [] (sign_detached E (payload (out_packet (hd out1))) sk)"
    and answer: "sig_handle E reg src t2 [] s1 w2 = (out2, s2, w3)"
    and time: "t2 \<le> t1 + challenge_ttl_seconds (sig_config s)"
  shows "map out_to out1 = [src] \<and> registry_lookup (sig_registry s2) (to_hex pk) = Some src \<and>
    map out_to out2 = [src] \<and> map (ptype \<circ> out_packet) out2 = [Ack] \<and>
    map (parse_endpoint \<circ> payload \<circ> out_packet) out2 = [Some src] \<and>
    map (parse_endpoint \<circ> payload \<circ> out_packet) (handle_discover (make Discover [] pk []) other [] s2) = [Some src] \<and>
    sig_handle E reg src t3 [] s2 w4 = ([], s2, w4)"
  by (rule handshake_complete [OF assms])

theorem registration_handshake_witness:
  "\<exists>out1 s1 w1 out2 s2 w2.
     sig_handle toy_env (make Register (pad 32 [1]) [] []) default_endpoint 0 [] (new_signaling_server default_sig_config) toy_world
       = (out1, s1, w1) \<and>
     sig_handle toy_env (make Register (pad 32 [1]) [] (sign_detached toy_env (payload (out_packet (hd out1))) (pad 64 [1])))
       default_endpoint 10 [] s1 w1 = (out2, s2, w2) \<and>
     registry_lookup (sig_registry s2) (to_hex (pad 32 [1])) = Some default_endpoint"
proof -
  obtain out1 s1 w1 where 1: "sig_handle toy_env (make Register (pad 32 [1]) [] []) default_endpoint 0 []
      (new_signaling_server default_sig_config) toy_world = (out1, s1, w1)" by (metis prod_cases3)
  obtain out2 s2 w2 where 2: "sig_handle toy_env
      (make Register (pad 32 [1]) [] (sign_detached toy_env (payload (out_packet (hd out1))) (pad 64 [1])))
      default_endpoint 10 [] s1 w1 = (out2, s2, w2)" by (metis prod_cases3)
  from registration_handshake [OF toy_env_laws(9) toy_key_pair 1 refl 2]
  have "registry_lookup (sig_registry s2) (to_hex (pad 32 [1])) = Some default_endpoint"
    by (simp add: new_signaling_server_def default_sig_config_def)
  with 1 2 show ?thesis by blast
qed

text \<open>
  Expiry leaves only live entries: after a sweep every registration was refreshed within
  the peer lifetime and every pending challenge has not expired; a registration that was
  refreshed in time survives with its address.
\<close>

theorem sig_expire_live:
  "(case registry_seen (sig_registry (sig_expire now s)) k of None \<Rightarrow> True
      | Some t \<Rightarrow> now - peer_ttl_seconds (sig_config s) \<le> t) \<and>
   (case sig_pending (sig_expire now s) k of None \<Rightarrow> True | Some it \<Rightarrow> now \<le> pend_expiry it) \<and>
   (case registry_seen (sig_registry s) k of None \<Rightarrow> True
      | Some t \<Rightarrow> (if now - peer_ttl_seconds (sig_config s) \<le> t
          then registry_lookup (sig_registry (sig_expire now s)) k = registry_lookup (sig_registry s) k
          else registry_lookup (sig_registry (sig_expire now s)) k = None))"
  by (auto simp: sig_expire_def registry.seen_sweep registry.get_sweep split: option.splits)

text \<open>
  The server answers each datagram with at most one: \<^verbatim>\<open>run_once\<close> puts at most one datagram
  on the wire, so the server cannot be used to multiply traffic.
\<close>

theorem sig_run_once_sends_one:
  "length (sent (snd (snd (sig_run_once E timeout_ms now s w)))) \<le> length (sent w) + 1"
proof -
  obtain dg w1 where r: "receive E (sig_socket s) timeout_ms kReceiveBufferSize w = (dg, w1)" by fastforce
  have w1: "sent w1 = sent w"
    using r by (auto simp: receive_def endpoint_from_sockaddr_def Let_def split: option.splits prod.splits if_splits)
  show ?thesis
  proof (cases dg)
    case None
    then show ?thesis by (simp add: sig_run_once_def r w1)
  next
    case (Some d)
    obtain ok inp where d: "deserialize (dg_data d) default_packet = (ok, inp)" by fastforce
    show ?thesis
    proof (cases ok)
      case False
      then show ?thesis by (simp add: sig_run_once_def r Some d w1)
    next
      case True
      obtain out s1 w2 where h: "sig_handle E inp (dg_from d) now [] s w1 = (out, s1, w2)" by (metis prod_cases3)
      from sig_handle_out [OF h] have out: "length out \<le> 1" "sent w2 = sent w" using w1 by auto
      obtain ds where "subseq ds (map (\<lambda>o'. (out_to o', serialize (out_packet o'))) out)"
        "sent (snd (send_each (send_to E) (sig_socket s1) (map (\<lambda>o'. (out_to o', serialize (out_packet o'))) out) w2)) = sent w2 @ ds"
        using udp.send_each_sent by blast
      then show ?thesis using out list_emb_length [of "(=)" ds] True
        by (fastforce simp: sig_run_once_def r Some d h split: prod.splits)
    qed
  qed
qed
end
