(* ===== verification/Rendezvous.thy ===== *)
theory Rendezvous
  imports Client Signaling
begin

text \<open>
  The signaling client and the signaling server working together: what the client sends is what the
  server handles, and what the server answers is what the client waits for.
\<close>

section \<open>The server behind the wire\<close>

text \<open>What one datagram makes the server do, and the datagrams it answers with (as in \<open>sig_run_once\<close>).\<close>

definition served ::
  "env \<Rightarrow> Endpoint \<Rightarrow> int \<Rightarrow> bytes \<Rightarrow> SignalingServer \<Rightarrow> world \<Rightarrow> bytes list \<times> SignalingServer \<times> world" where
  "served E src now d s w =
     (case deserialize d default_packet of
        (False, _) \<Rightarrow> ([], s, w)
      | (True, inp) \<Rightarrow>
          (case sig_handle E inp src now [] s w of (out, s, w) \<Rightarrow> (map (serialize \<circ> out_packet) out, s, w)))"

lemma served_serialize:
  "wf_packet p \<Longrightarrow> served E src now (serialize p) s w =
     (case sig_handle E p src now [] s w of (out, s, w) \<Rightarrow> (map (serialize \<circ> out_packet) out, s, w))"
  by (simp add: served_def)

lemma wf_make:
  "wf_type t \<Longrightarrow> length a < 65536 \<Longrightarrow> length b < 65536 \<Longrightarrow> length p < 65536 \<Longrightarrow> wf_packet (make t a b p)"
  by (simp add: wf_packet_def fits_u16_def)

lemma wf_types: "wf_type Register" "wf_type Discover" "wf_type Connect" "wf_type Ack" "wf_type Hello"
  by (simp_all add: wf_type_def packet_type_of_def)

text \<open>The client's packets, as the server's \<open>make\<close> builds them.\<close>

lemma request_packets:
  "default_packet\<lparr>ptype := Register, source := pk\<rparr> = make Register pk [] []"
  "default_packet\<lparr>ptype := Register, source := pk, payload := x\<rparr> = make Register pk [] x"
  "default_packet\<lparr>ptype := Discover, destination := t\<rparr> = make Discover [] t []"
  "(make ty a b y)\<lparr>payload := x\<rparr> = make ty a b x"
  by (simp_all add: make_def default_packet_def)

lemma sc_send_last: "sc_send E p c w = (True, c', w') \<Longrightarrow> snd (last (sent w')) = serialize p"
  using sc_send_frame(1) by fastforce

text \<open>The two turns of the server in a registration.\<close>

lemma served_challenge:
  assumes "length pk = kPublicKeyBytes" "random_sized E"
    and "served E src t1 (serialize (make Register pk [] [])) s w = (ans, s1, w1)"
  obtains ch out where "sig_handle E (make Register pk [] []) src t1 [] s w = (out, s1, w1)"
    "out = [\<lparr>out_to = src, out_packet = make Hello [] [] ch\<rparr>]" "ans = [serialize (make Hello [] [] ch)]" "length ch = 32"
proof -
  have wf: "wf_packet (make Register pk [] [])" using assms(1) by (intro wf_make wf_types) (simp_all add: crypto_sizes)
  obtain ch w' where ch: "random_bytes E kChallengeBytes w = (ch, w')" by fastforce
  have "length ch = 32" using length_random_bytes [OF assms(2), of kChallengeBytes w] ch by (simp add: kChallengeBytes_def)
  with assms(1,3) ch that show thesis
    by (auto simp: served_serialize [OF wf] sig_handle_def handle_register_def Let_def)
qed

lemma served_ack:
  assumes laws: "sign_correct E" "key_pair E pk sk"
    and ask: "sig_handle E (make Register pk [] []) src t1 [] s v = (out1, s1, v1)" "out1 = [\<lparr>out_to = src, out_packet = make Hello [] [] ch\<rparr>]"
    and turn: "served E src t2 (serialize (make Register pk [] (sign_detached E ch sk))) s1 v2 = (ans, s2, v3)"
    and time: "t2 \<le> t1 + challenge_ttl_seconds (sig_config s)"
  shows "ans = [serialize (make Ack [] [] (bytes_of_string (endpoint_to_string src)))]" "sig_lookup s2 (to_hex pk) = Some src"
proof -
  let ?reg = "make Register pk [] (sign_detached E ch sk)"
  have pk: "length pk = kPublicKeyBytes" using laws(2) unfolding key_pair_def by blast
  have "length (sign_detached E ch sk) = kSignatureBytes"
    using laws(1,2) by (simp add: sign_detached_def key_pair_def sign_correct_def crypto_sizes)
  then have wf: "wf_packet ?reg" using pk by (intro wf_make wf_types) (simp_all add: crypto_sizes)
  obtain out2 where 2: "sig_handle E ?reg src t2 [] s1 v2 = (out2, s2, v3)" "ans = map (serialize \<circ> out_packet) out2"
    using turn [unfolded served_serialize [OF wf]] by (auto split: prod.splits)
  have "?reg = make Register pk [] (sign_detached E (payload (out_packet (hd out1))) sk)" by (simp add: ask(2))
  note hs = handshake_complete [OF laws ask(1) this 2(1) time]
  then obtain o2 where o2: "out2 = [o2]" "ptype (out_packet o2) = Ack" by (cases out2) auto
  have "out_packet o2 = make Ack [] [] (bytes_of_string (endpoint_to_string src))"
    using 2(1) o2 pk by (auto simp: sig_handle_def handle_register_def Let_def split: if_splits option.splits prod.splits)
  with 2(2) o2(1) hs show "ans = [serialize (make Ack [] [] (bytes_of_string (endpoint_to_string src)))]"
    "sig_lookup s2 (to_hex pk) = Some src" by simp_all
qed

section \<open>The worked example\<close>

text \<open>A network that answers the first requests with one datagram and the later ones with another.\<close>

definition toy_dialog :: "bytes \<Rightarrow> bytes \<Rightarrow> env" where
  "toy_dialog d1 d2 = toy_env\<lparr>os_poll := \<lambda>i fd t. 1,
     os_recvfrom := \<lambda>i fd n. Some (take n (if i < 8 then d1 else d2), \<lparr>sa_family = 2, sa_data = bytes_of_string ''srv:1''\<rparr>)\<rparr>"

definition toy_hello :: bytes where "toy_hello = serialize (make Hello [] [] (replicate 32 0))"
definition toy_ack :: bytes where "toy_ack = serialize (make Ack [] [] (bytes_of_string (endpoint_to_string default_endpoint)))"

definition toy_client :: SignalingClient where
  "toy_client = new_signaling_client \<lparr>sock_fd = 3, sock_family = 2\<rparr> default_endpoint (pad 32 [1])
     (Some (signer_for (toy_dialog toy_hello toy_ack) (pad 64 [1])))"

lemma toy_dialog_send:
  "is_open (sc_socket c) \<Longrightarrow> \<exists>w'. sc_send (toy_dialog d1 d2) p c w = (True, c, w') \<and> calls w' = calls w + 2"
  by (simp add: sc_send_def send_to_def resolve_def toy_dialog_def Let_def)

lemma toy_dialog_await:
  assumes "is_open (sc_socket c)" "wf_packet p" "length (serialize p) \<le> kReceiveBufferSize"
    and "serialize p = (if calls w + 3 < 8 then d1 else d2)"
  shows "\<exists>w'. await_packet (toy_dialog d1 d2) (ptype p) kDefaultTimeoutMs c w = Some (Some p, w') \<and> calls w' = calls w + 5"
proof -
  have r: "\<exists>v src. receive (toy_dialog d1 d2) (sc_socket c) 400 kReceiveBufferSize (next_call (next_call w)) =
      (Some \<lparr>dg_from = src, dg_data = serialize p\<rparr>, v) \<and> calls v = calls w + 5"
    using assms by (simp add: receive_def toy_dialog_def endpoint_from_sockaddr_def Let_def split: option.split prod.split)
  then obtain v src where v: "receive (toy_dialog d1 d2) (sc_socket c) 400 kReceiveBufferSize (next_call (next_call w)) =
      (Some \<lparr>dg_from = src, dg_data = serialize p\<rparr>, v)" "calls v = calls w + 5" by blast
  have clk: "steady_clock_now (toy_dialog d1 d2) n = int n * 300000000" for n by (simp add: toy_dialog_def)
  have dl: "(int (calls w) * 300000000 + 700 * 1000000 - int (calls (next_call w)) * 300000000) div 1000000 = 400" by simp
  let ?dl = "int (calls w) * 300000000 + 700 * 1000000"
  have rc: "receive (toy_dialog d1 d2) (sc_socket c) ((?dl - steady_clock_now (toy_dialog d1 d2) (calls (next_call w))) div 1000000)
      kReceiveBufferSize (next_call (next_call w)) = (Some \<lparr>dg_from = src, dg_data = serialize p\<rparr>, v)"
    unfolding clk dl by (rule v(1))
  have "steady_clock_now (toy_dialog d1 d2) (calls (next_call w)) < ?dl" by (simp add: clk)
  from await_loop_round [OF this rc, of "ptype p"] assms(2)
  have "await_loop (toy_dialog d1 d2) (ptype p) ?dl (sc_socket c) (next_call w) = Some (Some p, v)" by (simp add: Let_def)
  with v(2) show ?thesis by (simp add: await_packet_def clk kDefaultTimeoutMs_def Let_def)
qed

lemma toy_dialog_laws:
  "sign_correct (toy_dialog d1 d2)" "key_pair (toy_dialog d1 d2) = key_pair toy_env" "random_sized (toy_dialog d1 d2)"
  using toy_env_laws(3,9) by (simp_all add: sign_correct_def random_sized_def key_pair_def toy_dialog_def fun_eq_iff)

section \<open>Properties\<close>

text \<open>
  (C19) Registration end to end: when the server handles the datagrams the client sends and the client
  receives the server's answers, \<^verbatim>\<open>register_self\<close> returns true at its first attempt, the client
  learns the address under which the server saw it, and the server's registry has that
  address for the client's key.  The server's clock may move on between the two datagrams
  by up to the life of a challenge.
\<close>

theorem registration_end_to_end:
  assumes laws: "sign_correct E" "key_pair E pk sk" "random_sized E"
    and client: "sc_public_key c = pk" "sc_signer c = Some (signer_for E sk)" "attempts > 0"
    and ask: "sc_send E (make Register pk [] []) c w = (True, c1, w1)"
    and turn1: "served E src t1 (snd (last (sent w1))) s v = (ans1, s1, v1)"
    and got1: "await_packet E Hello tm c1 w1 = Some (Some p1, w2)" "b1 \<in> set ans1" "deserialize b1 default_packet = (True, p1)"
    and answer: "sc_send E (make Register pk [] (sign_detached E (payload p1) sk)) c1 w2 = (True, c2, w3)"
    and turn2: "served E src t2 (snd (last (sent w3))) s1 v2 = (ans2, s2, v3)"
    and got2: "await_packet E Ack tm c2 w3 = Some (Some p2, w4)" "b2 \<in> set ans2" "deserialize b2 default_packet = (True, p2)"
    and time: "t2 \<le> t1 + challenge_ttl_seconds (sig_config s)" and short: "length (endpoint_to_string src) < 65536"
  shows "register_self E tm attempts c w = Some (True, c2\<lparr>sc_public_endpoint := Some src\<rparr>, w4) \<and>
    sig_lookup s2 (to_hex pk) = Some src"
proof -
  have pk: "length pk = kPublicKeyBytes" using laws(2) unfolding key_pair_def by blast
  obtain ch out1 where 1: "sig_handle E (make Register pk [] []) src t1 [] s v = (out1, s1, v1)"
    "out1 = [\<lparr>out_to = src, out_packet = make Hello [] [] ch\<rparr>]" "ans1 = [serialize (make Hello [] [] ch)]" "length ch = 32"
    by (rule served_challenge [OF pk laws(3) turn1 [unfolded sc_send_last [OF ask]]])
  have "wf_packet (make Hello [] [] ch)" using 1(4) by (intro wf_make wf_types) simp_all
  then have p1: "p1 = make Hello [] [] ch" using got1(2,3) 1(3) by simp
  have reg: "served E src t2 (serialize (make Register pk [] (sign_detached E ch sk))) s1 v2 = (ans2, s2, v3)"
    using turn2 sc_send_last [OF answer] p1 by simp
  note ack = served_ack [OF laws(1,2) 1(1,2) reg time]
  have "wf_packet (make Ack [] [] (bytes_of_string (endpoint_to_string src)))" using short by (intro wf_make wf_types) simp_all
  then have p2: "p2 = make Ack [] [] (bytes_of_string (endpoint_to_string src))" using got2(2,3) ack(1) by simp
  obtain n where n: "nat attempts = Suc n" using client(3) by (cases "nat attempts") auto
  have c1: "sc_public_key c1 = pk" "sc_signer c1 = Some (signer_for E sk)"
    using sc_send_frame(3,4) [OF ask] client by simp_all
  have "register_self E tm attempts c w = Some (True, c2\<lparr>sc_public_endpoint := Some src\<rparr>, w4)"
    using ask got1(1) answer got2(1) p2 c1 client
    by (simp add: register_self_def n request_packets signer_for_def)
  with ack(2) show ?thesis by blast
qed

theorem registration_end_to_end_witness:
  "\<exists>c' w' s. register_self (toy_dialog toy_hello toy_ack) kDefaultTimeoutMs kDefaultAttempts toy_client toy_world = Some (True, c', w') \<and>
     public_endpoint c' = Some default_endpoint \<and> sig_lookup s (to_hex (pad 32 [1])) = Some default_endpoint"
proof -
  let ?E = "toy_dialog toy_hello toy_ack" and ?pk = "pad 32 [1] :: bytes" and ?sk = "pad 64 [1] :: bytes"
  let ?p1 = "make Hello [] [] (replicate 32 0)" and ?p2 = "make Ack [] [] (bytes_of_string (endpoint_to_string default_endpoint))"
  let ?s = "new_signaling_server default_sig_config"
  have op: "is_open (sc_socket toy_client)" by (simp add: toy_client_def new_signaling_client_def is_open_def)
  have short: "length (endpoint_to_string default_endpoint) < 20"
    by (simp add: endpoint_to_string_def default_endpoint_def dec_string.simps [of 0])
  have wf: "wf_packet ?p1" "wf_packet ?p2" using short by (intro wf_make wf_types; simp)+
  have len: "length (serialize ?p1) \<le> kReceiveBufferSize" "length (serialize ?p2) \<le> kReceiveBufferSize"
    using short by (simp_all add: serialize_eq kReceiveBufferSize_def)
  obtain w1 where 1: "sc_send ?E (make Register ?pk [] []) toy_client toy_world = (True, toy_client, w1)" "calls w1 = 2"
    using toy_dialog_send [OF op, of toy_hello toy_ack "make Register ?pk [] []" toy_world] by (auto simp: toy_world_def)
  obtain w2 where 2: "await_packet ?E Hello kDefaultTimeoutMs toy_client w1 = Some (Some ?p1, w2)" "calls w2 = 7"
    using toy_dialog_await [OF op wf(1) len(1), of w1 toy_hello toy_ack] 1(2) by (auto simp: toy_hello_def)
  let ?r = "make Register ?pk [] (sign_detached ?E (payload ?p1) ?sk)"
  obtain w3 where 3: "sc_send ?E ?r toy_client w2 = (True, toy_client, w3)" "calls w3 = 9"
    using toy_dialog_send [OF op, of toy_hello toy_ack ?r w2] 2(2) by auto
  obtain w4 where 4: "await_packet ?E Ack kDefaultTimeoutMs toy_client w3 = Some (Some ?p2, w4)"
    using toy_dialog_await [OF op wf(2) len(2), of w3 toy_hello toy_ack] 3(2) by (auto simp: toy_ack_def)
  let ?s1 = "?s\<lparr>sig_pending := [to_hex ?pk \<mapsto> \<lparr>pend_challenge = replicate 32 0, pend_endpoint = default_endpoint, pend_expiry = 30\<rparr>]\<rparr>"
  have pk: "length ?pk = kPublicKeyBytes" by (simp add: crypto_sizes)
  have wr: "wf_packet (make Register ?pk [] [])" by (intro wf_make wf_types) simp_all
  have t1: "sig_handle ?E (make Register ?pk [] []) default_endpoint 0 [] ?s toy_world =
      ([\<lparr>out_to = default_endpoint, out_packet = ?p1\<rparr>], ?s1, next_call toy_world)"
    by (simp add: sig_handle_def handle_register_def kPublicKeyBytes_def random_bytes_def
        kChallengeBytes_def new_signaling_server_def default_sig_config_def Let_def)
       (simp add: toy_dialog_def toy_world_def)
  have s1: "served ?E default_endpoint 0 (snd (last (sent w1))) ?s toy_world = ([serialize ?p1], ?s1, next_call toy_world)"
    by (simp add: sc_send_last [OF 1(1)] served_serialize [OF wr] t1)
  obtain ans2 s2 v2 where t2: "served ?E default_endpoint 10 (snd (last (sent w3))) ?s1 (next_call toy_world) = (ans2, s2, v2)" by (metis prod_cases3)
  have kp: "key_pair ?E ?pk ?sk" by (simp add: toy_dialog_laws(2))
  have time: "(10 :: int) \<le> 0 + challenge_ttl_seconds (sig_config ?s)"
    by (simp add: new_signaling_server_def default_sig_config_def)
  have "served ?E default_endpoint 10 (serialize (make Register ?pk [] (sign_detached ?E (replicate 32 0) ?sk))) ?s1 (next_call toy_world)
      = (ans2, s2, v2)" using t2 sc_send_last [OF 3(1)] by simp
  note a2 = served_ack(1) [OF toy_dialog_laws(1) kp t1 refl this time]
  have cl: "sc_public_key toy_client = ?pk" "sc_signer toy_client = Some (signer_for ?E ?sk)" "kDefaultAttempts > 0"
    by (simp_all add: toy_client_def new_signaling_client_def kDefaultAttempts_def)
  have des: "deserialize (serialize ?p1) default_packet = (True, ?p1)" "deserialize (serialize ?p2) default_packet = (True, ?p2)"
    using wf by simp_all
  have mem: "serialize ?p1 \<in> set [serialize ?p1]" "serialize ?p2 \<in> set ans2" by (simp_all add: a2)
  have "length (endpoint_to_string default_endpoint) < 65536" using short by simp
  from registration_end_to_end [OF toy_dialog_laws(1) kp toy_dialog_laws(3) cl 1(1) s1 2(1) mem(1) des(1) 3(1) t2 4 mem(2) des(2) time this]
  show ?thesis by (auto simp: public_endpoint_def)
qed

text \<open>
  (C20) Discovery end to end: when the server handles the query and the client receives its answer, the
  client reports exactly the address the registry has for the peer, or a response without
  an address if the peer is not registered; the query does not change the server.
\<close>

theorem discovery_end_to_end:
  assumes "attempts > 0" "target \<noteq> []" "length target < 65536"
    and short: "\<And>ep. sig_lookup s (to_hex target) = Some ep \<Longrightarrow> length (endpoint_to_string ep) < 65536"
    and ask: "sc_send E (make Discover [] target []) c w = (True, c1, w1)"
    and turn: "served E src t (snd (last (sent w1))) s v = (ans, s1, v1)"
    and got: "await_packet E Connect tm c1 w1 = Some (Some p, w2)" "b \<in> set ans" "deserialize b default_packet = (True, p)"
  shows "discover E target tm attempts c w =
      Some (\<lparr>dr_responded = True, dr_endpoint = sig_lookup s (to_hex target)\<rparr>, c1, w2) \<and> s1 = s"
proof -
  have "wf_packet (make Discover [] target [])" using assms(3) by (intro wf_make wf_types) simp_all
  note turn' = turn [unfolded sc_send_last [OF ask] served_serialize [OF this]]
  let ?pl = "case sig_lookup s (to_hex target) of Some ep \<Rightarrow> bytes_of_string (endpoint_to_string ep) | None \<Rightarrow> []"
  have ans: "ans = [serialize (make Connect target [] ?pl)]" "s1 = s"
    using turn' assms(2) by (auto simp: sig_handle_def handle_discover_def Let_def)
  have "wf_packet (make Connect target [] ?pl)"
    using assms(3) short by (intro wf_make wf_types) (auto split: option.split)
  then have p: "p = make Connect target [] ?pl" using got(2,3) ans(1) by simp
  obtain n where n: "nat attempts = Suc n" using assms(1) by (cases "nat attempts") auto
  have "parse_endpoint ?pl = sig_lookup s (to_hex target)" by (auto simp: parse_endpoint_eq split: option.split)
  with ask got(1) p ans(2) show ?thesis by (simp add: discover_def n request_packets)
qed

theorem discovery_end_to_end_witness:
  "\<exists>r w'. discover (toy_dialog (serialize (make Connect (pad 32 [2]) [] (bytes_of_string (endpoint_to_string default_endpoint)))) [])
      (pad 32 [2]) kDefaultTimeoutMs kDefaultAttempts toy_client toy_world = Some (r, toy_client, w') \<and>
     r = \<lparr>dr_responded = True, dr_endpoint = Some default_endpoint\<rparr>"
proof -
  let ?p = "make Connect (pad 32 [2]) [] (bytes_of_string (endpoint_to_string default_endpoint))"
  let ?E = "toy_dialog (serialize ?p) []" and ?t = "pad 32 [2] :: bytes"
  let ?s = "(new_signaling_server default_sig_config)\<lparr>sig_registry := registry_upsert (to_hex ?t) default_endpoint 0 Map.empty\<rparr>"
  have op: "is_open (sc_socket toy_client)" by (simp add: toy_client_def new_signaling_client_def is_open_def)
  have short: "length (endpoint_to_string default_endpoint) < 20"
    by (simp add: endpoint_to_string_def default_endpoint_def dec_string.simps [of 0])
  have wf: "wf_packet ?p" using short by (intro wf_make wf_types) simp_all
  have len: "length (serialize ?p) \<le> kReceiveBufferSize" using short by (simp add: serialize_eq kReceiveBufferSize_def)
  obtain w1 where 1: "sc_send ?E (make Discover [] ?t []) toy_client toy_world = (True, toy_client, w1)" "calls w1 = 2"
    using toy_dialog_send [OF op, of "serialize ?p" "[]" "make Discover [] ?t []" toy_world] by (auto simp: toy_world_def)
  obtain w2 where 2: "await_packet ?E Connect kDefaultTimeoutMs toy_client w1 = Some (Some ?p, w2)"
    using toy_dialog_await [OF op wf len, of w1 "serialize ?p" "[]"] 1(2) by auto
  have look: "sig_lookup ?s (to_hex ?t) = Some default_endpoint" by (simp add: registry.get_put)
  have ne: "?t \<noteq> []" by (metis length_pad list.size(3) zero_neq_numeral)
  have wd: "wf_packet (make Discover [] ?t [])" by (intro wf_make wf_types) simp_all
  have turn: "served ?E default_endpoint 0 (snd (last (sent w1))) ?s toy_world = ([serialize ?p], ?s, toy_world)"
    using look ne by (simp add: sc_send_last [OF 1(1)] served_serialize [OF wd] sig_handle_def handle_discover_def Let_def)
  have pre: "kDefaultAttempts > 0" "length ?t < 65536" "serialize ?p \<in> set [serialize ?p]"
    "deserialize (serialize ?p) default_packet = (True, ?p)" using wf by (simp_all add: kDefaultAttempts_def)
  have "length (endpoint_to_string ep) < 65536" if "sig_lookup ?s (to_hex ?t) = Some ep" for ep
    using that look short by simp
  from discovery_end_to_end [OF pre(1) ne pre(2) this 1(1) turn 2 pre(3,4)] look show ?thesis by auto
qed

end
