(* ===== verification/Connectivity.thy ===== *)
theory Connectivity
  imports Relay Paths Handshake Rendezvous
begin

text \<open>
  How two engines reach each other: the introduction by the signaling server, hole punching, and the
  relay.  The parts meet only in the datagrams, so each theorem follows a datagram from the part that
  sends it to the part that handles it.
\<close>

section \<open>Probes\<close>

lemma wf_hello: "length p < 65536 \<Longrightarrow> length q < 65536 \<Longrightarrow> wf_packet (hello_packet p q)"
  by (simp add: hello_packet_def wf_packet_def default_packet_def wf_type_def packet_type_of_def fits_u16_def)

lemma hello_sel [simp]:
  "ptype (hello_packet p q) = Hello" "source (hello_packet p q) = p" "destination (hello_packet p q) = q"
  by (simp_all add: hello_packet_def)

text \<open>A probe is a HELLO addressed to the peer; it is handled before any cryptography.\<close>

lemma probe_arrives:
  assumes "length p = 32" "length (eng_public f) = 32"
  shows "dispatch E \<lparr>dg_from = a, dg_data = serialize (hello_packet p (eng_public f))\<rparr> f v = (True, handle_probe E p a f v)"
proof -
  have "p \<noteq> []" using assms(1) by auto
  moreover have "deserialize (serialize (hello_packet p (eng_public f))) default_packet = (True, hello_packet p (eng_public f))"
    using wf_hello assms by simp
  ultimately show ?thesis by (simp add: dispatch_def Let_def)
qed

lemma send_probe_works:
  assumes "socket_works E" "send_probe E p a e w = (e', w')"
  shows "sent w' = sent w @ [(a, serialize (hello_packet (eng_public e) p))]"
proof -
  obtain ok where s: "engine_send_to E a (serialize (hello_packet (eng_public e) p)) e w = (ok, e', w')"
    using assms(2) by (auto simp: send_probe_def hello_packet_def Let_def) (metis prod.collapse)
  moreover have ok using assms(1) s by (auto simp: engine_send_to_def socket_works_def split: prod.splits) (metis fst_conv)
  ultimately show ?thesis using engine_send_to_eff [OF s] by auto
qed

lemma start_probing_works:
  assumes "socket_works E" "\<not> has_direct_path e p" "start_probing E p a e w = (e', w')"
  shows "sent w' = sent w @ [(a, serialize (hello_packet (eng_public e) p))] \<and> \<not> has_direct_path e' p \<and>
    eng_public e' = eng_public e \<and> eng_endpoints e' = eng_endpoints e"
proof -
  obtain q where "send_probe E p a (e\<lparr>eng_probes := (eng_probes e)(to_hex p \<mapsto> q)\<rparr>) (next_call w) = (e', w')"
    using assms(2,3) by (auto simp: start_probing_def has_direct_path_def Let_def split: option.splits if_splits)
  from send_probe_works [OF assms(1) this] start_probing_eff [OF assms(3)] assms(2) show ?thesis
    by (auto simp: has_direct_path_def)
qed

lemma handle_probe_works:
  assumes "socket_works E" "handle_probe E p a e w = (e', w')"
  shows "has_direct_path e' p" "path_to e' p = Some a" "eng_public e' = eng_public e"
    "sent w' = sent w @ (if has_direct_path e p then [] else [(a, serialize (hello_packet (eng_public e) p))])"
proof -
  show "has_direct_path e' p" "path_to e' p = Some a" "eng_public e' = eng_public e"
    using handle_probe_eff [OF assms(2)] by (auto simp: has_direct_path_def)
  show "sent w' = sent w @ (if has_direct_path e p then [] else [(a, serialize (hello_packet (eng_public e) p))])"
  proof (cases "has_direct_path e p")
    case True
    then show ?thesis using handle_probe_eff [OF assms(2)] by auto
  next
    case False
    then obtain e0 where "send_probe E p a e0 w = (e', w')" "eng_public e0 = eng_public e"
      using assms(2) by (auto simp: handle_probe_def has_direct_path_def default_probe_def Let_def split: option.splits if_splits)
    from send_probe_works [OF assms(1) this(1)] this(2) False show ?thesis by simp
  qed
qed

lemma connect_works:
  assumes "socket_works E" "\<not> has_direct_path e p" "connect E p a e w = (active, e', w')"
  shows "sent w' = sent w @ [(a, serialize (hello_packet (eng_public e) p))]" "\<not> has_direct_path e' p"
    "eng_public e' = eng_public e" "path_to e' p = Some active"
proof -
  let ?e = "e\<lparr>eng_endpoints := (eng_endpoints e)(to_hex p \<mapsto> active)\<rparr>"
  have "start_probing E p a ?e w = (e', w')" using assms(3) by (auto simp: connect_def Let_def split: prod.splits)
  moreover have "\<not> has_direct_path ?e p" using assms(2) by (simp add: has_direct_path_def)
  ultimately have *: "sent w' = sent w @ [(a, serialize (hello_packet (eng_public ?e) p))] \<and> \<not> has_direct_path e' p \<and>
    eng_public e' = eng_public ?e \<and> eng_endpoints e' = eng_endpoints ?e" by (metis start_probing_works [OF assms(1)])
  show "sent w' = sent w @ [(a, serialize (hello_packet (eng_public e) p))]" "\<not> has_direct_path e' p"
    "eng_public e' = eng_public e" "path_to e' p = Some active" using * by simp_all
qed

section \<open>Hole punching\<close>

text \<open>
  (C14) Hole punching converges: when one engine connects to a candidate address of a peer that has no confirmed
  path to it either, then, if the probe gets through, the peer takes the address it came from for the direct path and
  answers once; the answer confirms the path on the first side, which answers once more, and
  that third HELLO is answered by nothing.  Both sides end with a direct path to the address the
  other was last seen at, whatever address translation lies between, after exactly three datagrams.
\<close>

theorem hole_punch_converges:
  assumes "socket_works E" "length (eng_public e) = 32" "length (eng_public f) = 32"
    and "\<not> has_direct_path e (eng_public f)" "\<not> has_direct_path f (eng_public e)"
    and "connect E (eng_public f) cand e w = (active, e1, w1)"
  shows "\<exists>h1 h2. sent w1 = sent w @ [(cand, h1)] \<and>
    (\<forall>a v. \<exists>f1 v1. dispatch E \<lparr>dg_from = a, dg_data = h1\<rparr> f v = (True, f1, v1) \<and> sent v1 = sent v @ [(a, h2)] \<and>
       (\<forall>b u. \<exists>e2 u2. dispatch E \<lparr>dg_from = b, dg_data = h2\<rparr> e1 u = (True, e2, u2) \<and> sent u2 = sent u @ [(b, h1)] \<and>
          has_direct_path e2 (eng_public f) \<and> path_to e2 (eng_public f) = Some b \<and>
          (\<forall>a' x. \<exists>f2 x2. dispatch E \<lparr>dg_from = a', dg_data = h1\<rparr> f1 x = (True, f2, x2) \<and> sent x2 = sent x \<and>
             has_direct_path f2 (eng_public e) \<and> path_to f2 (eng_public e) = Some a')))"
proof -
  let ?e = "eng_public e" and ?f = "eng_public f"
  let ?h1 = "serialize (hello_packet ?e ?f)" and ?h2 = "serialize (hello_packet ?f ?e)"
  note c = connect_works [OF assms(1,4,6)]
  have third: "\<exists>f2 x2. dispatch E \<lparr>dg_from = a', dg_data = ?h1\<rparr> f1 x = (True, f2, x2) \<and> sent x2 = sent x \<and>
      has_direct_path f2 ?e \<and> path_to f2 ?e = Some a'" if "eng_public f1 = ?f" "has_direct_path f1 ?e" for f1 a' x
  proof -
    obtain f2 x2 where h: "handle_probe E ?e a' f1 x = (f2, x2)" by fastforce
    from handle_probe_works [OF assms(1) h] probe_arrives [of ?e f1 E a' x] show ?thesis
      by (simp add: h that assms(2,3))
  qed
  have first: "\<exists>f1 v1. dispatch E \<lparr>dg_from = a, dg_data = ?h1\<rparr> f v = (True, f1, v1) \<and> sent v1 = sent v @ [(a, ?h2)] \<and>
      eng_public f1 = ?f \<and> has_direct_path f1 ?e" for a v
  proof -
    obtain f1 v1 where h: "handle_probe E ?e a f v = (f1, v1)" by fastforce
    from handle_probe_works [OF assms(1) h] probe_arrives [OF assms(2,3), of E a v] show ?thesis by (simp add: h assms(5))
  qed
  have second: "\<exists>e2 u2. dispatch E \<lparr>dg_from = b, dg_data = ?h2\<rparr> e1 u = (True, e2, u2) \<and> sent u2 = sent u @ [(b, ?h1)] \<and>
      has_direct_path e2 ?f \<and> path_to e2 ?f = Some b" for b u
  proof -
    obtain e2 u2 where h: "handle_probe E ?f b e1 u = (e2, u2)" by fastforce
    from handle_probe_works [OF assms(1) h] probe_arrives [of ?f e1 E b u] show ?thesis
      by (simp add: h c(2,3) assms(2,3))
  qed
  show ?thesis
  proof (rule exI [of _ ?h1], rule exI [of _ ?h2], intro conjI allI)
    show "sent w1 = sent w @ [(cand, ?h1)]" by (rule c(1))
    fix a v
    show "\<exists>f1 v1. dispatch E \<lparr>dg_from = a, dg_data = ?h1\<rparr> f v = (True, f1, v1) \<and> sent v1 = sent v @ [(a, ?h2)] \<and>
       (\<forall>b u. \<exists>e2 u2. dispatch E \<lparr>dg_from = b, dg_data = ?h2\<rparr> e1 u = (True, e2, u2) \<and> sent u2 = sent u @ [(b, ?h1)] \<and>
          has_direct_path e2 ?f \<and> path_to e2 ?f = Some b \<and>
          (\<forall>a' x. \<exists>f2 x2. dispatch E \<lparr>dg_from = a', dg_data = ?h1\<rparr> f1 x = (True, f2, x2) \<and> sent x2 = sent x \<and>
             has_direct_path f2 ?e \<and> path_to f2 ?e = Some a'))"
      using first [of a v] second third by meson
  qed
qed

theorem hole_punch_converges_witness:
  "\<exists>active e1 w1 h1 h2 f1 v1 e2 u2 f2 x2.
     connect toy_env (pad 32 [4]) \<lparr>host = ''dave'', port = 4\<rparr> toy_carol toy_world = (active, e1, w1) \<and>
     dispatch toy_env \<lparr>dg_from = \<lparr>host = ''nat'', port = 9\<rparr>, dg_data = h1\<rparr> toy_dave toy_world = (True, f1, v1) \<and>
     dispatch toy_env \<lparr>dg_from = \<lparr>host = ''dave'', port = 4\<rparr>, dg_data = h2\<rparr> e1 w1 = (True, e2, u2) \<and>
     dispatch toy_env \<lparr>dg_from = \<lparr>host = ''nat'', port = 9\<rparr>, dg_data = h1\<rparr> f1 v1 = (True, f2, x2) \<and>
     sent w1 = [(\<lparr>host = ''dave'', port = 4\<rparr>, h1)] \<and> sent v1 = [(\<lparr>host = ''nat'', port = 9\<rparr>, h2)] \<and>
     path_to e2 (pad 32 [4]) = Some \<lparr>host = ''dave'', port = 4\<rparr> \<and> path_to f2 (pad 32 [3]) = Some \<lparr>host = ''nat'', port = 9\<rparr>"
proof -
  let ?nat = "\<lparr>host = ''nat'', port = 9\<rparr>" and ?dave = "\<lparr>host = ''dave'', port = 4\<rparr>"
  obtain active e1 w1 where c: "connect toy_env (eng_public toy_dave) ?dave toy_carol toy_world = (active, e1, w1)"
    by (metis prod_cases3)
  have n: "length (eng_public toy_carol) = 32" "length (eng_public toy_dave) = 32"
      "\<not> has_direct_path toy_carol (eng_public toy_dave)" "\<not> has_direct_path toy_dave (eng_public toy_carol)"
    by (simp_all add: toy_strangers) (simp_all add: has_direct_path_def toy_carol_def toy_dave_def new_engine_def)
  from hole_punch_converges [OF toy_socket_works n c] obtain h1 h2 where h: "sent w1 = sent toy_world @ [(?dave, h1)]"
    and r1: "\<And>a v. \<exists>f1 v1. dispatch toy_env \<lparr>dg_from = a, dg_data = h1\<rparr> toy_dave v = (True, f1, v1) \<and> sent v1 = sent v @ [(a, h2)] \<and>
       (\<forall>b u. \<exists>e2 u2. dispatch toy_env \<lparr>dg_from = b, dg_data = h2\<rparr> e1 u = (True, e2, u2) \<and> sent u2 = sent u @ [(b, h1)] \<and>
          has_direct_path e2 (eng_public toy_dave) \<and> path_to e2 (eng_public toy_dave) = Some b \<and>
          (\<forall>a' x. \<exists>f2 x2. dispatch toy_env \<lparr>dg_from = a', dg_data = h1\<rparr> f1 x = (True, f2, x2) \<and> sent x2 = sent x \<and>
             has_direct_path f2 (eng_public toy_carol) \<and> path_to f2 (eng_public toy_carol) = Some a'))" by blast
  from r1 [of ?nat toy_world] obtain f1 v1 where f1: "dispatch toy_env \<lparr>dg_from = ?nat, dg_data = h1\<rparr> toy_dave toy_world = (True, f1, v1)"
      "sent v1 = sent toy_world @ [(?nat, h2)]"
    and r2: "\<And>b u. \<exists>e2 u2. dispatch toy_env \<lparr>dg_from = b, dg_data = h2\<rparr> e1 u = (True, e2, u2) \<and> sent u2 = sent u @ [(b, h1)] \<and>
          has_direct_path e2 (eng_public toy_dave) \<and> path_to e2 (eng_public toy_dave) = Some b \<and>
          (\<forall>a' x. \<exists>f2 x2. dispatch toy_env \<lparr>dg_from = a', dg_data = h1\<rparr> f1 x = (True, f2, x2) \<and> sent x2 = sent x \<and>
             has_direct_path f2 (eng_public toy_carol) \<and> path_to f2 (eng_public toy_carol) = Some a')"
    by blast
  from r2 [of ?dave w1] obtain e2 u2 where e2: "dispatch toy_env \<lparr>dg_from = ?dave, dg_data = h2\<rparr> e1 w1 = (True, e2, u2)"
      "path_to e2 (eng_public toy_dave) = Some ?dave"
    and r3: "\<And>a' x. \<exists>f2 x2. dispatch toy_env \<lparr>dg_from = a', dg_data = h1\<rparr> f1 x = (True, f2, x2) \<and> sent x2 = sent x \<and>
             has_direct_path f2 (eng_public toy_carol) \<and> path_to f2 (eng_public toy_carol) = Some a'"
    by blast
  from r3 [of ?nat v1] obtain f2 x2 where "dispatch toy_env \<lparr>dg_from = ?nat, dg_data = h1\<rparr> f1 v1 = (True, f2, x2)"
      "path_to f2 (eng_public toy_carol) = Some ?nat" by blast
  with c h f1 e2 show ?thesis unfolding toy_strangers(2,3) by (simp add: toy_world_def) blast
qed

text \<open>
  A probe is answered only by an engine that has no direct path to the prober yet: when one side of a
  direct path restarts, its probes move the other side's path and are never answered, so it does
  not get a confirmed path back.
\<close>

lemma restarted_peer_unanswered:
  assumes "socket_works E" "length p = 32" "length (eng_public f) = 32" "has_direct_path f p"
  shows "case dispatch E \<lparr>dg_from = a, dg_data = serialize (hello_packet p (eng_public f))\<rparr> f v of (ok, f', v') \<Rightarrow>
    ok \<and> sent v' = sent v \<and> path_to f' p = Some a"
proof -
  obtain f' v' where h: "handle_probe E p a f v = (f', v')" by fastforce
  from handle_probe_works [OF assms(1) h] assms(4) show ?thesis by (simp add: probe_arrives [OF assms(2,3)] h)
qed


section \<open>The introduction by the server\<close>

lemma engine_parse_endpoint_to_string: "engine_parse_endpoint (bytes_of_string (endpoint_to_string ep)) = Some ep"
  using parse_endpoint_to_string [of ep] unfolding engine_parse_endpoint_def parse_endpoint_def .

lemma connect_arrives:
  assumes "wf_packet p" "ptype p = Connect"
  shows "dispatch E \<lparr>dg_from = src, dg_data = serialize p\<rparr> f v = (True, handle_connect E (source p) (payload p) f v)"
  using assms by (simp add: dispatch_def Let_def)

lemma handle_connect_works:
  assumes "socket_works E" "engine_parse_endpoint pl = Some a" "\<not> has_direct_path e p" "handle_connect E p pl e w = (e', w')"
  shows "sent w' = sent w @ [(a, serialize (hello_packet (eng_public e) p))]" "\<not> has_direct_path e' p"
    "path_to e' p = (case path_to e p of Some b \<Rightarrow> Some b | None \<Rightarrow> eng_relay e)"
proof -
  let ?e = "case (eng_endpoints e (to_hex p), eng_relay e) of
      (None, Some relay) \<Rightarrow> e\<lparr>eng_endpoints := (eng_endpoints e)(to_hex p \<mapsto> relay)\<rparr> | _ \<Rightarrow> e"
  have sp: "start_probing E p a ?e w = (e', w')" using assms(2,4) by (simp add: handle_connect_def Let_def)
  have e: "\<not> has_direct_path ?e p" "eng_public ?e = eng_public e"
      "path_to ?e p = (case path_to e p of Some b \<Rightarrow> Some b | None \<Rightarrow> eng_relay e)"
    using assms(3) by (auto simp: has_direct_path_def split: option.splits)
  from start_probing_works [OF assms(1) e(1) sp] e show "sent w' = sent w @ [(a, serialize (hello_packet (eng_public e) p))]" "\<not> has_direct_path e' p"
    "path_to e' p = (case path_to e p of Some b \<Rightarrow> Some b | None \<Rightarrow> eng_relay e)" by simp_all
qed

text \<open>
  (C21) The introduction through the server: what \<^verbatim>\<open>send_connect\<close> sends goes to the server, which forwards it
  unchanged to the address the target is registered at and keeps its state; the target's engine, which need not know the sender,
  reads the sender's address from it, sends its own probe exactly there, and until that is answered
  keeps the path it had or takes the relay.
\<close>

theorem introduction_probes_back:
  assumes "socket_works E" "length (sc_public_key c) = 32" "length (eng_public f) = 32" "length (endpoint_to_string mine) < 65536"
    and "send_connect E (eng_public f) (bytes_of_string (endpoint_to_string mine)) c w = (True, c', w')"
    and "sig_lookup s (to_hex (eng_public f)) = Some registered" "\<not> has_direct_path f (sc_public_key c)"
  shows "\<exists>d p. sent w' = sent w @ [(sc_server c, d)] \<and> deserialize d default_packet = (True, p) \<and>
    (\<forall>src now v. sig_handle E p src now [] s v = ([\<lparr>out_to = registered, out_packet = p\<rparr>], s, v)) \<and>
    (\<forall>src u. \<exists>f1 u1. dispatch E \<lparr>dg_from = src, dg_data = serialize p\<rparr> f u = (True, f1, u1) \<and>
       sent u1 = sent u @ [(mine, serialize (hello_packet (eng_public f) (sc_public_key c)))] \<and>
       path_to f1 (sc_public_key c) = (case path_to f (sc_public_key c) of Some a \<Rightarrow> Some a | None \<Rightarrow> eng_relay f))"
proof -
  let ?p = "Signaling.make Connect (sc_public_key c) (eng_public f) (bytes_of_string (endpoint_to_string mine))"
  have "sc_send E ?p c w = (True, c', w')"
    using assms(5) by (simp add: send_connect_def make_def default_packet_def)
  then have out: "sent w' = sent w @ [(sc_server c, serialize ?p)]" using sc_send_frame(1) by fastforce
  have wf: "wf_packet ?p" using assms(2-4) by (intro wf_make wf_types) simp_all
  have "eng_public f \<noteq> []" using assms(3) by auto
  then have srv: "sig_handle E ?p src now [] s v = ([\<lparr>out_to = registered, out_packet = ?p\<rparr>], s, v)" for src now v
    using assms(6) by (simp add: sig_handle_def sig_handle_connect_def)
  have "\<exists>f1 u1. dispatch E \<lparr>dg_from = src, dg_data = serialize ?p\<rparr> f u = (True, f1, u1) \<and>
       sent u1 = sent u @ [(mine, serialize (hello_packet (eng_public f) (sc_public_key c)))] \<and>
       path_to f1 (sc_public_key c) = (case path_to f (sc_public_key c) of Some a \<Rightarrow> Some a | None \<Rightarrow> eng_relay f)" for src u
  proof -
    obtain f1 u1 where h: "handle_connect E (sc_public_key c) (bytes_of_string (endpoint_to_string mine)) f u = (f1, u1)" by fastforce
    from handle_connect_works [OF assms(1) engine_parse_endpoint_to_string assms(7) h] connect_arrives [OF wf, of E src f u]
    show ?thesis by (simp add: h)
  qed
  moreover have "deserialize (serialize ?p) default_packet = (True, ?p)" using wf by simp
  ultimately show ?thesis using out srv by (intro exI [of _ "serialize ?p"] exI [of _ ?p]) blast
qed


theorem introduction_probes_back_witness:
  "\<exists>c' w' p f1 u1. let c = toy_client; mine = \<lparr>host = ''carol'', port = 7\<rparr>;
       s = (new_signaling_server default_sig_config)\<lparr>sig_registry := registry_upsert (to_hex (pad 32 [4])) default_endpoint 0 Map.empty\<rparr> in
     send_connect toy_env (pad 32 [4]) (bytes_of_string (endpoint_to_string mine)) c toy_world = (True, c', w') \<and>
     sig_handle toy_env p default_endpoint 0 [] s toy_world = ([\<lparr>out_to = default_endpoint, out_packet = p\<rparr>], s, toy_world) \<and>
     dispatch toy_env \<lparr>dg_from = default_endpoint, dg_data = serialize p\<rparr> toy_dave toy_world = (True, f1, u1) \<and>
     sent u1 = [(mine, serialize (hello_packet (pad 32 [4]) (pad 32 [1])))] \<and> path_to f1 (pad 32 [1]) = Some default_endpoint"
proof -
  let ?mine = "\<lparr>host = ''carol'', port = 7\<rparr>"
  let ?s = "(new_signaling_server default_sig_config)\<lparr>sig_registry := registry_upsert (to_hex (pad 32 [4])) default_endpoint 0 Map.empty\<rparr>"
  have short: "length (endpoint_to_string ?mine) < 65536"
    by (simp add: endpoint_to_string_def dec_string.simps [of 7])
  obtain ok c' w' where sc: "send_connect toy_env (eng_public toy_dave) (bytes_of_string (endpoint_to_string ?mine)) toy_client toy_world
      = (ok, c', w')" by (metis prod_cases3)
  then have ok: ok using toy_socket_works by (auto simp: send_connect_def sc_send_def socket_works_def split: prod.splits) (metis fst_conv)
  with sc have sc: "send_connect toy_env (eng_public toy_dave) (bytes_of_string (endpoint_to_string ?mine)) toy_client toy_world
      = (True, c', w')" by simp
  have reg: "sig_lookup ?s (to_hex (eng_public toy_dave)) = Some default_endpoint"
    by (simp add: toy_strangers registry_upsert_def registry_lookup_def)
  have pre: "length (sc_public_key toy_client) = 32" "length (eng_public toy_dave) = 32" "sc_public_key toy_client = pad 32 [1]"
    "\<not> has_direct_path toy_dave (sc_public_key toy_client)" "eng_endpoints toy_dave = Map.empty" "eng_relay toy_dave = Some default_endpoint"
    by (simp_all add: toy_strangers toy_client_def new_signaling_client_def)
      (simp_all add: has_direct_path_def toy_dave_def new_engine_def)
  from introduction_probes_back [OF toy_socket_works pre(1,2) short sc reg pre(4)] obtain p where
    p: "sig_handle toy_env p default_endpoint 0 [] ?s toy_world = ([\<lparr>out_to = default_endpoint, out_packet = p\<rparr>], ?s, toy_world)"
      "\<exists>f1 u1. dispatch toy_env \<lparr>dg_from = default_endpoint, dg_data = serialize p\<rparr> toy_dave toy_world = (True, f1, u1) \<and>
       sent u1 = sent toy_world @ [(?mine, serialize (hello_packet (eng_public toy_dave) (sc_public_key toy_client)))] \<and>
       path_to f1 (sc_public_key toy_client) = (case path_to toy_dave (sc_public_key toy_client) of Some a \<Rightarrow> Some a | None \<Rightarrow> eng_relay toy_dave)"
    by blast
  then obtain f1 u1 where f1: "dispatch toy_env \<lparr>dg_from = default_endpoint, dg_data = serialize p\<rparr> toy_dave toy_world = (True, f1, u1)"
      "sent u1 = [(?mine, serialize (hello_packet (pad 32 [4]) (pad 32 [1])))]" "path_to f1 (pad 32 [1]) = Some default_endpoint"
    by (auto simp: pre(3,5,6) toy_strangers toy_world_def)
  show ?thesis using sc p(1) f1 unfolding Let_def toy_strangers(3) by blast
qed

section \<open>Through the relay\<close>

text \<open>What the relay does with a datagram at a time, after sweeps up to another.\<close>

definition relayed :: "int \<Rightarrow> int \<Rightarrow> bytes \<Rightarrow> Endpoint \<Rightarrow> RelayServer \<Rightarrow> (Endpoint \<times> bytes) list \<times> RelayServer" where
  "relayed sweep now d src r = (case relay_handle d src now [] (relay_expire sweep r) of (out, r) \<Rightarrow>
     (map (\<lambda>f. (fw_to f, fw_datagram f)) out, r))"

text \<open>The relay knows a peer: its route is there, and was refreshed at the given time.\<close>

definition knows_route :: "RelayServer \<Rightarrow> bytes \<Rightarrow> Endpoint \<Rightarrow> int \<Rightarrow> bool" where
  "knows_route r p a t \<longleftrightarrow> route_lookup (rl_routes r) (to_hex p) = Some a \<and> route_seen (rl_routes r) (to_hex p) = Some t"

lemma relayed_learns:
  assumes "wf_packet q" "source q \<noteq> []"
  shows "knows_route (snd (relayed sw t (serialize q) a r)) (source q) a t"
    and "rl_config (snd (relayed sw t (serialize q) a r)) = rl_config r"
  using relay_handle_ok [OF deserialize_serialize [OF assms(1)], of a t "[]" "relay_expire sw r"] assms(2)
  by (simp_all add: relayed_def knows_route_def route.get_put route.seen_put Let_def relay_expire_def)

lemma relayed_forwards:
  assumes "wf_packet q" "source q \<noteq> []" "destination q \<noteq> []" "source q \<noteq> destination q"
    and "knows_route r (destination q) b t0" "sw - route_ttl_seconds (rl_config r) \<le> t0"
  shows "fst (relayed sw t (serialize q) a r) = [(b, serialize q)]"
proof -
  have "to_hex (source q) \<noteq> to_hex (destination q)" using assms(4) by simp
  then show ?thesis
    using relay_handle_ok [OF deserialize_serialize [OF assms(1)], of a t "[]" "relay_expire sw r"] assms(2,3,5,6)
    by (simp add: relayed_def knows_route_def route.get_put route.get_sweep Let_def relay_expire_def)
qed


text \<open>The other end of a sealed packet, and the addresses packets are sent to.\<close>

lemma sealed_destination:
  assumes "ends E e f" "session_for E e (eng_public f) s" "sealed_for E s ty m q"
  shows "destination q = eng_public f"
proof -
  obtain v s' v' where enc: "encrypt_as E s ty m v = (q, s', v')" using assms(3) unfolding sealed_for_def by blast
  have "session_ok E e (eng_public f) s" using assms(1,2) session_for_ok by (auto simp: ends_def)
  then show ?thesis using encrypt_as_fields(7) [OF enc] by (simp add: session_ok_def)
qed

lemma send_encrypted_to:
  assumes "send_encrypted E p s ty m e w = (True, e', w')" "path_to e p = Some a"
  shows "fst (last (sent w')) = a"
proof -
  obtain q s' w1 where q: "encrypt_as E s ty m w = (q, s', w1)" by (metis prod_cases3)
  have "engine_send_to E a (serialize q) (put_session p s' e) w1 = (True, e', w')"
    using assms q by (simp add: send_encrypted_def send_packet_def put_session_def Let_def)
  from engine_send_to_eff [OF this] show ?thesis by auto
qed

lemma request_to:
  assumes "send_contact_request E p a g e w = (True, e', w')"
  shows "fst (last (sent w')) = a"
proof -
  obtain s e1 where r: "ensure_session E p e = (Some s, e1)" "store_trust_of (eng_contacts e) p \<noteq> Some Accepted"
    using assms by (auto simp: send_contact_request_def split: if_splits option.splits prod.splits)
  let ?e = "e1\<lparr>eng_endpoints := (eng_endpoints e1)(to_hex p \<mapsto> a), eng_outgoing := insert (to_hex p) (eng_outgoing e1)\<rparr>"
  obtain e2 w2 where st: "set_trust E p Pending ?e w = (e2, w2)" by fastforce
  from set_trust_eff [OF st] have "path_to e2 p = Some a" by auto
  moreover have "send_encrypted E p s ContactRequest g e2 w2 = (True, e', w')"
    using assms r st by (simp add: send_contact_request_def Let_def)
  ultimately show ?thesis by (rule send_encrypted_to [rotated])
qed

lemma decision_to:
  assumes "decide_contact E t d p e w = (True, e', w')" "path_to e p = Some a"
  shows "fst (last (sent w')) = a"
proof -
  obtain s e1 where r: "ensure_session E p e = (Some s, e1)" "to_hex p \<in> eng_incoming e"
    using assms by (auto simp: decide_contact_def Let_def split: if_splits option.splits prod.splits)
  obtain st w1 where rm: "store_remove_request E p (eng_contacts e1) w = (st, w1)" by fastforce
  let ?e = "e1\<lparr>eng_incoming := eng_incoming e1 - {to_hex p}, eng_contacts := st\<rparr>"
  obtain e2 w2 where tr: "set_trust E p t ?e w1 = (e2, w2)" by fastforce
  from set_trust_eff [OF tr] ensure_session_paths [OF r(1)] assms(2) have "path_to e2 p = Some a" by auto
  moreover have "send_encrypted E p s ContactResponse [d] e2 w2 = (True, e', w')"
    using assms r rm tr by (simp add: decide_contact_def Let_def)
  ultimately show ?thesis by (rule send_encrypted_to [rotated])
qed

text \<open>While there is no direct path, a peer is answered at the address its last packet came from.\<close>

lemma dispatch_moves_path:
  assumes "dispatch E \<lparr>dg_from = a, dg_data = serialize q\<rparr> e w = (True, e', w')" "wf_packet q"
    and "ptype q = ContactRequest \<or> ptype q = ContactResponse" "\<not> has_direct_path e (source q)"
  shows "path_to e' (source q) = Some a"
proof -
  have d: "deserialize (serialize q) default_packet = (True, q)" using assms(2) by simp
  obtain r e1 where r: "ensure_session E (source q) e = (r, e1)" by fastforce
  then obtain s where s: "r = Some s" using assms(1,3) d by (cases r) (auto simp: dispatch_def Let_def)
  obtain m s' where dec: "decrypt E s q = (Some m, s')"
    using assms(1,3) d r s by (cases "decrypt E s q"; cases "fst (decrypt E s q)") (auto simp: dispatch_def Let_def)
  have "deliver E q m a (put_session (source q) s' e1) w = (True, e', w')"
    using assms(1,3) d r s dec by (auto simp: dispatch_def Let_def)
  from deliver_paths [OF this] assms(4) ensure_session_paths [OF r] show ?thesis
    by (simp add: has_direct_path_def put_session_def)
qed

lemma announcement_sent:
  assumes "announce_to E relay f w = (True, f', w')"
  shows "sent w' = sent w @ [(relay, serialize (hello_packet (eng_public f) []))]" "eng_public f' = eng_public f"
proof -
  have "engine_send_to E relay (serialize (hello_packet (eng_public f) [])) f w = (True, f', w')"
    using assms by (simp add: announce_to_def hello_packet_def default_packet_def Let_def)
  from engine_send_to_eff [OF this] show "sent w' = sent w @ [(relay, serialize (hello_packet (eng_public f) []))]"
    "eng_public f' = eng_public f" by auto
qed


text \<open>The two datagrams of the introduction on their way through the relay.\<close>

lemma relayed_between:
  assumes "wf_packet q" "source q = p1" "destination q = p2" "length p1 = 32" "length p2 = 32" "p1 \<noteq> p2"
    and "knows_route r p2 b t0" "sw - route_ttl_seconds (rl_config r) \<le> t0"
  shows "fst (relayed sw t (serialize q) a r) = [(b, serialize q)]" "knows_route (snd (relayed sw t (serialize q) a r)) p1 a t"
    "rl_config (snd (relayed sw t (serialize q) a r)) = rl_config r"
proof -
  have ne: "source q \<noteq> []" "destination q \<noteq> []" using assms(2-5) by auto
  show "fst (relayed sw t (serialize q) a r) = [(b, serialize q)]"
    by (rule relayed_forwards [OF assms(1) ne]) (use assms in auto)
  show "knows_route (snd (relayed sw t (serialize q) a r)) p1 a t" "rl_config (snd (relayed sw t (serialize q) a r)) = rl_config r"
    using relayed_learns [OF assms(1) ne(1)] assms(2) by simp_all
qed

lemma answer_goes_to:
  assumes "crypto_laws E" "ends E f1 e1" "accept_contact E (eng_public e1) f1 x = (True, f2, x2)"
    and "path_to f1 (eng_public e1) = Some a"
  obtains q where "sent x2 = sent x @ [(a, serialize q)]" "wf_packet q" "source q = eng_public f1" "destination q = eng_public e1"
proof -
  have dc: "decide_contact E Accepted kAccept (eng_public e1) f1 x = (True, f2, x2)" using assms(3) by (simp add: accept_contact_def)
  obtain s c q where q: "session_for E f1 (eng_public e1) s" "sealed_for E s ContactResponse [kAccept] q"
      "sent x2 = sent x @ [(c, serialize q)]" by (rule decision_sent [OF dc])
  have wt: "wf_type ContactResponse" "length [kAccept] + 40 < 65536" by (simp_all add: wf_type_def packet_type_of_def)
  note sq = sealed_facts [OF assms(1,2) q(1,2) wt(2,1)] and ds = sealed_destination [OF assms(2) q(1,2)]
  have "c = a" using decision_to [OF dc assms(4)] q(3) by simp
  with q(3) sq(1,2) ds show thesis by (intro that [of q]) simp_all
qed

text \<open>The outcome: the datagram completes the introduction at the requester.\<close>

definition completes :: "env \<Rightarrow> Engine \<Rightarrow> Endpoint \<Rightarrow> bytes \<Rightarrow> Engine \<Rightarrow> bool" where
  "completes E e src d f \<longleftrightarrow> (\<forall>u. \<exists>e2 u2. dispatch E \<lparr>dg_from = src, dg_data = d\<rparr> e u = (True, e2, u2) \<and>
     eng_events e2 = eng_events e @ (if eng_response_handler e then [ResponseEvent (eng_public f) True] else []) \<and>
     can_talk E e2 f)"

definition shown :: "Engine \<Rightarrow> bytes \<Rightarrow> bytes \<Rightarrow> Engine \<Rightarrow> bool" where
  "shown f p g f1 \<longleftrightarrow> trust_of f1 p = Some Pending \<and>
     eng_events f1 = eng_events f @ (if eng_request_handler f then [RequestEvent p g] else [])"

text \<open>The handshake with the addresses it runs over, while there is no direct path.\<close>

lemma handshake_addressed:
  assumes laws: "crypto_laws E" and en: "ends E e f" and g: "length g + 40 < 65536"
    and new: "trust_of f (eng_public e) = None" "to_hex (eng_public e) \<notin> eng_incoming f"
    and fresh: "fresh_counter (seen_of f (eng_public e)) (next_counter e (eng_public f))"
      "fresh_counter (seen_of e (eng_public f)) (next_counter f (eng_public e))"
      "next_counter e (eng_public f) \<noteq> - 1" "next_counter f (eng_public e) \<noteq> - 1"
    and direct: "\<not> has_direct_path f (eng_public e)"
    and req: "send_contact_request E (eng_public f) to g e w = (True, e1, w1)"
  obtains q where "sent w1 = sent w @ [(to, serialize q)]" "wf_packet q" "source q = eng_public e" "destination q = eng_public f"
    "\<And>src v. \<exists>f1 v1. dispatch E \<lparr>dg_from = src, dg_data = serialize q\<rparr> f v = (True, f1, v1) \<and> shown f (eng_public e) g f1 \<and>
       (\<forall>x f2 x2. accept_contact E (eng_public e) f1 x = (True, f2, x2) \<longrightarrow>
          (\<exists>d. sent x2 = sent x @ [(src, serialize d)] \<and> wf_packet d \<and> source d = eng_public f \<and> destination d = eng_public e \<and>
             (\<forall>src'. completes E e1 src' (serialize d) f2)))"
proof -
  let ?e = "eng_public e" and ?f = "eng_public f"
  obtain s a q where q: "session_for E e ?f s" "sealed_for E s ContactRequest g q" "sent w1 = sent w @ [(a, serialize q)]"
    "session_step E e e1" "to_hex ?f \<in> eng_outgoing e1" "seen_of e1 ?f = seen_of e ?f" "next_counter e1 ?f = next_counter e ?f + 1"
    by (rule request_sent [OF req])
  have wt: "wf_type ContactRequest" by (simp add: wf_type_def packet_type_of_def)
  note sq = sealed_facts [OF laws en q(1,2) g wt] and ds = sealed_destination [OF en q(1,2)]
  have "\<exists>f1 v1. dispatch E \<lparr>dg_from = src, dg_data = serialize q\<rparr> f v = (True, f1, v1) \<and> shown f ?e g f1 \<and>
       (\<forall>x f2 x2. accept_contact E ?e f1 x = (True, f2, x2) \<longrightarrow>
          (\<exists>d. sent x2 = sent x @ [(src, serialize d)] \<and> wf_packet d \<and> source d = ?f \<and> destination d = ?e \<and>
             (\<forall>src'. completes E e1 src' (serialize d) f2)))" for src v
  proof -
    from request_arrives [OF laws en q(1,2) g new fresh(1), of src v] obtain f1 v1 where f1:
      "dispatch E \<lparr>dg_from = src, dg_data = serialize q\<rparr> f v = (True, f1, v1)" "shown f ?e g f1"
      "session_step E f f1" "seen_of f1 ?e = Some (next_counter e ?f)" "next_counter f1 ?e = next_counter f ?e"
      by (auto simp: shown_def)
    have path: "path_to f1 ?e = Some src" using dispatch_moves_path [OF f1(1) sq(1)] sq(2,3) direct by simp
    have en1: "ends E f1 e1" "eng_public f1 = ?f" "eng_public e1 = ?e"
      using ends_sym [OF ends_step [OF ends_step' [OF en q(4)] f1(3)]] q(4) f1(3) by (auto simp: session_step_def)
    have "\<exists>d. sent x2 = sent x @ [(src, serialize d)] \<and> wf_packet d \<and> source d = ?f \<and> destination d = ?e \<and>
             (\<forall>src'. completes E e1 src' (serialize d) f2)" if ac: "accept_contact E ?e f1 x = (True, f2, x2)" for x f2 x2
    proof -
      obtain d where d: "sent x2 = sent x @ [(src, serialize d)]" "wf_packet d" "source d = ?f" "destination d = ?e"
        by (rule answer_goes_to [OF laws en1(1), unfolded en1(2,3), OF ac path])
      have "eng_public f2 = ?f" using decide_contact_eff [OF ac [unfolded accept_contact_def]] en1(2) by (auto simp: decided_def)
      with acceptance_completes [OF laws en q(4-7) f1(3-5) fresh(2-4) ac] d(1) have "completes E e1 src' (serialize d) f2" for src'
        by (auto simp: completes_def)
      with d show ?thesis by blast
    qed
    with f1(1,2) show ?thesis by blast
  qed
  with q(3) request_to [OF req] sq(1,2) ds show thesis by (intro that [of q]) auto
qed

text \<open>
  (C7) Two strangers become contacts through the relay: the one has announced itself to the relay, the
  other, who has not, sends its request to the relay's address.  While the routes live, the relay passes
  each datagram on, unchanged, to the address its receiver was last seen at; the request is shown, the
  answer goes back to the relay by itself and from there to where the request came from, and then both
  sides trust each other and accept each other's next message.  No address of either side need be known to the other.
\<close>

theorem relayed_contact:
  assumes laws: "crypto_laws E" and en: "ends E e f" and g: "length g + 40 < 65536"
    and new: "trust_of f (eng_public e) = None" "to_hex (eng_public e) \<notin> eng_incoming f"
    and fresh: "fresh_counter (seen_of f (eng_public e)) (next_counter e (eng_public f))"
      "fresh_counter (seen_of e (eng_public f)) (next_counter f (eng_public e))"
      "next_counter e (eng_public f) \<noteq> - 1" "next_counter f (eng_public e) \<noteq> - 1"
    and apart: "eng_public e \<noteq> eng_public f" "\<not> has_direct_path f (eng_public e)"
    and ann: "announce_to E relay f0 w0 = (True, f, w0')"
    and req: "send_contact_request E (eng_public f) relay g e w = (True, e1, w1)"
  shows "\<exists>h b. sent w0' = sent w0 @ [(relay, h)] \<and> sent w1 = sent w @ [(relay, b)] \<and>
    (\<forall>r sw0 t0 af sw1 t1 ae v. sw1 - route_ttl_seconds (rl_config r) \<le> t0 \<longrightarrow>
       (\<exists>r2 f1 v1. relayed sw1 t1 b ae (snd (relayed sw0 t0 h af r)) = ([(af, b)], r2) \<and>
         dispatch E \<lparr>dg_from = relay, dg_data = b\<rparr> f v = (True, f1, v1) \<and> shown f (eng_public e) g f1 \<and>
         (\<forall>x f2 x2. accept_contact E (eng_public e) f1 x = (True, f2, x2) \<longrightarrow>
            (\<exists>d. sent x2 = sent x @ [(relay, d)] \<and>
               (\<forall>sw2 t2 af'. sw2 - route_ttl_seconds (rl_config r) \<le> t1 \<longrightarrow> fst (relayed sw2 t2 d af' r2) = [(ae, d)]) \<and>
               completes E e1 relay d f2))))"
proof -
  let ?e = "eng_public e" and ?f = "eng_public f" and ?h = "hello_packet (eng_public f) []"
  have pk: "length ?e = 32" "length ?f = 32" using en unfolding ends_def key_pair_def crypto_sizes by blast+
  have h: "sent w0' = sent w0 @ [(relay, serialize ?h)]" "wf_packet ?h" "source ?h \<noteq> []"
    using announcement_sent [OF ann] wf_hello [of ?f "[]"] pk(2) by auto
  from handshake_addressed [OF laws en g new fresh apart(2) req] obtain q where
    q: "sent w1 = sent w @ [(relay, serialize q)]" "wf_packet q" "source q = ?e" "destination q = ?f"
    and hs: "\<And>src v. \<exists>f1 v1. dispatch E \<lparr>dg_from = src, dg_data = serialize q\<rparr> f v = (True, f1, v1) \<and> shown f ?e g f1 \<and>
       (\<forall>x f2 x2. accept_contact E ?e f1 x = (True, f2, x2) \<longrightarrow>
          (\<exists>d. sent x2 = sent x @ [(src, serialize d)] \<and> wf_packet d \<and> source d = ?f \<and> destination d = ?e \<and>
             (\<forall>src'. completes E e1 src' (serialize d) f2)))" by metis
  have "\<exists>r2 f1 v1. relayed sw1 t1 (serialize q) ae (snd (relayed sw0 t0 (serialize ?h) af r)) = ([(af, serialize q)], r2) \<and>
         dispatch E \<lparr>dg_from = relay, dg_data = serialize q\<rparr> f v = (True, f1, v1) \<and> shown f ?e g f1 \<and>
         (\<forall>x f2 x2. accept_contact E ?e f1 x = (True, f2, x2) \<longrightarrow>
            (\<exists>d. sent x2 = sent x @ [(relay, d)] \<and>
               (\<forall>sw2 t2 af'. sw2 - route_ttl_seconds (rl_config r) \<le> t1 \<longrightarrow> fst (relayed sw2 t2 d af' r2) = [(ae, d)]) \<and>
               completes E e1 relay d f2))"
    if live: "sw1 - route_ttl_seconds (rl_config r) \<le> t0" for r sw0 t0 af sw1 t1 ae v
  proof -
    let ?r1 = "snd (relayed sw0 t0 (serialize ?h) af r)"
    have k1: "knows_route ?r1 ?f af t0" "rl_config ?r1 = rl_config r" using relayed_learns [OF h(2,3)] by simp_all
    obtain out2 r2 where r2: "relayed sw1 t1 (serialize q) ae ?r1 = (out2, r2)" by fastforce
    note k2 = relayed_between [OF q(2-4) pk apart(1) k1(1), of sw1 t1 ae, unfolded k1(2) r2 fst_conv snd_conv, OF live]
    have "fst (relayed sw2 t2 (serialize d) af' r2) = [(ae, serialize d)]"
      if "sw2 - route_ttl_seconds (rl_config r) \<le> t1" "wf_packet d" "source d = ?f" "destination d = ?e" for sw2 t2 af' d
      by (rule relayed_between(1) [OF that(2-4) pk(2,1) apart(1) [symmetric] k2(2)]) (simp add: k2(3) that(1))
    then show ?thesis using hs [of relay v] r2 k2(1) by meson
  qed
  with h(1) q(1) show ?thesis by blast
qed


theorem relayed_contact_witness:
  "\<exists>f w0' e1 w1 h b r2 f1 v1 f2 x2 d.
     announce_to toy_env default_endpoint toy_dave toy_world = (True, f, w0') \<and> sent w0' = [(default_endpoint, h)] \<and>
     send_contact_request toy_env (pad 32 [4]) default_endpoint [104, 105] toy_carol toy_world = (True, e1, w1) \<and>
     relayed 30 40 b \<lparr>host = ''carol'', port = 3\<rparr> (snd (relayed 0 0 h \<lparr>host = ''dave'', port = 4\<rparr> (new_relay_server default_relay_config)))
       = ([(\<lparr>host = ''dave'', port = 4\<rparr>, b)], r2) \<and>
     dispatch toy_env \<lparr>dg_from = default_endpoint, dg_data = b\<rparr> f toy_world = (True, f1, v1) \<and>
     accept_contact toy_env (pad 32 [3]) f1 toy_world = (True, f2, x2) \<and> sent x2 = [(default_endpoint, d)] \<and>
     fst (relayed 50 60 d \<lparr>host = ''dave'', port = 4\<rparr> r2) = [(\<lparr>host = ''carol'', port = 3\<rparr>, d)] \<and>
     completes toy_env e1 default_endpoint d f2"
proof -
  obtain ok f w0' where an: "announce_to toy_env default_endpoint toy_dave toy_world = (ok, f, w0')" by (metis prod_cases3)
  have ok using an toy_socket_works
    by (auto simp: announce_to_def engine_send_to_def socket_works_def Let_def split: prod.splits) (metis fst_conv)
  with an have an: "announce_to toy_env default_endpoint toy_dave toy_world = (True, f, w0')" by simp
  obtain sk where f: "f = toy_dave\<lparr>eng_socket := sk\<rparr>"
    using engine_send_to_eff [OF an [unfolded announce_to_def Let_def]] by auto
  have fs: "eng_public f = pad 32 [4]" "trust_of f p = None" "eng_incoming f = {}" "seen_of f p = None" "next_counter f p = 0"
    "\<not> has_direct_path f p" "eng_relay f = Some default_endpoint" "eng_secret f = pad 64 [4]" for p
    by (simp_all add: f toy_dave_def new_engine_def trust_of_def store_trust_of_def default_store_def seen_of_def next_counter_def has_direct_path_def)
  have en: "ends toy_env toy_carol f"
    using toy_strangers(1) by (simp add: ends_def f sessions_ok_def session_ok_def)
  have sf: "\<exists>s. session_for toy_env toy_carol (pad 32 [4]) s"
    by (rule session_for_exists) (simp add: toy_carol_def new_engine_def)
  obtain e1 w1 where req: "send_contact_request toy_env (eng_public f) default_endpoint [104, 105] toy_carol toy_world = (True, e1, w1)"
    using send_contact_request_works [OF toy_socket_works _ ] sf toy_strangers(4) unfolding fs(1) by fastforce
  have len: "length [104 :: byte, 105] + 40 < 65536" and out: "sent toy_world = []" by (simp_all add: toy_world_def)
  have pre: "trust_of f (eng_public toy_carol) = None" "to_hex (eng_public toy_carol) \<notin> eng_incoming f"
    "fresh_counter (seen_of f (eng_public toy_carol)) (next_counter toy_carol (eng_public f))"
    "fresh_counter (seen_of toy_carol (eng_public f)) (next_counter f (eng_public toy_carol))"
    "next_counter toy_carol (eng_public f) \<noteq> - 1" "next_counter f (eng_public toy_carol) \<noteq> - 1"
    "eng_public toy_carol \<noteq> eng_public f" "\<not> has_direct_path f (eng_public toy_carol)"
    by (simp_all add: toy_strangers fs) (simp add: pad_def)
  from relayed_contact [OF crypto_laws_toy en len pre an req] obtain h b where hb: "sent w0' = [(default_endpoint, h)]" "sent w1 = [(default_endpoint, b)]"
    and rest: "\<And>r sw0 t0 af sw1 t1 ae v. sw1 - route_ttl_seconds (rl_config r) \<le> t0 \<Longrightarrow>
       \<exists>r2 f1 v1. relayed sw1 t1 b ae (snd (relayed sw0 t0 h af r)) = ([(af, b)], r2) \<and>
         dispatch toy_env \<lparr>dg_from = default_endpoint, dg_data = b\<rparr> f v = (True, f1, v1) \<and> shown f (eng_public toy_carol) [104, 105] f1 \<and>
         (\<forall>x f2 x2. accept_contact toy_env (eng_public toy_carol) f1 x = (True, f2, x2) \<longrightarrow>
            (\<exists>d. sent x2 = sent x @ [(default_endpoint, d)] \<and>
               (\<forall>sw2 t2 af'. sw2 - route_ttl_seconds (rl_config r) \<le> t1 \<longrightarrow> fst (relayed sw2 t2 d af' r2) = [(ae, d)]) \<and>
               completes toy_env e1 default_endpoint d f2))" unfolding out append_Nil by blast
  let ?r = "new_relay_server default_relay_config"
  have ttl: "route_ttl_seconds (rl_config ?r) = 60" by (simp add: new_relay_server_def default_relay_config_def)
  have "30 - route_ttl_seconds (rl_config ?r) \<le> 0" by (simp add: ttl)
  from rest [OF this, of 40 "\<lparr>host = ''carol'', port = 3\<rparr>" 0 "\<lparr>host = ''dave'', port = 4\<rparr>" toy_world] obtain r2 f1 v1 where
    r: "relayed 30 40 b \<lparr>host = ''carol'', port = 3\<rparr> (snd (relayed 0 0 h \<lparr>host = ''dave'', port = 4\<rparr> ?r)) = ([(\<lparr>host = ''dave'', port = 4\<rparr>, b)], r2)"
    "dispatch toy_env \<lparr>dg_from = default_endpoint, dg_data = b\<rparr> f toy_world = (True, f1, v1)"
    and ans: "\<forall>x f2 x2. accept_contact toy_env (eng_public toy_carol) f1 x = (True, f2, x2) \<longrightarrow>
            (\<exists>d. sent x2 = sent x @ [(default_endpoint, d)] \<and>
               (\<forall>sw2 t2 af'. sw2 - route_ttl_seconds (rl_config ?r) \<le> 40 \<longrightarrow> fst (relayed sw2 t2 d af' r2) = [(\<lparr>host = ''carol'', port = 3\<rparr>, d)]) \<and>
               completes toy_env e1 default_endpoint d f2)" by blast
  obtain s a q where q: "session_for toy_env toy_carol (eng_public f) s" "sealed_for toy_env s ContactRequest [104, 105] q"
      "sent w1 = sent toy_world @ [(a, serialize q)]" by (rule request_sent [OF req])
  have "b = serialize q" using hb(2) q(3) out by simp
  with request_arrives [OF crypto_laws_toy en q(1,2) len pre(1-3), of default_endpoint toy_world] r(2)
  have f1: "to_hex (pad 32 [3]) \<in> eng_incoming f1" "eng_relay f1 = eng_relay f" "session_step toy_env f f1"
    by (auto simp: toy_strangers)
  then have "eng_secret f1 = pad 64 [4]" by (simp add: session_step_def fs)
  then obtain t where "session_for toy_env f1 (pad 32 [3]) t" using session_for_exists [of toy_env f1 "pad 32 [3]"] by auto
  then have "\<exists>f2 v2. accept_contact toy_env (pad 32 [3]) f1 toy_world = (True, f2, v2)"
    unfolding accept_contact_def by (rule decide_contact_works [OF toy_socket_works f1(1)]) (simp add: f1(2) fs)
  then obtain f2 x2 where ac: "accept_contact toy_env (pad 32 [3]) f1 toy_world = (True, f2, x2)" by blast
  from ans [unfolded toy_strangers(2), rule_format, OF ac] obtain d where d: "sent x2 = [(default_endpoint, d)]"
    "fst (relayed 50 60 d \<lparr>host = ''dave'', port = 4\<rparr> r2) = [(\<lparr>host = ''carol'', port = 3\<rparr>, d)]" "completes toy_env e1 default_endpoint d f2"
    unfolding out append_Nil ttl by auto
  show ?thesis using an hb(1) req r ac d unfolding fs(1) by blast
qed

end
