(* ===== verification/Tui.thy ===== *)
theory Tui
  imports Client "HOL-Library.Multiset" "HOL-Library.Signed_Division"
begin

text \<open>
  The full-screen user interface (\<^verbatim>\<open>cli/src/tui.cpp\<close>).  A network thread owns the engine and
  executes command lines from a queue; the UI thread builds a snapshot of the contacts and the
  selected conversation, draws it, and turns keys into command lines.  Each critical section
  is one function, drawing is a list of ncurses calls, and the two threads are
  a step relation.
\<close>

section \<open>State\<close>

record Item =
  it_is_request :: bool
  it_pk :: bytes
  it_name :: string
  it_subtitle :: string
  it_sort_key :: int

record Line =
  ln_time :: string
  ln_who :: string
  ln_text :: string
  ln_outgoing :: bool

datatype ColorPair = CP_HEADER | CP_SELECTED | CP_YOU | CP_ACCENT | CP_DIM

record Tui =
  tui_self :: Identity
  tui_relay :: "Endpoint option"
  tui_name :: string
  tui_store_path :: string
  tui_store_pass :: string
  tui_engine :: Engine
  tui_sig :: "SignalingClient option"
  tui_queue :: "string list"
  tui_running :: bool
  tui_items :: "Item list"
  tui_n_chats :: int
  tui_selected :: int
  tui_scroll :: int
  tui_input :: string
  tui_conv :: "Line list"
  tui_status :: string
  tui_flash :: string
  tui_flash_view :: string

definition new_tui ::
  "env \<Rightarrow> Identity \<Rightarrow> Endpoint option \<Rightarrow> Endpoint option \<Rightarrow> string \<Rightarrow> string \<Rightarrow> string \<Rightarrow> Tui" where
  "new_tui E self server relay name store_path store_pass =
     (let e = new_engine (public_key self) (secret_key self) in
      \<lparr>tui_self = self, tui_relay = relay, tui_name = name, tui_store_path = store_path,
       tui_store_pass = store_pass, tui_engine = e,
       tui_sig = map_option (\<lambda>srv. new_signaling_client (eng_socket e) srv (public_key self)
         (Some (\<lambda>c. sign_detached E c (secret_key self)))) server,
       tui_queue = [], tui_running = True, tui_items = [], tui_n_chats = 0, tui_selected = 0,
       tui_scroll = 0, tui_input = [], tui_conv = [], tui_status = [], tui_flash = [], tui_flash_view = []\<rparr>)"

section \<open>Helpers\<close>

definition nib :: "char \<Rightarrow> int" where
  "nib c = (let n = int (of_char c) in
     if 48 \<le> n \<and> n \<le> 57 then n - 48
     else if 97 \<le> n \<and> n \<le> 102 then n - 97 + 10
     else if 65 \<le> n \<and> n \<le> 70 then n - 65 + 10
     else -1)"

fun tui_from_hex_loop :: "string \<Rightarrow> bytes \<Rightarrow> bytes option" where
  "tui_from_hex_loop (h # l # rest) out =
     (let hi = nib h; lo = nib l in
      if hi < 0 \<or> lo < 0 then None
      else tui_from_hex_loop rest (out @ [word_of_int (push_bit 4 hi OR lo)]))"
| "tui_from_hex_loop _ out = Some out"

definition tui_from_hex :: "string \<Rightarrow> bytes option" where
  "tui_from_hex hex = (if length hex mod 2 \<noteq> 0 then None else tui_from_hex_loop hex [])"

definition fmt_time :: "env \<Rightarrow> host \<Rightarrow> int \<Rightarrow> world \<Rightarrow> string \<times> world" where
  "fmt_time E H ts w =
     (if ts = 0 then ([], w)
      else let tm = localtime_r H ts; nowtm = localtime_r H (os_time E (calls w)) in
        (strftime H (if tm_yday tm = tm_yday nowtm \<and> tm_year tm = tm_year nowtm then ''%H:%M'' else ''%b %d'') tm,
         next_call w))"

definition tui_name_of :: "Contact \<Rightarrow> string" where
  "tui_name_of c = (if c_nickname c \<noteq> [] then c_nickname c else take 8 (to_hex (c_key c)))"

section \<open>The network thread\<close>

definition tui_submit :: "string \<Rightarrow> Tui \<Rightarrow> Tui" where
  "tui_submit cmd t = t\<lparr>tui_queue := tui_queue t @ [cmd]\<rparr>"

definition do_add :: "env \<Rightarrow> string \<Rightarrow> string \<Rightarrow> Tui \<Rightarrow> world \<Rightarrow> (Tui \<times> world) option" where
  "do_add E nm pkhex t w =
     (case tui_from_hex pkhex of
        None \<Rightarrow> Some (t\<lparr>tui_flash := ''usage: /add <name> <64-hex pubkey>''\<rparr>, w)
      | Some pk \<Rightarrow>
          if nm = [] \<or> length pk \<noteq> 32 then Some (t\<lparr>tui_flash := ''usage: /add <name> <64-hex pubkey>''\<rparr>, w)
          else case set_nickname E pk nm (tui_engine t) w of (e, w) \<Rightarrow>
            (case tui_sig t of
               Some c \<Rightarrow>
                 (case add_by_signaling E pk (bytes_of_string (tui_name t)) c e w of
                    None \<Rightarrow> None
                  | Some (r, _, c, e, w) \<Rightarrow>
                      Some (t\<lparr>tui_engine := e, tui_sig := Some c,
                        tui_flash := (case r of Offline \<Rightarrow> nm @ '' is offline'' | NoResponse \<Rightarrow> ''no signaling response''
                          | RequestSent \<Rightarrow> ''request sent to '' @ nm | RequestFailed \<Rightarrow> ''could not send request'')\<rparr>, w))
             | None \<Rightarrow>
                 (case tui_relay t of
                    Some relay \<Rightarrow>
                      (case send_contact_request E pk relay (bytes_of_string (tui_name t)) e w of (ok, e, w) \<Rightarrow>
                         Some (t\<lparr>tui_engine := e, tui_flash := (if ok then ''request sent to '' @ nm @ '' via relay''
                           else ''could not send request'')\<rparr>, w))
                  | None \<Rightarrow> Some (t\<lparr>tui_engine := e\<rparr>, w))))"

definition do_decide :: "env \<Rightarrow> bytes \<Rightarrow> bool \<Rightarrow> Tui \<Rightarrow> world \<Rightarrow> Tui \<times> world" where
  "do_decide E pk accept t w =
     (case (if accept then accept_contact E pk (tui_engine t) w else reject_contact E pk (tui_engine t) w) of
        (ok, e, w) \<Rightarrow> (t\<lparr>tui_engine := e,
           tui_flash := (if ok then (if accept then ''accepted'' else ''rejected'') else ''no pending request'')\<rparr>, w))"

definition do_send :: "env \<Rightarrow> bytes \<Rightarrow> string \<Rightarrow> Tui \<Rightarrow> world \<Rightarrow> Tui \<times> world" where
  "do_send E pk text t w =
     (case send E pk (bytes_of_string text) (tui_engine t) w of (ok, e, w) \<Rightarrow>
        (let t = t\<lparr>tui_engine := e\<rparr> in if ok then t else t\<lparr>tui_flash := ''not delivered (offline?)''\<rparr>, w))"

definition tui_exec :: "env \<Rightarrow> string \<Rightarrow> Tui \<Rightarrow> world \<Rightarrow> (Tui \<times> world) option" where
  "tui_exec E line t w =
     (case read_word line of (cmd, rest) \<Rightarrow>
        if cmd = ''/quit'' then Some (t\<lparr>tui_running := False\<rparr>, w)
        else if cmd = ''/id'' then Some (t\<lparr>tui_flash := ''your key: '' @ to_hex (public_key (tui_self t))\<rparr>, w)
        else if cmd = ''/add'' then
          (case read_word rest of (nm, rest) \<Rightarrow> do_add E nm (fst (read_word rest)) t w)
        else if cmd = ''/accept'' \<or> cmd = ''/reject'' then
          (case tui_from_hex (fst (read_word rest)) of
             None \<Rightarrow> Some (t, w) | Some pk \<Rightarrow> Some (do_decide E pk (cmd = ''/accept'') t w))
        else if cmd = ''/send'' then
          (case read_word rest of (pkhex, rest) \<Rightarrow>
             let text = strip_blank (get_line rest) in
             case tui_from_hex pkhex of None \<Rightarrow> Some (t, w) | Some pk \<Rightarrow> Some (do_send E pk text t w))
        else Some (t, w))"

fun tui_exec_all :: "env \<Rightarrow> string list \<Rightarrow> Tui \<Rightarrow> world \<Rightarrow> (Tui \<times> world) option" where
  "tui_exec_all E [] t w = Some (t, w)"
| "tui_exec_all E (c # cmds) t w =
     (case tui_exec E c t w of None \<Rightarrow> None | Some (t, w) \<Rightarrow> tui_exec_all E cmds t w)"

text \<open>\<^verbatim>\<open>while (engine_.poll(0)) {}\<close>: runs for as long as datagrams keep being processed.\<close>

partial_function (option) poll_all :: "env \<Rightarrow> Engine \<Rightarrow> world \<Rightarrow> (Engine \<times> world) option" where
  "poll_all E e w = (case poll E 0 e w of (ok, e, w) \<Rightarrow> if ok then poll_all E e w else Some (e, w))"

declare poll_all.simps [simp del]

text \<open>
  The periodic part of a round, which both front ends have: a heartbeat to the signaling
  server every 30 seconds, an announcement to the relay every 20.
\<close>

record timers =
  last_heartbeat :: int
  last_announce :: int

definition seconds :: "int \<Rightarrow> int" where "seconds n = n * 1000000000"

definition keep_alive ::
  "env \<Rightarrow> SignalingClient option \<Rightarrow> Endpoint option \<Rightarrow> Engine \<Rightarrow> timers \<Rightarrow> world \<Rightarrow>
     (SignalingClient option \<times> Engine \<times> timers \<times> world) option" where
  "keep_alive E sig relay e tms w =
     (let now = steady_clock_now E (calls w); w = next_call w in
      case (case sig of
              Some c \<Rightarrow>
                (if now - last_heartbeat tms > seconds 30
                 then case over_engine (heartbeat E kDefaultTimeoutMs) c e w of
                     None \<Rightarrow> None
                   | Some (_, c, e, w) \<Rightarrow> Some (Some c, e, tms\<lparr>last_heartbeat := now\<rparr>, w)
                 else Some (sig, e, tms, w))
            | None \<Rightarrow> Some (sig, e, tms, w)) of
        None \<Rightarrow> None
      | Some (sig, e, tms, w) \<Rightarrow>
          (case relay of
             Some r \<Rightarrow>
               (if now - last_announce tms > seconds 20
                then case announce_to E r e w of (_, e, w) \<Rightarrow> Some (sig, e, tms\<lparr>last_announce := now\<rparr>, w)
                else Some (sig, e, tms, w))
           | None \<Rightarrow> Some (sig, e, tms, w)))"

text \<open>
  A round of the network thread has two critical sections: taking the queued commands (under \<^verbatim>\<open>qmtx_\<close>)
  and the work (under \<^verbatim>\<open>mtx_\<close>).
\<close>

definition tui_take :: "Tui \<Rightarrow> string list \<times> Tui" where
  "tui_take t = (tui_queue t, t\<lparr>tui_queue := []\<rparr>)"

definition tui_net_work :: "env \<Rightarrow> host \<Rightarrow> string list \<Rightarrow> Tui \<Rightarrow> timers \<Rightarrow> world \<Rightarrow> (Tui \<times> timers \<times> world) option" where
  "tui_net_work E H cmds t tms w =
     (case tui_exec_all E cmds t w of
        None \<Rightarrow> None
      | Some (t, w) \<Rightarrow>
          (case poll_all E (tui_engine t) w of
             None \<Rightarrow> None
           | Some (e, w) \<Rightarrow>
               (case tick E (probe_order H (calls w)) e w of (e, w) \<Rightarrow>
                case keep_alive E (tui_sig t) (tui_relay t) e tms w of
                  None \<Rightarrow> None
                | Some (sig, e, tms, w) \<Rightarrow> Some (t\<lparr>tui_engine := e, tui_sig := sig\<rparr>, tms, w))))"

section \<open>The snapshot\<close>

text \<open>
  \<^verbatim>\<open>std::sort\<close> leaves the order of equal elements open, so the sorting function is an argument:
  any function that returns a permutation in which no chat is older than a later one.
\<close>

definition newest_first :: "(Item list \<Rightarrow> Item list) \<Rightarrow> bool" where
  "newest_first srt \<longleftrightarrow> (\<forall>xs. mset (srt xs) = mset xs \<and> sorted_wrt (\<lambda>a b. \<not> it_sort_key b > it_sort_key a) (srt xs))"

definition chat_item :: "Engine \<Rightarrow> Contact \<Rightarrow> Item" where
  "chat_item e c =
     (let conv = store_conversation (eng_contacts e) (c_key c) in
      \<lparr>it_is_request = False, it_pk = c_key c, it_name = tui_name_of c,
       it_subtitle = (if conv = [] then [] else (if m_outgoing (last conv) then ''you: '' else []) @ m_text (last conv)),
       it_sort_key = (if conv = [] then 0 else m_timestamp (last conv))\<rparr>)"

definition request_item :: "Engine \<Rightarrow> Request \<Rightarrow> Item" where
  "request_item e q =
     \<lparr>it_is_request = True, it_pk = q_peer q,
      it_name = fold (\<lambda>cc name. if c_key cc = q_peer q \<and> c_nickname cc \<noteq> [] then c_nickname cc else name)
        (st_contacts (eng_contacts e)) (take 8 (to_hex (q_peer q))),
      it_subtitle = q_greeting q, it_sort_key = 0\<rparr>"

fun conversation_lines :: "env \<Rightarrow> host \<Rightarrow> string \<Rightarrow> StoredMessage list \<Rightarrow> world \<Rightarrow> Line list \<times> world" where
  "conversation_lines E H name [] w = ([], w)"
| "conversation_lines E H name (m # ms) w =
     (case fmt_time E H (m_timestamp m) w of (time, w) \<Rightarrow>
      case conversation_lines E H name ms w of (ls, w) \<Rightarrow>
        (\<lparr>ln_time = time, ln_who = (if m_outgoing m then ''you'' else name), ln_text = m_text m,
          ln_outgoing = m_outgoing m\<rparr> # ls, w))"

definition request_lines :: "Item \<Rightarrow> Line list" where
  "request_lines sel =
     [\<lparr>ln_time = [], ln_who = it_name sel,
       ln_text = (if it_subtitle sel = [] then ''(no greeting)'' else it_subtitle sel), ln_outgoing = False\<rparr>,
      \<lparr>ln_time = [], ln_who = [], ln_text = [], ln_outgoing = False\<rparr>,
      \<lparr>ln_time = [], ln_who = [], ln_text = ''Type /accept or /reject (or press a / r).'', ln_outgoing = False\<rparr>]"

definition clamp_selection :: "int \<Rightarrow> int \<Rightarrow> int" where
  "clamp_selection selected n =
     (let selected = (if selected \<ge> n then n - 1 else selected) in if selected < 0 then 0 else selected)"

definition selected_item :: "Tui \<Rightarrow> Item option" where
  "selected_item t = (if tui_selected t \<ge> 0 \<and> tui_selected t < int (length (tui_items t))
     then Some (tui_items t ! nat (tui_selected t)) else None)"

definition path_label :: "Engine \<Rightarrow> Endpoint option \<Rightarrow> bytes \<Rightarrow> string" where
  "path_label e relay pk =
     (if has_direct_path e pk then ''  '' @ [CHR 0xE2, CHR 0x97, CHR 0x8F] @ '' direct''
      else case relay of Some _ \<Rightarrow> ''  '' @ [CHR 0xE2, CHR 0x97, CHR 0x8B] @ '' via relay'' | None \<Rightarrow> [])"

definition build_snapshot :: "env \<Rightarrow> host \<Rightarrow> (Item list \<Rightarrow> Item list) \<Rightarrow> Tui \<Rightarrow> world \<Rightarrow> Tui \<times> world" where
  "build_snapshot E H srt t w =
     (let e = tui_engine t; st = eng_contacts e;
          chats = srt (map (chat_item e) (filter (\<lambda>c. c_trust c = Accepted) (st_contacts st)));
          items = chats @ map (request_item e) (st_requests st);
          t = t\<lparr>tui_items := items, tui_n_chats := int (length chats),
                tui_selected := clamp_selection (tui_selected t) (int (length items)),
                tui_flash_view := tui_flash t, tui_conv := [], tui_status := []\<rparr> in
      case selected_item t of
        None \<Rightarrow> (t, w)
      | Some sel \<Rightarrow>
          if it_is_request sel
          then (t\<lparr>tui_status := ''request from '' @ it_name sel, tui_conv := request_lines sel\<rparr>, w)
          else case conversation_lines E H (it_name sel) (store_conversation st (it_pk sel)) w of (ls, w) \<Rightarrow>
            (t\<lparr>tui_status := it_name sel @ path_label e (tui_relay t) (it_pk sel), tui_conv := ls\<rparr>, w))"

section \<open>Drawing\<close>

text \<open>The ncurses calls, with texts as the C strings they are passed as.\<close>

datatype Attr = Color ColorPair | A_BOLD | A_DIM

datatype DrawOp =
    Erase
  | Attron "Attr list"
  | Attroff "Attr list"
  | MvHline int int char int
  | MvAddStr int int string
  | MvAddVline int int
  | Move int int
  | Refresh

definition c_str :: "string \<Rightarrow> string" where
  "c_str s = takeWhile (\<lambda>c. c \<noteq> CHR 0x00) s"

definition clip :: "string \<Rightarrow> int \<Rightarrow> string" where
  "clip s w =
     (if w \<le> 0 then []
      else if int (length s) \<le> w then s
      else if w \<le> 1 then take (nat w) s
      else take (nat (w - 1)) s @ ellipsis)"

definition draw_item :: "Tui \<Rightarrow> int \<Rightarrow> int \<Rightarrow> int \<Rightarrow> DrawOp list" where
  "draw_item t y sw i =
     (let it = tui_items t ! nat i; sel = (i = tui_selected t); n = int (length (it_name it)) in
      (if sel then [Attron [Color CP_SELECTED], MvHline y 0 CHR '' '' sw] else []) @
      [MvAddStr y 0 (c_str (clip (CHR '' '' # it_name it) sw))] @
      (if it_subtitle it \<noteq> [] then
         [Attron [A_DIM],
          MvAddStr y (min (sw - 1) (1 + n + 2)) (c_str (clip (it_subtitle it) (sw - (n + 3)))),
          Attroff [A_DIM]] else []) @
      (if sel then [Attroff [Color CP_SELECTED]] else []))"

text \<open>\<open>for (; i < to && y <= bottom; ++i) draw_item(y++, sw, i)\<close>, with the row it ends at.\<close>

fun draw_items :: "Tui \<Rightarrow> int \<Rightarrow> int \<Rightarrow> int list \<Rightarrow> int \<Rightarrow> DrawOp list \<times> int" where
  "draw_items t sw bottom [] y = ([], y)"
| "draw_items t sw bottom (i # rest) y =
     (if y \<le> bottom then case draw_items t sw bottom rest (y + 1) of (ops, y') \<Rightarrow> (draw_item t y sw i @ ops, y')
      else ([], y))"

text \<open>
  The wrapping loop cuts \<open>full\<close> into chunks of \<open>w - 1\<close> bytes, here \<open>Suc k\<close>: the caller returns
  early unless \<open>w \<ge> 4\<close>.
\<close>

function wrap_loop :: "nat \<Rightarrow> string \<Rightarrow> nat \<Rightarrow> string list" where
  "wrap_loop k full p =
     (if p < length full \<or> p = 0 then
        let chunk = take (Suc k) (drop p full) in
        if length chunk < Suc k \<or> p + length chunk \<ge> length full then [chunk]
        else chunk # wrap_loop k full (p + length chunk)
      else [])"
  by pat_completeness auto
termination by (relation "measure (\<lambda>(k, full, p). length full - p)") auto

declare wrap_loop.simps [simp del]

definition wrap_line :: "int \<Rightarrow> Line \<Rightarrow> (string \<times> ColorPair) list" where
  "wrap_line w l =
     (let head = (if ln_time l = [] then [] else ln_time l @ ''  '');
          prefix = head @ (if ln_who l = [] then [] else ln_who l @ '': '');
          full = prefix @ ln_text l;
          cp = (if ln_outgoing l then CP_YOU else CP_DIM)
      in map (\<lambda>chunk. (chunk, cp)) (wrap_loop (nat (w - 2)) full 0) @ (if full = [] then [([], cp)] else []))"

text \<open>The visible part of the wrapped lines, from index \<open>start\<close> on.\<close>

fun draw_wrapped :: "int \<Rightarrow> int \<Rightarrow> (string \<times> ColorPair) list \<Rightarrow> int \<Rightarrow> DrawOp list" where
  "draw_wrapped bottom x [] y = []"
| "draw_wrapped bottom x ((s, cp) # rest) y =
     (if y \<le> bottom then [Attron [Color cp], MvAddStr y x (c_str s), Attroff [Color cp]] @ draw_wrapped bottom x rest (y + 1)
      else [])"

definition draw_conversation :: "Tui \<Rightarrow> int \<Rightarrow> int \<Rightarrow> int \<Rightarrow> int \<Rightarrow> DrawOp list" where
  "draw_conversation t ytop bottom x w =
     (if w < 4 then []
      else let wrapped = concat (map (wrap_line w) (tui_conv t));
               avail = bottom - ytop + 1;
               start = max 0 (int (length wrapped) - avail - tui_scroll t)
           in draw_wrapped bottom x (drop (nat start) wrapped) ytop)"

definition sidebar_width :: "int \<Rightarrow> int" where
  "sidebar_width cols = (let sw = min 30 (cols sdiv 3) in if sw < 18 then min 18 cols else sw)"

definition draw_status_bar :: "env \<Rightarrow> Tui \<Rightarrow> int \<Rightarrow> DrawOp list" where
  "draw_status_bar E t cols =
     (let fp = take 10 (fingerprint E (tui_self t)); right = tui_status t in
      [Attron [Color CP_SELECTED], MvHline 0 0 CHR '' '' cols,
       MvAddStr 0 1 (c_str (clip (''OpenMesh  '' @ tui_name t @ ''  '' @ fp @ ellipsis) (cols - 2))),
       MvAddStr 0 (max 1 (cols - 1 - int (length right))) (c_str (clip right (cols sdiv 2))),
       Attroff [Color CP_SELECTED]])"

definition draw_sidebar :: "Tui \<Rightarrow> int \<Rightarrow> int \<Rightarrow> int \<Rightarrow> DrawOp list" where
  "draw_sidebar t ytop bottom sw =
     (let size = int (length (tui_items t)); n = tui_n_chats t; nreq = size - n; y = ytop;
          chats_head = [Attron [Color CP_HEADER, A_BOLD], MvAddStr y 0 (c_str (clip '' CHATS'' sw)), Attroff [Color CP_HEADER, A_BOLD]];
          y = y + 1;
          no_chats = (if n = 0 \<and> y \<le> bottom
            then [Attron [A_DIM], MvAddStr y 0 (c_str (clip (''  none yet '' @ em_dash @ '' /add'') sw)), Attroff [A_DIM]] else []);
          y = (if n = 0 \<and> y \<le> bottom then y + 1 else y) in
      case draw_items t sw bottom [0..n - 1] y of (chats, y) \<Rightarrow>
      let y = (if y \<le> bottom then y + 1 else y);
          requests_head = [Attron [Color CP_ACCENT, A_BOLD]] @
            (if y \<le> bottom then [MvAddStr y 0 (c_str (clip ('' REQUESTS ('' @ dec_string (nat nreq) @ '')'') sw))] else []) @
            [Attroff [Color CP_ACCENT, A_BOLD]];
          y = (if y \<le> bottom then y + 1 else y);
          no_requests = (if nreq = 0 \<and> y \<le> bottom
            then [Attron [A_DIM], MvAddStr y 0 (c_str (clip ''  none'' sw)), Attroff [A_DIM]] else []);
          y = (if nreq = 0 \<and> y \<le> bottom then y + 1 else y)
      in chats_head @ no_chats @ chats @ requests_head @ no_requests @ fst (draw_items t sw bottom [n..size - 1] y))"

definition help_line :: string where
  "help_line = '' '' @ [CHR 0xE2, CHR 0x86, CHR 0x91] @ ''/'' @ [CHR 0xE2, CHR 0x86, CHR 0x93] @
     '' select  Enter send  a/r accept/reject  /add /id /quit''"

definition draw_footer :: "Tui \<Rightarrow> int \<Rightarrow> int \<Rightarrow> DrawOp list" where
  "draw_footer t rows cols =
     (if tui_flash_view t \<noteq> [] then
        [Attron [Color CP_ACCENT, A_BOLD], MvHline (rows - 3) 0 CHR '' '' cols,
         MvAddStr (rows - 3) 0 (c_str (clip ('' '' @ tui_flash_view t) cols)), Attroff [Color CP_ACCENT, A_BOLD]] else []) @
     [Attron [Color CP_YOU], MvAddStr (rows - 2) 0 (c_str (clip (''> '' @ tui_input t) cols)), Attroff [Color CP_YOU],
      Attron [Color CP_DIM, A_DIM], MvHline (rows - 1) 0 CHR '' '' cols,
      MvAddStr (rows - 1) 0 (c_str (clip help_line cols)), Attroff [Color CP_DIM, A_DIM],
      Move (rows - 2) (min (cols - 1) (2 + int (length (tui_input t)))), Refresh]"

definition render :: "env \<Rightarrow> Tui \<Rightarrow> int \<Rightarrow> int \<Rightarrow> DrawOp list" where
  "render E t rows cols =
     (let sw = sidebar_width cols; ytop = 1; bottom = rows - 4 in
      [Erase] @ draw_status_bar E t cols @ map (\<lambda>r. MvAddVline r sw) [ytop..bottom] @
      draw_sidebar t ytop bottom sw @ draw_conversation t ytop bottom (sw + 2) (cols - (sw + 2)) @
      draw_footer t rows cols)"

section \<open>The UI thread\<close>

definition handle_enter :: "Tui \<Rightarrow> Tui" where
  "handle_enter t =
     (let line = tui_input t; t = t\<lparr>tui_input := []\<rparr> in
      if line = [] then t
      else if line ! 0 \<noteq> CHR ''/'' then
        (case selected_item t of
           Some it \<Rightarrow>
             if \<not> it_is_request it then tui_submit (''/send '' @ to_hex (it_pk it) @ '' '' @ line) t
             else t\<lparr>tui_flash := ''select a chat to message''\<rparr>
         | None \<Rightarrow> t\<lparr>tui_flash := ''select a chat to message''\<rparr>)
      else let cmd = fst (read_word line) in
        if cmd = ''/accept'' \<or> cmd = ''/reject'' then
          (case selected_item t of
             Some it \<Rightarrow>
               if it_is_request it then tui_submit (cmd @ '' '' @ to_hex (it_pk it)) t
               else t\<lparr>tui_flash := ''select a request first''\<rparr>
           | None \<Rightarrow> t\<lparr>tui_flash := ''select a request first''\<rparr>)
        else tui_submit line t)"

definition type_key :: "int \<Rightarrow> Tui \<Rightarrow> Tui" where
  "type_key ch t = (if ch \<ge> 32 \<and> ch < 256 then t\<lparr>tui_input := tui_input t @ [char_of (nat ch)]\<rparr> else t)"

definition on_key :: "host \<Rightarrow> int \<Rightarrow> Tui \<Rightarrow> Tui" where
  "on_key H ch t =
     (if ch = KEY_UP H then
        (if tui_selected t > 0 then t\<lparr>tui_selected := tui_selected t - 1, tui_scroll := 0\<rparr> else t\<lparr>tui_scroll := 0\<rparr>)
      else if ch = KEY_DOWN H then t\<lparr>tui_selected := tui_selected t + 1, tui_scroll := 0\<rparr>
      else if ch = KEY_PPAGE H then t\<lparr>tui_scroll := tui_scroll t + 3\<rparr>
      else if ch = KEY_NPAGE H then t\<lparr>tui_scroll := max 0 (tui_scroll t - 3)\<rparr>
      else if ch = KEY_RESIZE H then t
      else if ch = KEY_BACKSPACE H \<or> ch = 127 \<or> ch = 8 then
        (if tui_input t \<noteq> [] then t\<lparr>tui_input := butlast (tui_input t)\<rparr> else t)
      else if ch = 10 \<or> ch = KEY_ENTER H then handle_enter t
      else if tui_input t = [] \<and> (ch = 97 \<or> ch = 114) then
        (case selected_item t of
           Some it \<Rightarrow>
             if it_is_request it
             then tui_submit ((if ch = 97 then ''/accept '' else ''/reject '') @ to_hex (it_pk it)) t
             else type_key ch t
         | None \<Rightarrow> type_key ch t)
      else type_key ch t)"

text \<open>
  The set-up of the terminal, as the ncurses calls in their order; whether the terminal has
  colours is an argument, and \<open>None\<close> is the default background.
\<close>

datatype Colour = COLOR_BLACK | COLOR_GREEN | COLOR_YELLOW | COLOR_CYAN | COLOR_WHITE

datatype SetupOp =
    Setlocale string | Initscr | Cbreak | Noecho | Keypad bool | Timeout int | CursSet int
  | StartColor | UseDefaultColors | InitPair ColorPair Colour "Colour option"

definition init_ui :: "bool \<Rightarrow> SetupOp list" where
  "init_ui has_colors =
     [Setlocale [], Initscr, Cbreak, Noecho, Keypad True, Timeout 120, CursSet 1] @
     (if has_colors then
        [StartColor, UseDefaultColors, InitPair CP_HEADER COLOR_CYAN None,
         InitPair CP_SELECTED COLOR_BLACK (Some COLOR_CYAN), InitPair CP_YOU COLOR_GREEN None,
         InitPair CP_ACCENT COLOR_YELLOW None, InitPair CP_DIM COLOR_WHITE None]
      else [])"

section \<open>The program\<close>

text \<open>The bring-up before the threads: \<open>False\<close> if the socket cannot be bound.\<close>

definition tui_start :: "env \<Rightarrow> Tui \<Rightarrow> world \<Rightarrow> (bool \<times> Tui \<times> world) option" where
  "tui_start E t w =
     (case engine_bind E \<lparr>host = ''0.0.0.0'', port = 0\<rparr> (tui_engine t) w of
        (False, e, w) \<Rightarrow> Some (False, t\<lparr>tui_engine := e\<rparr>, w)
      | (True, e, w) \<Rightarrow>
          (case (if tui_store_path t \<noteq> [] \<and> tui_store_pass t \<noteq> []
                 then case open_store E (tui_store_path t) (tui_store_pass t) e w of (ok, e, w) \<Rightarrow>
                   (if ok then ''loaded saved chats'' else tui_flash t, e, w)
                 else (tui_flash t, e, w)) of (flash, e, w) \<Rightarrow>
           case (case tui_sig t of
                   Some c \<Rightarrow>
                     (case over_engine (register_self E kDefaultTimeoutMs kDefaultAttempts) c e w of
                        None \<Rightarrow> None
                      | Some (ok, c, e, w) \<Rightarrow>
                          Some (if ok then ''registered '' @ em_dash @ '' online'' else ''registration failed'', Some c, e, w))
                 | None \<Rightarrow> Some (flash, None, e, w)) of
             None \<Rightarrow> None
           | Some (flash, sig, e, w) \<Rightarrow>
               (case (case tui_relay t of
                        Some r \<Rightarrow> (case announce_to E r (set_relay r e) w of (_, e, w) \<Rightarrow> (e, w))
                      | None \<Rightarrow> (e, w)) of (e, w) \<Rightarrow>
                  Some (True, t\<lparr>tui_engine := e, tui_sig := sig, tui_flash := flash\<rparr>, w))))"

text \<open>
  The two threads.  The UI thread builds a snapshot under \<^verbatim>\<open>mtx_\<close> and draws it, then waits in \<^verbatim>\<open>getch\<close> without
  holding a mutex and handles the key, which touches only its own state and the queue; what it
  shows meanwhile is the snapshot, while the engine may have moved on.  The network thread takes the commands and works on
  them, each in its critical section.  A step is one critical section, or one key; the threads'
  order is free.  (A key pressed during the network thread's work is a step before or after it: the
  work does not touch what the key reads.  The exception is the message line \<open>tui_flash\<close>, which
  \<^verbatim>\<open>handle_enter\<close> writes without the mutex.)
\<close>

datatype UiPhase = UiTop | UiShown | UiDone
datatype NetThread = NetBegin | NetTop | NetTaken "string list" | NetDone

record TuiSys =
  ts_tui :: Tui
  ts_timers :: timers
  ts_ui :: UiPhase
  ts_net :: NetThread
  ts_screen :: "DrawOp list"
  ts_world :: world

definition tui_threads :: "Tui \<Rightarrow> world \<Rightarrow> TuiSys" where
  "tui_threads t w = \<lparr>ts_tui = t, ts_timers = \<lparr>last_heartbeat = 0, last_announce = 0\<rparr>, ts_ui = UiTop, ts_net = NetBegin,
     ts_screen = [], ts_world = w\<rparr>"

text \<open>A step is labelled with the key that was pressed, if any, and the client as it was then.\<close>

inductive tui_step ::
  "env \<Rightarrow> host \<Rightarrow> (Item list \<Rightarrow> Item list) \<Rightarrow> TuiSys \<Rightarrow> (Tui \<times> int) list \<Rightarrow> TuiSys \<Rightarrow> bool" for E H srt where
  ui_show: "\<lbrakk>ts_ui s = UiTop; tui_running (ts_tui s); build_snapshot E H srt (ts_tui s) (ts_world s) = (t, w)\<rbrakk> \<Longrightarrow>
    tui_step E H srt s [] (s\<lparr>ts_tui := t, ts_world := w, ts_screen := render E t rows cols, ts_ui := UiShown\<rparr>)"
| ui_timeout: "ts_ui s = UiShown \<Longrightarrow> tui_step E H srt s [] (s\<lparr>ts_ui := UiTop\<rparr>)"
| ui_key: "ts_ui s = UiShown \<Longrightarrow>
    tui_step E H srt s [(ts_tui s, ch)] (s\<lparr>ts_tui := on_key H ch (ts_tui s), ts_ui := UiTop\<rparr>)"
| ui_end: "\<lbrakk>ts_ui s = UiTop; \<not> tui_running (ts_tui s)\<rbrakk> \<Longrightarrow>
    tui_step E H srt s [] (s\<lparr>ts_tui := (ts_tui s)\<lparr>tui_running := False\<rparr>, ts_ui := UiDone\<rparr>)"
| net_begin: "\<lbrakk>ts_net s = NetBegin; now = steady_clock_now E (calls (ts_world s))\<rbrakk> \<Longrightarrow>
    tui_step E H srt s [] (s\<lparr>ts_timers := \<lparr>last_heartbeat = now, last_announce = now\<rparr>, ts_world := next_call (ts_world s), ts_net := NetTop\<rparr>)"
| net_take: "\<lbrakk>ts_net s = NetTop; tui_running (ts_tui s); tui_take (ts_tui s) = (cmds, t)\<rbrakk> \<Longrightarrow>
    tui_step E H srt s [] (s\<lparr>ts_tui := t, ts_net := NetTaken cmds\<rparr>)"
| net_work: "\<lbrakk>ts_net s = NetTaken cmds; tui_net_work E H cmds (ts_tui s) (ts_timers s) (ts_world s) = Some (t, tms, w)\<rbrakk> \<Longrightarrow>
    tui_step E H srt s [] (s\<lparr>ts_tui := t, ts_timers := tms, ts_world := w, ts_net := NetTop\<rparr>)"
| net_end: "\<lbrakk>ts_net s = NetTop; \<not> tui_running (ts_tui s)\<rbrakk> \<Longrightarrow> tui_step E H srt s [] (s\<lparr>ts_net := NetDone\<rparr>)"

text \<open>The states the threads can reach, with the keys pressed on the way.\<close>

inductive tui_reach ::
  "env \<Rightarrow> host \<Rightarrow> (Item list \<Rightarrow> Item list) \<Rightarrow> TuiSys \<Rightarrow> (Tui \<times> int) list \<Rightarrow> TuiSys \<Rightarrow> bool" for E H srt s0 where
  start: "tui_reach E H srt s0 [] s0"
| step: "tui_reach E H srt s0 ks s \<Longrightarrow> tui_step E H srt s k s' \<Longrightarrow> tui_reach E H srt s0 (ks @ k) s'"

text \<open>\<^verbatim>\<open>run\<close> returns when the socket cannot be bound, or when both threads have ended.\<close>

inductive tui_run :: "env \<Rightarrow> host \<Rightarrow> (Item list \<Rightarrow> Item list) \<Rightarrow> Tui \<Rightarrow> world \<Rightarrow> int \<Rightarrow> Tui \<Rightarrow> world \<Rightarrow> bool" for E H srt where
  no_socket: "tui_start E t w = Some (False, t', w') \<Longrightarrow> tui_run E H srt t w 1 t' w'"
| ended: "\<lbrakk>tui_start E t w = Some (True, t', w'); tui_reach E H srt (tui_threads t' w') ks s; ts_ui s = UiDone; ts_net s = NetDone\<rbrakk> \<Longrightarrow>
    tui_run E H srt t w 0 (ts_tui s) (ts_world s)"

definition run_tui ::
  "env \<Rightarrow> host \<Rightarrow> (Item list \<Rightarrow> Item list) \<Rightarrow> Identity \<Rightarrow> Endpoint option \<Rightarrow> Endpoint option \<Rightarrow>
     string \<Rightarrow> string \<Rightarrow> string \<Rightarrow> world \<Rightarrow> int \<Rightarrow> Tui \<Rightarrow> world \<Rightarrow> bool" where
  "run_tui E H srt self server relay name store_path store_pass w =
     tui_run E H srt (new_tui E self server relay name store_path store_pass) w"

end
