(* ===== verification/Cli.thy ===== *)
theory Cli
  imports Tui
begin

text \<open>
  The line-based client and the entry point of \<^verbatim>\<open>om-chat\<close> (\<^verbatim>\<open>cli/src/main.cpp\<close>).  \<^verbatim>\<open>ChatApp\<close> runs on
  a network thread that owns the engine; the main thread reads standard input and puts
  the lines into a queue.  What is printed is a field of the state.  The engine's
  callbacks touch only the client's own tables and the output, so they are run over the
  events that a poll has logged.
\<close>

section \<open>State\<close>

record ChatApp =
  app_self :: Identity
  app_display_name :: string
  app_engine :: Engine
  app_sig :: "SignalingClient option"
  app_relay :: "Endpoint option"
  app_queue :: "string list"
  app_running :: bool
  app_name_to_pk :: "string \<rightharpoonup> bytes"
  app_pk_to_name :: "string \<rightharpoonup> string"
  app_direct_announced :: "string set"
  app_current :: bytes
  app_out :: string

definition new_chat_app :: "env \<Rightarrow> Identity \<Rightarrow> Endpoint option \<Rightarrow> Endpoint option \<Rightarrow> string \<Rightarrow> ChatApp" where
  "new_chat_app E i server relay display_name =
     (let e = new_engine (public_key i) (secret_key i) in
      \<lparr>app_self = i, app_display_name = display_name, app_engine = e,
       app_sig = map_option (\<lambda>srv. new_signaling_client (eng_socket e) srv (public_key i)
         (Some (signer_for E (secret_key i)))) server,
       app_relay = relay, app_queue = [], app_running = True, app_name_to_pk = Map.empty,
       app_pk_to_name = Map.empty, app_direct_announced = {}, app_current = [], app_out = []\<rparr>)"

definition app_submit :: "string \<Rightarrow> ChatApp \<Rightarrow> ChatApp" where
  "app_submit line a = a\<lparr>app_queue := app_queue a @ [line]\<rparr>"

definition app_stop :: "ChatApp \<Rightarrow> ChatApp" where
  "app_stop a = a\<lparr>app_running := False\<rparr>"

definition app_open_store :: "env \<Rightarrow> string \<Rightarrow> string \<Rightarrow> ChatApp \<Rightarrow> world \<Rightarrow> bool \<times> ChatApp \<times> world" where
  "app_open_store E path pass a w =
     (case open_store E path pass (app_engine a) w of (ok, e, w) \<Rightarrow> (ok, a\<lparr>app_engine := e\<rparr>, w))"

text \<open>\<^verbatim>\<open>std::cout << s\<close>; \<open>nl\<close> is the newline character.\<close>

definition nl :: string where "nl = [CHR 0x0A]"

definition print :: "string \<Rightarrow> ChatApp \<Rightarrow> ChatApp" where
  "print s a = a\<lparr>app_out := app_out a @ s\<rparr>"

section \<open>Names\<close>

definition name_of :: "ChatApp \<Rightarrow> bytes \<Rightarrow> string" where
  "name_of a pk = (case app_pk_to_name a (to_hex pk) of Some n \<Rightarrow> n | None \<Rightarrow> take 8 (to_hex pk))"

definition auto_alias :: "bytes \<Rightarrow> ChatApp \<Rightarrow> string \<times> ChatApp" where
  "auto_alias pk a =
     (let key = to_hex pk in
      case app_pk_to_name a key of
        Some n \<Rightarrow> (n, a)
      | None \<Rightarrow>
          let n = take 8 key in
          (n, a\<lparr>app_name_to_pk := (app_name_to_pk a)(n \<mapsto> pk), app_pk_to_name := (app_pk_to_name a)(key \<mapsto> n)\<rparr>))"

definition app_resolve :: "ChatApp \<Rightarrow> string \<Rightarrow> bytes option" where
  "app_resolve a token =
     (case app_name_to_pk a token of
        Some pk \<Rightarrow> Some pk
      | None \<Rightarrow> (case from_hex token of Some pk \<Rightarrow> if length pk = 32 then Some pk else None | None \<Rightarrow> None))"

section \<open>Callbacks\<close>

definition app_event :: "Event \<Rightarrow> ChatApp \<Rightarrow> ChatApp" where
  "app_event ev a =
     (case ev of
        MessageEvent m \<Rightarrow>
          print (nl @ ''['' @ name_of a (msg_peer m) @ ''] '' @ string_of_bytes (msg_plaintext m) @ nl @ ''> '') a
      | RequestEvent peer greeting \<Rightarrow>
          (case auto_alias peer a of (name, a) \<Rightarrow>
             print (nl @ ''* contact request from '' @ name @
               (if greeting \<noteq> [] then '' ('' @ [CHR 0x22] @ string_of_bytes greeting @ [CHR 0x22] @ '')'' else []) @
               '' '' @ em_dash @ '' /accept '' @ name @ '' or /reject '' @ name @ nl @ ''> '') a)
      | ResponseEvent peer accepted \<Rightarrow>
          print (nl @ ''* '' @ name_of a peer @ (if accepted then '' accepted'' else '' declined'') @
            '' your request'' @ nl @ ''> '') a)"

text \<open>A poll, with the callbacks it runs.\<close>

definition app_poll :: "env \<Rightarrow> int \<Rightarrow> ChatApp \<Rightarrow> world \<Rightarrow> ChatApp \<times> world" where
  "app_poll E timeout_ms a w =
     (case poll E timeout_ms (app_engine a) w of (_, e, w) \<Rightarrow>
        (fold app_event (drop (length (eng_events (app_engine a))) (eng_events e)) (a\<lparr>app_engine := e\<rparr>), w))"

fun report_direct_paths :: "string list \<Rightarrow> ChatApp \<Rightarrow> ChatApp" where
  "report_direct_paths [] a = a"
| "report_direct_paths (name # order) a =
     (case app_name_to_pk a name of
        None \<Rightarrow> report_direct_paths order a
      | Some pk \<Rightarrow>
          let key = to_hex pk in
          report_direct_paths order
            (if has_direct_path (app_engine a) pk \<and> key \<notin> app_direct_announced a
             then print (nl @ ''* direct connection to '' @ name @ '' established (no relay)'' @ nl @ ''> '')
                (a\<lparr>app_direct_announced := insert key (app_direct_announced a)\<rparr>)
             else a))"

section \<open>Commands\<close>

definition help_text :: string where
  "help_text = ''Commands:'' @ nl @
     ''  /id                       show your public key (share it) and fingerprint'' @ nl @
     ''  /add <name> <pubkeyhex>   discover a peer and send a contact request'' @ nl @
     ''  /accept <name>            accept an incoming contact request'' @ nl @
     ''  /reject <name>            reject an incoming contact request'' @ nl @
     ''  /msg <name> <text>        send a message to an accepted contact'' @ nl @
     ''  <text>                    send to the current peer (last one you used)'' @ nl @
     ''  /peers                    list known peers and trust status'' @ nl @
     ''  /register                 (re)register with the signaling server'' @ nl @
     ''  /help                     show this help'' @ nl @
     ''  /quit                     exit'' @ nl"

definition app_deliver :: "env \<Rightarrow> bytes \<Rightarrow> string \<Rightarrow> ChatApp \<Rightarrow> world \<Rightarrow> ChatApp \<times> world" where
  "app_deliver E pk text a w =
     (case send E pk (bytes_of_string text) (app_engine a) w of (ok, e, w) \<Rightarrow>
        let a = a\<lparr>app_engine := e\<rparr> in
        (if ok then a
         else print (''not delivered '' @ em_dash @ '' '' @ name_of a pk @ '' is not an accepted contact (or unreachable)'' @ nl) a, w))"

definition send_current :: "env \<Rightarrow> string \<Rightarrow> ChatApp \<Rightarrow> world \<Rightarrow> ChatApp \<times> world" where
  "send_current E text a w =
     (if app_current a = []
      then (print (''no current peer '' @ em_dash @ '' use /msg <name> <text> first'' @ nl) a, w)
      else app_deliver E (app_current a) text a w)"

definition cmd_msg :: "env \<Rightarrow> string \<Rightarrow> ChatApp \<Rightarrow> world \<Rightarrow> ChatApp \<times> world" where
  "cmd_msg E args a w =
     (case read_word args of (name, rest) \<Rightarrow>
        let text = strip_blank (get_line rest) in
        case app_resolve a name of
          None \<Rightarrow> (print (''unknown peer: '' @ name @ nl) a, w)
        | Some pk \<Rightarrow> app_deliver E pk text (a\<lparr>app_current := pk\<rparr>) w)"

definition cmd_decide :: "env \<Rightarrow> string \<Rightarrow> bool \<Rightarrow> ChatApp \<Rightarrow> world \<Rightarrow> ChatApp \<times> world" where
  "cmd_decide E args accept a w =
     (let name = fst (read_word args) in
      case app_resolve a name of
        None \<Rightarrow> (print (''unknown peer: '' @ name @ nl) a, w)
      | Some pk \<Rightarrow>
          (case (if accept then accept_contact E pk (app_engine a) w else reject_contact E pk (app_engine a) w) of
             (ok, e, w) \<Rightarrow>
               (let a = a\<lparr>app_engine := e\<rparr> in
                if ok then print ((if accept then ''Accepted '' else ''Rejected '') @ name @ ''.'' @ nl) (a\<lparr>app_current := pk\<rparr>)
                else print (''No pending request from '' @ name @ ''.'' @ nl) a, w)))"

definition add_usage :: string where
  "add_usage = ''usage: /add <name> <64-hex-char public key>'' @ nl"

text \<open>The request itself: through the signaling server if there is one, else through the relay.\<close>

definition cmd_add_request :: "env \<Rightarrow> bytes \<Rightarrow> string \<Rightarrow> ChatApp \<Rightarrow> world \<Rightarrow> (ChatApp \<times> world) option" where
  "cmd_add_request E pk name a w =
     (let greeting = bytes_of_string (app_display_name a) in
      case app_sig a of
        Some c \<Rightarrow>
          (case add_by_signaling E pk greeting c (app_engine a) w of
             None \<Rightarrow> None
           | Some (r, ep, c, e, w) \<Rightarrow>
               Some (print (''Looking up '' @ name @ ''...'' @ nl @
                   (case ep of Some x \<Rightarrow> ''Found at '' @ endpoint_to_string x @ ''.'' @ nl | None \<Rightarrow> []) @
                   (case r of
                      Offline \<Rightarrow> ''Peer is offline (not registered).''
                    | NoResponse \<Rightarrow> ''No response from the signaling server.''
                    | RequestSent \<Rightarrow> ''Request sent'' @ (if app_relay a \<noteq> None then '' (via relay; trying direct)'' else []) @
                        ''. Waiting for '' @ name @ '' to accept.''
                    | RequestFailed \<Rightarrow> ''Could not send the request.'') @ nl)
                 (a\<lparr>app_sig := Some c, app_engine := e\<rparr>), w))
      | None \<Rightarrow>
          (case app_relay a of
             Some relay \<Rightarrow>
               (case send_contact_request E pk relay greeting (app_engine a) w of (ok, e, w) \<Rightarrow>
                  Some (print ((if ok then ''Request sent via relay. Waiting for '' @ name @ '' to accept.''
                    else ''Could not send the request.'') @ nl) (a\<lparr>app_engine := e\<rparr>), w))
           | None \<Rightarrow> Some (a, w)))"

definition cmd_add :: "env \<Rightarrow> string \<Rightarrow> ChatApp \<Rightarrow> world \<Rightarrow> (ChatApp \<times> world) option" where
  "cmd_add E args a w =
     (case read_word args of (name, rest) \<Rightarrow>
      case from_hex (fst (read_word rest)) of
        None \<Rightarrow> Some (print add_usage a, w)
      | Some pk \<Rightarrow>
          if name = [] \<or> length pk \<noteq> 32 then Some (print add_usage a, w)
          else cmd_add_request E pk name (a\<lparr>app_name_to_pk := (app_name_to_pk a)(name \<mapsto> pk),
                 app_pk_to_name := (app_pk_to_name a)(to_hex pk \<mapsto> name), app_current := pk\<rparr>) w)"

definition trust_label :: "TrustStatus option \<Rightarrow> string" where
  "trust_label trust =
     (if trust = Some Accepted then ''accepted'' else if trust = Some Pending then ''pending''
      else if trust = Some Rejected then ''rejected'' else ''unknown'')"

fun print_peers :: "string list \<Rightarrow> ChatApp \<Rightarrow> ChatApp" where
  "print_peers [] a = a"
| "print_peers (name # order) a =
     print_peers order (case app_name_to_pk a name of None \<Rightarrow> a
       | Some pk \<Rightarrow> print (''  '' @ name @ ''  '' @ trust_label (trust_of (app_engine a) pk) @ ''  '' @
           take 16 (to_hex pk) @ ellipsis @ nl) a)"

definition cmd_peers :: "string list \<Rightarrow> ChatApp \<Rightarrow> ChatApp" where
  "cmd_peers order a = (if app_name_to_pk a = Map.empty then print (''no known peers yet'' @ nl) a else print_peers order a)"

definition cmd_register :: "env \<Rightarrow> ChatApp \<Rightarrow> world \<Rightarrow> (ChatApp \<times> world) option" where
  "cmd_register E a w =
     (case app_sig a of
        None \<Rightarrow> Some (print (''no signaling server configured (relay mode)'' @ nl) a, w)
      | Some c \<Rightarrow>
          (case over_engine (register_self E kDefaultTimeoutMs kDefaultAttempts) c (app_engine a) w of
             None \<Rightarrow> None
           | Some (ok, c, e, w) \<Rightarrow>
               Some (print ((if ok then ''Registered.'' else ''Registration failed.'') @ nl) (a\<lparr>app_sig := Some c, app_engine := e\<rparr>), w)))"

definition handle_command :: "env \<Rightarrow> host \<Rightarrow> string \<Rightarrow> ChatApp \<Rightarrow> world \<Rightarrow> (ChatApp \<times> world) option" where
  "handle_command E H line a w =
     (case read_word line of (cmd, args) \<Rightarrow>
        if cmd = ''/quit'' then Some (a\<lparr>app_running := False\<rparr>, w)
        else if cmd = ''/help'' then Some (print help_text a, w)
        else if cmd = ''/id'' then
          Some (print (''public key: '' @ to_hex (public_key (app_self a)) @ nl @
            ''fingerprint: '' @ fingerprint E (app_self a) @ nl) a, w)
        else if cmd = ''/register'' then cmd_register E a w
        else if cmd = ''/add'' then cmd_add E args a w
        else if cmd = ''/accept'' \<or> cmd = ''/reject'' then Some (cmd_decide E args (cmd = ''/accept'') a w)
        else if cmd = ''/msg'' then Some (cmd_msg E args a w)
        else if cmd = ''/peers'' then Some (cmd_peers (name_order H (calls w)) a, w)
        else Some (print (''unknown command: '' @ cmd @ '' (try /help)'' @ nl) a, w))"

definition app_handle :: "env \<Rightarrow> host \<Rightarrow> string \<Rightarrow> ChatApp \<Rightarrow> world \<Rightarrow> (ChatApp \<times> world) option" where
  "app_handle E H line a w =
     (if line = [] then Some (a, w)
      else if line ! 0 \<noteq> CHR ''/'' then Some (send_current E line a w)
      else map_option (\<lambda>(a, w). (print ''> '' a, w)) (handle_command E H line a w))"

fun app_handle_all :: "env \<Rightarrow> host \<Rightarrow> string list \<Rightarrow> ChatApp \<Rightarrow> world \<Rightarrow> (ChatApp \<times> world) option" where
  "app_handle_all E H [] a w = Some (a, w)"
| "app_handle_all E H (line # lines) a w =
     (case app_handle E H line a w of None \<Rightarrow> None | Some (a, w) \<Rightarrow> app_handle_all E H lines a w)"

section \<open>The network thread\<close>

text \<open>
  The part of \<^verbatim>\<open>run\<close> before its loop: registering, announcing to the relay, and the
  whole startup, with \<open>False\<close> if the socket cannot be bound.
\<close>

definition start_register :: "env \<Rightarrow> ChatApp \<Rightarrow> world \<Rightarrow> (ChatApp \<times> world) option" where
  "start_register E a w =
     (case app_sig a of
        None \<Rightarrow> Some (a, w)
      | Some c \<Rightarrow>
          (case over_engine (register_self E kDefaultTimeoutMs kDefaultAttempts) c (app_engine a) w of
             None \<Rightarrow> None
           | Some (ok, c, e, w) \<Rightarrow>
               Some (print (''Registering with the signaling server...'' @ nl @
                 (if ok then ''Registered.'' else ''Registration failed (server reachable?). Retry with /register.'') @ nl)
                   (a\<lparr>app_sig := Some c, app_engine := e\<rparr>), w)))"

definition start_relay :: "env \<Rightarrow> ChatApp \<Rightarrow> world \<Rightarrow> ChatApp \<times> world" where
  "start_relay E a w =
     (case app_relay a of
        None \<Rightarrow> (a, w)
      | Some r \<Rightarrow>
          (case announce_to E r (set_relay r (app_engine a)) w of (_, e, w) \<Rightarrow>
             (print (''Using relay '' @ endpoint_to_string r @
                (if app_sig a \<noteq> None then '' (fallback; direct preferred)'' else []) @ ''.'' @ nl)
                (a\<lparr>app_engine := e\<rparr>), w)))"

definition app_start :: "env \<Rightarrow> ChatApp \<Rightarrow> world \<Rightarrow> (bool \<times> ChatApp \<times> timers \<times> world) option" where
  "app_start E a w =
     (let e = on_contact_response (on_contact_request (on_message (app_engine a))) in
      case engine_bind E \<lparr>host = ''0.0.0.0'', port = 0\<rparr> e w of
        (False, e, w) \<Rightarrow>
          Some (False, (print (''error: could not bind a local socket'' @ nl) (a\<lparr>app_engine := e\<rparr>))\<lparr>app_running := False\<rparr>,
            \<lparr>last_heartbeat = 0, last_announce = 0\<rparr>, w)
      | (True, e, w) \<Rightarrow>
          (case start_register E (a\<lparr>app_engine := e\<rparr>) w of
             None \<Rightarrow> None
           | Some (a, w) \<Rightarrow>
               (case start_relay E a w of (a, w) \<Rightarrow>
                  Some (True, print (''You are online.'' @ nl @ help_text @ ''> '') a,
                    \<lparr>last_heartbeat = steady_clock_now E (calls w), last_announce = steady_clock_now E (Suc (calls w))\<rparr>,
                    next_call (next_call w)))))"

text \<open>A round of the loop: the lines that are in the queue, then, unless they stopped the client, the network.\<close>

definition app_lines :: "env \<Rightarrow> host \<Rightarrow> ChatApp \<Rightarrow> world \<Rightarrow> (ChatApp \<times> world) option" where
  "app_lines E H a w = app_handle_all E H (app_queue a) (a\<lparr>app_queue := []\<rparr>) w"

definition app_network :: "env \<Rightarrow> host \<Rightarrow> ChatApp \<Rightarrow> timers \<Rightarrow> world \<Rightarrow> (ChatApp \<times> timers \<times> world) option" where
  "app_network E H a tms w =
     (case app_poll E 50 a w of (a, w) \<Rightarrow>
      case tick E (probe_order H (calls w)) (app_engine a) w of (e, w) \<Rightarrow>
        let a = report_direct_paths (name_order H (calls w)) (a\<lparr>app_engine := e\<rparr>) in
        case keep_alive E (app_sig a) (app_relay a) (app_engine a) tms w of
          None \<Rightarrow> None
        | Some (sig, e, tms, w) \<Rightarrow> Some (a\<lparr>app_sig := sig, app_engine := e\<rparr>, tms, w))"

section \<open>The program\<close>

record Options =
  opt_server :: string
  opt_relay :: string
  opt_identity :: string
  opt_pass :: string
  opt_name :: string

definition default_options :: Options where
  "default_options = \<lparr>opt_server = [], opt_relay = [], opt_identity = [], opt_pass = [], opt_name = []\<rparr>"

definition usage :: string where
  "usage = ''usage: om-chat (--server <host:port> | --relay <host:port>) '' @
     ''[--identity <file> --pass <passphrase>] [--name <display name>]'' @ nl @
     ''  --server  a signaling server (direct connections)'' @ nl @
     ''  --relay   a relay server (works through NAT; can be used together with --server)'' @ nl"

text \<open>The argument loop: the options, or the exit code and what was printed.\<close>

definition next_arg :: "string list \<Rightarrow> string" where
  "next_arg args = (case args of [] \<Rightarrow> [] | v # _ \<Rightarrow> v)"

fun parse_args :: "string list \<Rightarrow> Options \<Rightarrow> (int \<times> string) + Options" where
  "parse_args [] opts = Inr opts"
| "parse_args (arg # args) opts =
     (if arg = ''--server'' then parse_args (tl args) (opts\<lparr>opt_server := next_arg args\<rparr>)
      else if arg = ''--relay'' then parse_args (tl args) (opts\<lparr>opt_relay := next_arg args\<rparr>)
      else if arg = ''--identity'' then parse_args (tl args) (opts\<lparr>opt_identity := next_arg args\<rparr>)
      else if arg = ''--pass'' then parse_args (tl args) (opts\<lparr>opt_pass := next_arg args\<rparr>)
      else if arg = ''--name'' then parse_args (tl args) (opts\<lparr>opt_name := next_arg args\<rparr>)
      else if arg = ''-h'' \<or> arg = ''--help'' then Inl (0, usage)
      else Inl (1, ''unknown argument: '' @ arg @ nl @ usage))"

text \<open>Loading or creating the identity: the error to print, or the identity and a note.\<close>

definition open_identity :: "env \<Rightarrow> string \<Rightarrow> string \<Rightarrow> world \<Rightarrow> (string + Identity \<times> string) \<times> world" where
  "open_identity E identity_file passphrase w =
     (if identity_file \<noteq> [] then
        (if passphrase = [] then (Inl (''error: --pass (or OM_PASS) is required with --identity'' @ nl), w)
         else if identity_file \<in> dom (files w) then
           (case load_identity E identity_file passphrase w of
              (None, w) \<Rightarrow> (Inl (''error: wrong passphrase or corrupt identity file'' @ nl), w)
            | (Some i, w) \<Rightarrow> (Inr (i, ''Loaded identity from '' @ identity_file @ nl), w))
         else
           (case generate_identity E w of (i, w) \<Rightarrow>
            case save_identity E identity_file i passphrase w of
              (False, w) \<Rightarrow> (Inl (''error: could not save identity to '' @ identity_file @ nl), w)
            | (True, w) \<Rightarrow> (Inr (i, ''Created a new identity, saved to '' @ identity_file @ nl), w)))
      else (case generate_identity E w of (i, w) \<Rightarrow>
        (Inr (i, ''Using an ephemeral identity (not saved). Use --identity to keep one.'' @ nl), w)))"

text \<open>What \<^verbatim>\<open>main\<close> does after its preparations: exit, the full-screen client, or the line client.\<close>

datatype Launch =
    Exit int string
  | StartTui Identity "Endpoint option" "Endpoint option" string string string
  | StartChat ChatApp

definition store_path_of :: "string \<Rightarrow> string" where
  "store_path_of identity_file = (if identity_file = [] then [] else identity_file @ ''.store'')"

definition main_launch :: "env \<Rightarrow> host \<Rightarrow> string list \<Rightarrow> world \<Rightarrow> Launch \<times> world" where
  "main_launch E H args w =
     (case parse_args args default_options of
        Inl (code, out) \<Rightarrow> (Exit code out, w)
      | Inr opts \<Rightarrow>
          let pass = (if opt_pass opts = [] then case_option [] id (om_pass H) else opt_pass opts);
              server_ep = parse_endpoint_string (opt_server opts);
              relay_ep = parse_endpoint_string (opt_relay opts) in
          if server_ep = None \<and> relay_ep = None
          then (Exit 1 (''error: one of --server or --relay <host:port> is required'' @ nl @ usage), w)
          else case open_identity E (opt_identity opts) pass w of
              (Inl err, w) \<Rightarrow> (Exit 1 err, w)
            | (Inr (i, note), w) \<Rightarrow>
                let store_path = store_path_of (opt_identity opts) in
                if is_tty H then (StartTui i server_ep relay_ep (opt_name opts) store_path pass, w)
                else let a = print (note @ ''Your fingerprint: '' @ fingerprint E i @ nl)
                           (new_chat_app E i server_ep relay_ep (opt_name opts)) in
                  if store_path \<noteq> [] \<and> pass \<noteq> []
                  then case app_open_store E store_path pass a w of (_, a, w) \<Rightarrow> (StartChat a, w)
                  else (StartChat a, w))"

text \<open>
  The two threads of the line client.  The main thread reads lines until it sees \<^verbatim>\<open>/quit\<close>, the end of
  the input, or that the client stopped, and then stops the client; the network thread starts up and
  works in rounds.  Each step is what one thread does between two points where the other can act.
\<close>

datatype NetPhase = Starting | Looping | Polling | Exited

record ChatSys =
  cs_app :: ChatApp
  cs_timers :: timers
  cs_stdin :: "string list"
  cs_main_done :: bool
  cs_net :: NetPhase
  cs_world :: world

inductive chat_step :: "env \<Rightarrow> host \<Rightarrow> ChatSys \<Rightarrow> ChatSys \<Rightarrow> bool" for E H where
  read_line: "\<lbrakk>\<not> cs_main_done s; cs_stdin s = line # rest; line \<noteq> ''/quit''\<rbrakk> \<Longrightarrow>
    chat_step E H s (s\<lparr>cs_app := app_submit line (cs_app s), cs_stdin := rest\<rparr>)"
| read_quit: "\<lbrakk>\<not> cs_main_done s; cs_stdin s = ''/quit'' # rest\<rbrakk> \<Longrightarrow>
    chat_step E H s (s\<lparr>cs_app := app_stop (cs_app s), cs_stdin := rest, cs_main_done := True\<rparr>)"
| read_end: "\<lbrakk>\<not> cs_main_done s; cs_stdin s = [] \<or> \<not> app_running (cs_app s)\<rbrakk> \<Longrightarrow>
    chat_step E H s (s\<lparr>cs_app := app_stop (cs_app s), cs_main_done := True\<rparr>)"
| net_start: "\<lbrakk>cs_net s = Starting; app_start E (cs_app s) (cs_world s) = Some (ok, a, tms, w)\<rbrakk> \<Longrightarrow>
    chat_step E H s (s\<lparr>cs_app := a, cs_timers := tms, cs_world := w, cs_net := (if ok then Looping else Exited)\<rparr>)"
| net_lines: "\<lbrakk>cs_net s = Looping; app_running (cs_app s); app_lines E H (cs_app s) (cs_world s) = Some (a, w)\<rbrakk> \<Longrightarrow>
    chat_step E H s (s\<lparr>cs_app := a, cs_world := w, cs_net := Polling\<rparr>)"
| net_poll: "\<lbrakk>cs_net s = Polling; app_running (cs_app s); app_network E H (cs_app s) (cs_timers s) (cs_world s) = Some (a, tms, w)\<rbrakk> \<Longrightarrow>
    chat_step E H s (s\<lparr>cs_app := a, cs_timers := tms, cs_world := w, cs_net := Looping\<rparr>)"
| net_exit: "\<lbrakk>cs_net s \<in> {Looping, Polling}; \<not> app_running (cs_app s)\<rbrakk> \<Longrightarrow>
    chat_step E H s (s\<lparr>cs_net := Exited\<rparr>)"

inductive_cases chat_stepE: "chat_step E H s s'"

definition chat_system :: "ChatApp \<Rightarrow> string list \<Rightarrow> world \<Rightarrow> ChatSys" where
  "chat_system a stdin w = \<lparr>cs_app = a, cs_timers = \<lparr>last_heartbeat = 0, last_announce = 0\<rparr>, cs_stdin = stdin,
     cs_main_done = False, cs_net = Starting, cs_world = w\<rparr>"

section \<open>Names and commands\<close>

lemma print_sel [simp]:
  "app_engine (print s a) = app_engine a" "app_name_to_pk (print s a) = app_name_to_pk a"
  "app_pk_to_name (print s a) = app_pk_to_name a" "app_queue (print s a) = app_queue a"
  "app_running (print s a) = app_running a" "app_current (print s a) = app_current a"
  "app_out (print s a) = app_out a @ s" "app_self (print s a) = app_self a" "app_relay (print s a) = app_relay a"
  by (simp_all add: print_def)

lemma app_start_frame:
  assumes "app_start E a w = Some (ok, a', tms, w')"
  shows "app_queue a' = app_queue a" "app_running a' = (ok \<and> app_running a)"
  using assms
  by (auto simp: app_start_def start_register_def start_relay_def Let_def split: prod.splits bool.splits option.splits if_splits)

lemma chat_reads_all:
  assumes "''/quit'' \<notin> set ls"
  shows "(chat_step E H)\<^sup>*\<^sup>* (chat_system (a\<lparr>app_queue := q\<rparr>) ls w) (chat_system (a\<lparr>app_queue := q @ ls\<rparr>) [] w)"
  using assms
proof (induction ls arbitrary: q)
  case (Cons l ls)
  have "l \<noteq> ''/quit''" using Cons.prems by auto
  then have "chat_step E H (chat_system (a\<lparr>app_queue := q\<rparr>) (l # ls) w) (chat_system (a\<lparr>app_queue := q @ [l]\<rparr>) ls w)"
    using chat_step.read_line [of "chat_system (a\<lparr>app_queue := q\<rparr>) (l # ls) w" l ls E H]
    by (simp add: chat_system_def app_submit_def)
  also have "(chat_step E H)\<^sup>*\<^sup>* \<dots> (chat_system (a\<lparr>app_queue := (q @ [l]) @ ls\<rparr>) [] w)" using Cons.IH [of "q @ [l]"] Cons.prems by simp
  finally show ?case by simp
qed simp

text \<open>What the preparations of \<^verbatim>\<open>main\<close> leave of the files.\<close>

lemma read_files [simp]:
  "files (snd (read_salt E path magic w)) = files w" "files (snd (read_blob E path magic key w)) = files w"
  by (auto simp: read_salt_def read_blob_def read_file_def split: option.splits)

lemma load_identity_files: "files (snd (load_identity E path pass w)) = files w"
proof -
  obtain salt w1 where s: "read_salt E path kIdentityMagic w = (salt, w1)" by fastforce
  obtain k w2 where k: "derive_key E pass (the salt) w1 = (k, w2)" by fastforce
  obtain p w3 where p: "read_blob E path kIdentityMagic k w2 = (p, w3)" by fastforce
  have "files w1 = files w" "files w2 = files w1" "files w3 = files w2"
    using read_files(1) [of E path kIdentityMagic w] derive_key_frame(1) [of E pass "the salt" w1]
      read_files(2) [of E path kIdentityMagic k w2] by (simp_all add: s k p)
  then show ?thesis
    by (insert s k p, cases salt; cases p) (auto simp: load_identity_def split: option.split)
qed

lemma write_blob_other_files:
  assumes "q \<noteq> path" "q \<noteq> path @ ''.tmp''"
  shows "files (snd (write_blob E path magic salt key b w)) q = files w q"
  using assms by (auto simp: write_blob_def seal_def Let_def split: prod.splits write_result.splits)

lemma open_store_other_files:
  assumes "q \<noteq> path" "q \<noteq> path @ ''.tmp''"
  shows "files (snd (snd (open_store E path pass e w))) q = files w q"
proof -
  have "files (snd (snd (store_open E s path pass w))) q = files w q" for s
  proof (cases "path \<in> dom (files w)")
    case True
    obtain salt w1 where 1: "read_salt E path kStoreMagic w = (salt, w1)" by fastforce
    obtain k w2 where 2: "derive_key E pass (the salt) w1 = (k, w2)" by fastforce
    obtain p w3 where 3: "read_blob E path kStoreMagic k w2 = (p, w3)" by fastforce
    have "files w1 = files w" "files w2 = files w1" "files w3 = files w2"
      using read_files(1) [of E path kStoreMagic w] derive_key_frame(1) [of E pass "the salt" w1]
        read_files(2) [of E path kStoreMagic k w2] by (simp_all add: 1 2 3)
    with True show ?thesis
      by (insert 1 2 3, cases salt; cases p) (auto simp: store_open_def split: option.split)
  next
    case False
    obtain salt w1 where 1: "generate_salt E w = (salt, w1)" by fastforce
    obtain k w2 where 2: "derive_key E pass salt w1 = (k, w2)" by fastforce
    have "files w1 = files w" using 1 by (auto simp: generate_salt_def random_bytes_def split: prod.splits if_splits)
    moreover have "files w2 = files w1" using derive_key_frame(1) [of E pass salt w1] by (simp add: 2)
    ultimately show ?thesis
      using False write_blob_other_files [OF assms]
      by (auto simp: store_open_def 1 2 store_save_def Let_def split: prod.split) (metis snd_conv)
  qed
  from this [of "eng_contacts e"] show ?thesis
    by (cases "store_open E (eng_contacts e) path pass w") (simp add: open_store_def Let_def)
qed

text \<open>The identity a launch comes up with, whichever client it starts.\<close>

fun launched :: "Launch \<Rightarrow> Identity option" where
  "launched (Exit code out) = None"
| "launched (StartTui i server relay name store_path pass) = Some i"
| "launched (StartChat a) = Some (app_self a)"

definition launch_pass :: "host \<Rightarrow> Options \<Rightarrow> string" where
  "launch_pass H opts = (if opt_pass opts = [] then case_option [] id (om_pass H) else opt_pass opts)"

lemma main_launch_opens:
  assumes "parse_args args default_options = Inr opts" "opt_identity opts \<noteq> []"
    and "open_identity E (opt_identity opts) (launch_pass H opts) w = (r, v)" "main_launch E H args w = (l, w')"
  shows "if parse_endpoint_string (opt_server opts) = None \<and> parse_endpoint_string (opt_relay opts) = None
     then launched l = None \<and> w' = w
     else launched l = (case r of Inl _ \<Rightarrow> None | Inr (i, _) \<Rightarrow> Some i) \<and> files w' (opt_identity opts) = files v (opt_identity opts)"
proof -
  let ?f = "opt_identity opts"
  have other: "files (snd (snd (app_open_store E (?f @ ''.store'') pass a u))) ?f = files u ?f" for pass a u
    using open_store_other_files [of ?f "?f @ ''.store''" E pass "app_engine a" u]
    by (auto simp: app_open_store_def split: prod.splits)
  have self: "app_self (fst (snd (app_open_store E sp pass a u))) = app_self a" for sp pass a u
    by (auto simp: app_open_store_def split: prod.splits)
  show ?thesis
  proof (cases r)
    case (Inl err)
    with assms show ?thesis by (auto simp: main_launch_def launch_pass_def Let_def)
  next
    case (Inr x)
    obtain i info where x: "x = (i, info)" by fastforce
    let ?none = "parse_endpoint_string (opt_server opts) = None \<and> parse_endpoint_string (opt_relay opts) = None"
    let ?a = "print (info @ ''Your fingerprint: '' @ fingerprint E i @ nl)
      (new_chat_app E i (parse_endpoint_string (opt_server opts)) (parse_endpoint_string (opt_relay opts)) (opt_name opts))"
    have a: "app_self ?a = i" by (simp add: new_chat_app_def Let_def)
    obtain ok a2 v2 where st: "app_open_store E (?f @ ''.store'') (launch_pass H opts) ?a v = (ok, a2, v2)" by (metis prod_cases3)
    have "(l, w') = (if ?none then (Exit 1 (''error: one of --server or --relay <host:port> is required'' @ nl @ usage), w)
        else if is_tty H then (StartTui i (parse_endpoint_string (opt_server opts)) (parse_endpoint_string (opt_relay opts)) (opt_name opts)
            (?f @ ''.store'') (launch_pass H opts), v)
        else if launch_pass H opts \<noteq> [] then (StartChat a2, v2) else (StartChat ?a, v))"
      using assms(1,2,4) assms(3) [unfolded launch_pass_def] st [unfolded launch_pass_def]
      by (simp add: main_launch_def launch_pass_def store_path_of_def Inr x Let_def del: print_def split del: if_split cong: if_cong)
    moreover have "app_self a2 = i" "files v2 ?f = files v ?f"
      using self [of "?f @ ''.store''" "launch_pass H opts" ?a v] other [of "launch_pass H opts" ?a v] st a by simp_all
    ultimately show ?thesis using a by (simp add: Inr x split: if_splits)
  qed
qed

lemma open_identity_keeps: "f \<in> dom (files w) \<Longrightarrow> f \<noteq> [] \<Longrightarrow> files (snd (open_identity E f pass w)) = files w"
  using load_identity_files [of E f pass w] by (auto simp: open_identity_def split: prod.splits option.splits)

lemma load_identity_same:
  assumes "pwhash_deterministic E" "\<forall>k. file_read_ok E k path" "files w2 path = files w path"
  shows "fst (load_identity E path pass w2) = fst (load_identity E path pass w)"
proof -
  have rs: "read_salt E path m v = (fst (read_salt E path m w), next_call v)"
    "read_blob E path m k v = (fst (read_blob E path m k w), next_call v)" if "files v path = files w path" for m k v
    using assms(2) that by (simp_all add: read_salt_def read_blob_def read_file_def split: option.split)
  have dk: "files (snd (derive_key E pass salt v)) = files v"
    "fst (derive_key E pass salt v) = fst (derive_key E pass salt w)" for salt v
    using derive_key_deterministic [OF assms(1)] by auto
  have "fst (load_identity E path pass v) =
      (case fst (read_salt E path kIdentityMagic w) of None \<Rightarrow> None
       | Some salt \<Rightarrow> let key = fst (derive_key E pass salt w) in
           if key = [] then None
           else case fst (read_blob E path kIdentityMagic key w) of None \<Rightarrow> None
             | Some plaintext \<Rightarrow> (case rd_identity (reader plaintext) of None \<Rightarrow> None
                 | Some (i, r) \<Rightarrow> if \<not> rd_done r \<or> \<not> identity_valid i then None else Some i))"
    if v: "files v path = files w path" for v
  proof (cases "fst (read_salt E path kIdentityMagic w)")
    case None
    then show ?thesis by (simp add: load_identity_def rs(1) [OF v])
  next
    case (Some salt)
    obtain k v' where k: "derive_key E pass salt (next_call v) = (k, v')" by fastforce
    have kw: "fst (derive_key E pass salt w) = k" and v': "files v' path = files w path"
      using dk [of salt "next_call v"] k v by simp_all
    show ?thesis
      unfolding load_identity_def rs(1) [OF v] Some option.case prod.case k kw rs(2) [OF v'] Let_def
      by (simp split: option.split)
  qed
  from this [OF assms(3)] this [OF refl] show ?thesis by simp
qed

text \<open>Opening again gives the same identity.\<close>

lemma open_identity_again:
  assumes laws: "disk_keeps E" "aead_correct E" "random_sized E" "pwhash_deterministic E"
    and oi: "open_identity E f pass w = (Inr (i, info), v)" "f \<noteq> []"
    and files: "files w2 f = files v f" "\<forall>k. file_read_ok E k f"
  shows "\<exists>info2 v2. open_identity E f pass w2 = (Inr (i, info2), v2)"
proof -
  have pass: "pass \<noteq> []" using oi by (auto simp: open_identity_def split: if_splits)
  have again: "fst (load_identity E f pass w2) = Some i"
  proof (cases "f \<in> dom (files w)")
    case True
    then have "load_identity E f pass w = (Some i, v)"
      using oi pass by (auto simp: open_identity_def split: option.splits prod.splits)
    moreover have "files w2 f = files w f" using files(1) open_identity_keeps [OF True oi(2), of E pass] oi(1) by simp
    ultimately show ?thesis using load_identity_same [OF laws(4) files(2), of w2 w] by simp
  next
    case False
    then obtain w0 where "save_identity E f i pass w0 = (True, v)"
      using oi pass by (auto simp: open_identity_def split: option.splits prod.splits bool.splits)
    from identity_reload [OF laws this files] show ?thesis .
  qed
  have "f \<in> dom (files w2)"
    using again files(2) by (auto simp: load_identity_def read_salt_def read_file_def split: option.splits prod.splits)
  with again oi(2) pass show ?thesis by (cases "load_identity E f pass w2") (simp add: open_identity_def)
qed

section \<open>Properties\<close>

text \<open>
  (C40) Scripted input can be lost: when the main thread reaches the end of the input before the
  network thread is up, the client runs its startup and ends without having executed a
  single one of the lines, which are all still in the queue; nothing can happen after that.
\<close>

theorem piped_input_lost:
  assumes "''/quit'' \<notin> set lines" "app_queue a = []"
    and "app_start E (app_stop (a\<lparr>app_queue := lines\<rparr>)) w = Some (ok, a', tms, w')"
  shows "\<exists>s. (chat_step E H)\<^sup>*\<^sup>* (chat_system a lines w) s \<and> cs_app s = a' \<and> cs_world s = w' \<and> cs_stdin s = [] \<and>
    app_queue (cs_app s) = lines \<and> cs_net s = Exited \<and> (\<nexists>s'. chat_step E H s s')"
proof -
  define s1 where "s1 = (chat_system (a\<lparr>app_queue := lines\<rparr>) [] w)\<lparr>cs_app := app_stop (a\<lparr>app_queue := lines\<rparr>), cs_main_done := True\<rparr>"
  define s2 where "s2 = s1\<lparr>cs_app := a', cs_timers := tms, cs_world := w', cs_net := (if ok then Looping else Exited)\<rparr>"
  define s3 where "s3 = s2\<lparr>cs_net := Exited\<rparr>"
  have q: "app_queue a' = lines" "\<not> app_running a'" using app_start_frame [OF assms(3)] by (simp_all add: app_stop_def)
  have "a\<lparr>app_queue := []\<rparr> = a" using assms(2) by (metis ChatApp.surjective ChatApp.update_convs(6))
  with chat_reads_all [OF assms(1), where q = "[]" and E = E and H = H and a = a and w = w] have "(chat_step E H)\<^sup>*\<^sup>* (chat_system a lines w) (chat_system (a\<lparr>app_queue := lines\<rparr>) [] w)" by simp
  moreover have "chat_step E H (chat_system (a\<lparr>app_queue := lines\<rparr>) [] w) s1"
    unfolding s1_def using chat_step.read_end [of "chat_system (a\<lparr>app_queue := lines\<rparr>) [] w"] by (simp add: chat_system_def)
  moreover have "chat_step E H s1 s2"
    unfolding s2_def by (rule chat_step.net_start) (simp_all add: s1_def chat_system_def assms(3))
  moreover have "(chat_step E H)\<^sup>*\<^sup>* s2 s3"
  proof (cases ok)
    case True
    then have "chat_step E H s2 s3" unfolding s3_def by (intro chat_step.net_exit) (simp_all add: s2_def q)
    then show ?thesis by simp
  qed (simp add: s3_def s2_def)
  ultimately have "(chat_step E H)\<^sup>*\<^sup>* (chat_system a lines w) s3"
    by (meson rtranclp.rtrancl_into_rtrancl rtranclp_trans)
  moreover have "\<nexists>s'. chat_step E H s3 s'"
    by (auto elim!: chat_stepE simp: s3_def s2_def s1_def)
  ultimately show ?thesis using q by (intro exI [of _ s3]) (simp add: s3_def s2_def s1_def chat_system_def)
qed

definition toy_app :: ChatApp where
  "toy_app = new_chat_app toy_env \<lparr>public_key = pad 32 [1], secret_key = pad 64 [1]\<rparr> None (Some default_endpoint) ''me''"

theorem piped_input_lost_witness:
  "\<exists>s. (chat_step toy_env toy_host)\<^sup>*\<^sup>* (chat_system toy_app [''/peers'', ''hello''] toy_world) s \<and>
     app_queue (cs_app s) = [''/peers'', ''hello''] \<and> cs_net s = Exited"
proof -
  have "\<exists>ok a' tms w'. app_start toy_env (app_stop (toy_app\<lparr>app_queue := [''/peers'', ''hello'']\<rparr>)) toy_world = Some (ok, a', tms, w')"
    by (auto simp: app_start_def start_register_def app_stop_def toy_app_def new_chat_app_def Let_def split: prod.split bool.split)
  then obtain ok a' tms w' where
    st: "app_start toy_env (app_stop (toy_app\<lparr>app_queue := [''/peers'', ''hello'']\<rparr>)) toy_world = Some (ok, a', tms, w')" by blast
  have "''/quit'' \<notin> set [''/peers'', ''hello'']" "app_queue toy_app = []"
    by (simp_all add: toy_app_def new_chat_app_def Let_def)
  from piped_input_lost [OF this st, of toy_host] show ?thesis by blast
qed

text \<open>
  A name is only as good as eight hex digits: a contact request from a key that the client has no
  name for takes over the name made of the key's first eight hex digits, also when that name
  already stands for another peer; commands that use the name then act on the newcomer,
  while messages of the first peer still appear under the same name.
\<close>

theorem alias_taken_over:
  assumes "app_resolve a (take 8 (to_hex p)) = Some q" "app_pk_to_name a (to_hex q) = Some (take 8 (to_hex p))"
    and "app_pk_to_name a (to_hex p) = None" "p \<noteq> q"
  shows "let a' = app_event (RequestEvent p greeting) a in
    app_resolve a' (take 8 (to_hex p)) = Some p \<and> name_of a' p = name_of a' q"
proof -
  have "to_hex p \<noteq> to_hex q" using assms(4) from_hex_to_hex_eq by (metis option.inject)
  then show ?thesis using assms(2,3) by (simp add: app_event_def auto_alias_def app_resolve_def name_of_def Let_def)
qed

definition twin1 :: bytes where "twin1 = pad 32 [1, 2, 3, 4]"
definition twin2 :: bytes where "twin2 = pad 32 [1, 2, 3, 4, 5]"

theorem alias_taken_over_witness:
  "let a = app_event (RequestEvent twin1 []) toy_app; a' = app_event (RequestEvent twin2 []) a; n = take 8 (to_hex twin1)
   in app_resolve a n = Some twin1 \<and> app_resolve a' n = Some twin2 \<and> name_of a' twin1 = name_of a' twin2"
proof -
  let ?a = "app_event (RequestEvent twin1 []) toy_app" and ?n = "take 8 (to_hex twin1)"
  have n: "take 8 (to_hex twin2) = ?n"
    by (simp add: twin1_def twin2_def pad_def to_hex_Cons hex_pair_def kHex_def)
  have "twin2 ! 4 \<noteq> twin1 ! 4" by (simp add: twin1_def twin2_def pad_def nth_append)
  then have ne: "twin2 \<noteq> twin1" by auto
  have h: "to_hex twin2 \<noteq> to_hex twin1" using ne from_hex_to_hex_eq by (metis option.inject)
  have "app_resolve ?a ?n = Some twin1" "app_pk_to_name ?a (to_hex twin1) = Some ?n" "app_pk_to_name ?a (to_hex twin2) = None"
    using h by (simp_all add: app_event_def auto_alias_def app_resolve_def toy_app_def new_chat_app_def Let_def)
  from alias_taken_over [of ?a twin2 twin1, unfolded n, OF this ne] this(1) show ?thesis by (simp add: Let_def)
qed

text \<open>
  The text after a name is sent as it was typed: with a known name, \<^verbatim>\<open>/msg\<close> selects the peer the
  name stands for and sends it the rest of the line after the one blank, unchanged.
\<close>

theorem msg_command_sends:
  assumes "app_name_to_pk a name = Some pk" "name \<noteq> []" "list_all (\<lambda>c. \<not> is_space c) name" "CHR 0x0A \<notin> set text"
  shows "app_handle E H (''/msg '' @ name @ '' '' @ text) a w =
    Some (case app_deliver E pk text (a\<lparr>app_current := pk\<rparr>) w of (a, w) \<Rightarrow> (print ''> '' a, w))"
proof -
  have "read_word (''/msg '' @ name @ '' '' @ text) = (''/msg'', CHR '' '' # name @ CHR '' '' # text)"
    using read_word_append [of "''/msg''" "CHR '' '' # name @ CHR '' '' # text"] by (simp add: is_space_def)
  moreover have "read_word (CHR '' '' # name @ CHR '' '' # text) = (name, CHR '' '' # text)"
    using read_word_append [OF assms(3,2), of "CHR '' '' # text"] by (simp add: read_word_space is_space_def)
  moreover have "get_line (CHR '' '' # text) = CHR '' '' # text"
    using assms(4) by (simp add: get_line_def takeWhile_eq_all_conv) metis
  ultimately show ?thesis
    using assms(1) by (simp add: app_handle_def handle_command_def cmd_msg_def strip_blank_def app_resolve_def Let_def)
qed

theorem msg_command_sends_witness:
  "let a = toy_app\<lparr>app_name_to_pk := [''bob'' \<mapsto> pad 32 [2]]\<rparr> in
   app_handle toy_env toy_host ''/msg bob  hi'' a toy_world =
     Some (case app_deliver toy_env (pad 32 [2]) '' hi'' (a\<lparr>app_current := pad 32 [2]\<rparr>) toy_world of (a, w) \<Rightarrow> (print ''> '' a, w))"
  using msg_command_sends [of "toy_app\<lparr>app_name_to_pk := [''bob'' \<mapsto> pad 32 [2]]\<rparr>" "''bob''" "pad 32 [2]" "'' hi''" toy_env toy_host toy_world]
  by (simp add: is_space_def Let_def)

text \<open>
  (C23) The identity survives restarts: when \<^verbatim>\<open>main\<close> has once come up with an identity under \<^verbatim>\<open>--identity\<close>, be it for the
  full-screen or for the line client, created or loaded, running it again with the same arguments and
  passphrase on the same identity file, for either client, comes up with the same identity (on a
  disk that keeps what was written); and no run of \<^verbatim>\<open>main\<close>, up to handing over to a client or
  exiting with an error, changes an identity file that exists.
\<close>

theorem identity_survives_restart:
  assumes laws: "disk_keeps E" "aead_correct E" "random_sized E" "pwhash_deterministic E"
    and args: "parse_args args default_options = Inr opts" "opt_identity opts \<noteq> []"
    and first: "main_launch E H args w = (l, w1)"
  shows "(opt_identity opts \<in> dom (files w) \<longrightarrow> files w1 (opt_identity opts) = files w (opt_identity opts)) \<and>
    (\<forall>i H2 w2. launched l = Some i \<longrightarrow> om_pass H2 = om_pass H \<longrightarrow> files w2 (opt_identity opts) = files w1 (opt_identity opts) \<longrightarrow>
       (\<forall>k. file_read_ok E k (opt_identity opts)) \<longrightarrow> launched (fst (main_launch E H2 args w2)) = Some i)"
proof (intro conjI impI allI)
  let ?f = "opt_identity opts"
  obtain r v where r: "open_identity E ?f (launch_pass H opts) w = (r, v)" by fastforce
  note o = main_launch_opens [OF args r first]
  show "files w1 ?f = files w ?f" if "?f \<in> dom (files w)"
    using o open_identity_keeps [OF that args(2), of E "launch_pass H opts"] r by (simp split: if_splits)
  fix i and H2 :: host and w2 :: world
  assume i: "launched l = Some i" and pass: "om_pass H2 = om_pass H" and f: "files w2 ?f = files w1 ?f" "\<forall>k. file_read_ok E k ?f"
  obtain info where "r = Inr (i, info)" and given: "\<not> (parse_endpoint_string (opt_server opts) = None \<and> parse_endpoint_string (opt_relay opts) = None)"
    and v: "files w1 ?f = files v ?f"
    using o i by (auto split: if_splits sum.splits)
  have same: "launch_pass H2 opts = launch_pass H opts" by (simp add: launch_pass_def pass)
  have "open_identity E ?f (launch_pass H opts) w = (Inr (i, info), v)" using r \<open>r = Inr (i, info)\<close> by simp
  moreover have "files w2 ?f = files v ?f" using f(1) v by simp
  ultimately obtain info2 v2 where 2: "open_identity E ?f (launch_pass H2 opts) w2 = (Inr (i, info2), v2)"
    using open_identity_again [OF laws _ args(2) _ f(2)] unfolding same by blast
  obtain l2 w3 where l2: "main_launch E H2 args w2 = (l2, w3)" by fastforce
  from main_launch_opens [OF args 2 l2] given show "launched (fst (main_launch E H2 args w2)) = Some i" by (simp add: l2 split: if_splits)
qed

definition toy_args :: "string list" where
  "toy_args = [''--relay'', endpoint_to_string default_endpoint, ''--identity'', ''id'', ''--pass'', ''pw'']"

lemma toy_args_parsed:
  "parse_args toy_args default_options = Inr \<lparr>opt_server = [], opt_relay = endpoint_to_string default_endpoint,
     opt_identity = ''id'', opt_pass = ''pw'', opt_name = []\<rparr>"
  by (simp add: toy_args_def default_options_def next_arg_def)

lemma toy_save_identity: "\<exists>w1. save_identity toy_env ''id'' \<lparr>public_key = pad 32 p, secret_key = pad 64 s\<rparr> ''pw'' w = (True, w1)"
proof -
  have "pad 32 x \<noteq> []" for x by (metis length_pad list.size(3) zero_neq_numeral)
  then show ?thesis
    by (simp add: save_identity_def identity_valid_def generate_salt_def random_bytes_def derive_key_def
        write_blob_def seal_def crypto_sizes kSaltBytes_def Let_def)
qed

lemma toy_launch: "\<exists>a w1. main_launch toy_env toy_host toy_args toy_world = (StartChat a, w1)"
proof -
  obtain w1 where "save_identity toy_env ''id'' \<lparr>public_key = pad 32 [0], secret_key = pad 64 [0]\<rparr> ''pw'' (next_call toy_world) = (True, w1)"
    using toy_save_identity by blast
  then show ?thesis
    by (simp add: main_launch_def toy_args_parsed open_identity_def generate_identity_def toy_world_def toy_host_def
        store_path_of_def Let_def split: prod.split)
qed

theorem identity_survives_restart_witness:
  "\<exists>a w1 i. main_launch toy_env toy_host toy_args toy_world = (StartChat a, w1) \<and> launched (StartChat a) = Some i \<and>
     launched (fst (main_launch toy_env toy_host toy_args w1)) = Some i \<and>
     launched (fst (main_launch toy_env (toy_host\<lparr>is_tty := True\<rparr>) toy_args w1)) = Some i"
proof -
  obtain a w1 where l: "main_launch toy_env toy_host toy_args toy_world = (StartChat a, w1)" using toy_launch by blast
  from identity_survives_restart [OF toy_env_laws(11,1,3,5) toy_args_parsed _ l] l show ?thesis by simp
qed

end
