(* ===== verification/TuiCorrect.thy ===== *)
theory TuiCorrect
  imports Tui
begin

text \<open>
  Correctness of the full-screen client: commands survive the way through the queue, the
  snapshot lists the right chats and requests, wrapping loses nothing, drawing stays in the
  window; and two behaviours worth knowing, that the selection is a position and that
  adding a peer blocks the peer's own request.
\<close>

section \<open>Commands\<close>

text \<open>The copy of the hex parser in this file is the one of the line client.\<close>

lemma nib_nibble [simp]: "nib = nibble"
  by (rule ext) (simp add: nib_def nibble_def)

lemma tui_from_hex_eq: "tui_from_hex s = from_hex s"
proof -
  have "tui_from_hex_loop s out = from_hex_loop s out" for out
    by (induction s out rule: from_hex_loop.induct) (simp_all add: Let_def)
  then show ?thesis by (simp add: tui_from_hex_def from_hex_def)
qed

lemma read_word_cmd:
  "read_word (''/send '' @ s) = (''/send'', CHR '' '' # s)"
  "read_word (''/accept '' @ s) = (''/accept'', CHR '' '' # s)"
  "read_word (''/reject '' @ s) = (''/reject'', CHR '' '' # s)"
  using read_word_append [of "''/send''" "CHR '' '' # s"] read_word_append [of "''/accept''" "CHR '' '' # s"]
    read_word_append [of "''/reject''" "CHR '' '' # s"]
  by (simp_all add: is_space_def)

lemma read_word_hex:
  assumes "pk \<noteq> []" "rest = [] \<or> is_space (hd rest)"
  shows "read_word (CHR '' '' # to_hex pk @ rest) = (to_hex pk, rest)"
proof -
  have "to_hex pk \<noteq> []" using assms(1) length_to_hex [of pk] by (metis length_0_conv mult_is_0 zero_neq_numeral)
  from read_word_append [OF hex_no_space this assms(2)] show ?thesis by (simp add: read_word_space is_space_def)
qed

lemma exec_send:
  assumes "pk \<noteq> []" "CHR 0x0A \<notin> set text"
  shows "tui_exec E (''/send '' @ to_hex pk @ '' '' @ text) t w = Some (do_send E pk text t w)"
proof -
  have "get_line (CHR '' '' # text) = CHR '' '' # text"
    using assms(2) by (simp add: get_line_def takeWhile_eq_all_conv) metis
  then have "strip_blank (get_line (CHR '' '' # text)) = text" by (simp add: strip_blank_def)
  moreover have "read_word (CHR '' '' # to_hex pk @ '' '' @ text) = (to_hex pk, CHR '' '' # text)"
    using read_word_hex [OF assms(1), of "CHR '' '' # text"] by (simp add: is_space_def)
  ultimately show ?thesis by (simp add: tui_exec_def read_word_cmd [simplified] tui_from_hex_eq from_hex_to_hex_eq Let_def)
qed

lemma exec_decide:
  assumes "pk \<noteq> []"
  shows "tui_exec E (''/accept '' @ to_hex pk) t w = Some (do_decide E pk True t w)"
    and "tui_exec E (''/reject '' @ to_hex pk) t w = Some (do_decide E pk False t w)"
  using read_word_hex [OF assms, of "[]"]
  by (simp_all add: tui_exec_def read_word_cmd [simplified] tui_from_hex_eq from_hex_to_hex_eq)

text \<open>What is typed has no control characters.\<close>

definition input_ok :: "Tui \<Rightarrow> bool" where
  "input_ok t \<longleftrightarrow> list_all (\<lambda>c. 32 \<le> (of_char c :: nat)) (tui_input t)"

lemma input_ok_type_key: "input_ok t \<Longrightarrow> input_ok (type_key ch t)"
  by (auto simp: input_ok_def type_key_def nat_less_iff)

lemma tui_input_submit [simp]: "tui_input (tui_submit c t) = tui_input t" "tui_selected (tui_submit c t) = tui_selected t"
  by (simp_all add: tui_submit_def)

lemma tui_input_handle_enter [simp]: "tui_input (handle_enter t) = []"
  by (simp add: handle_enter_def Let_def split: option.split)

lemma input_ok_on_key:
  assumes "input_ok t"
  shows "input_ok (on_key H ch t)"
proof -
  have "input_ok (t\<lparr>tui_input := butlast (tui_input t)\<rparr>)"
    using assms by (auto simp: input_ok_def list_all_iff dest: in_set_butlastD)
  moreover have "input_ok (handle_enter t)" by (simp add: input_ok_def)
  moreover have "input_ok (tui_submit c t)" for c using assms by (simp add: input_ok_def)
  moreover have "input_ok (t\<lparr>tui_selected := i, tui_scroll := j\<rparr>)" "input_ok (t\<lparr>tui_scroll := j\<rparr>)" for i j
    using assms by (simp_all add: input_ok_def)
  ultimately show ?thesis
    unfolding on_key_def using assms input_ok_type_key by (simp split: option.split)
qed

section \<open>Wrapping\<close>

function chunks :: "nat \<Rightarrow> 'a list \<Rightarrow> 'a list list" where
  "chunks k xs = (if length xs \<le> Suc k then [xs] else take (Suc k) xs # chunks k (drop (Suc k) xs))"
  by pat_completeness auto
termination by (relation "measure (\<lambda>(k, xs). length xs)") auto

declare chunks.simps [simp del]

lemma wrap_loop_chunks:
  "p < length full \<or> p = 0 \<Longrightarrow> wrap_loop k full p = chunks k (drop p full)"
proof (induction k full p rule: wrap_loop.induct)
  case (1 k full p)
  show ?case
  proof (cases "length (drop p full) \<le> Suc k")
    case True
    with 1(2) show ?thesis by (subst wrap_loop.simps, subst chunks.simps) (auto simp: Let_def)
  next
    case False
    then have "length (take (Suc k) (drop p full)) = Suc k" "p + Suc k < length full" by simp_all
    with 1(1) [OF 1(2) refl] False 1(2) show ?thesis
      by (subst wrap_loop.simps, subst chunks.simps) (simp add: Let_def add.commute)
  qed
qed

lemma concat_chunks: "concat (chunks k xs) = xs"
  by (induction k xs rule: chunks.induct) (subst chunks.simps, simp)

lemma length_chunks_le: "list_all (\<lambda>c. length c \<le> Suc k) (chunks k xs)"
  by (induction k xs rule: chunks.induct) (subst chunks.simps, simp)

section \<open>The snapshot\<close>

definition accepted_contacts :: "Engine \<Rightarrow> Contact list" where
  "accepted_contacts e = filter (\<lambda>c. c_trust c = Accepted) (st_contacts (eng_contacts e))"

lemma build_snapshot_items:
  assumes "build_snapshot E H srt t w = (t', w')"
  shows "tui_items t' = srt (map (chat_item (tui_engine t)) (accepted_contacts (tui_engine t))) @
      map (request_item (tui_engine t)) (st_requests (eng_contacts (tui_engine t)))"
    and "tui_n_chats t' = int (length (srt (map (chat_item (tui_engine t)) (accepted_contacts (tui_engine t)))))"
    and "tui_selected t' = clamp_selection (tui_selected t) (int (length (tui_items t')))"
    and "tui_engine t' = tui_engine t" "tui_input t' = tui_input t" "tui_queue t' = tui_queue t"
  using assms by (auto simp: build_snapshot_def accepted_contacts_def Let_def split: option.splits if_splits prod.splits)

lemma newest_first_mset: "newest_first srt \<Longrightarrow> mset (srt xs) = mset xs"
  by (simp add: newest_first_def)

lemma newest_first_set: "newest_first srt \<Longrightarrow> set (srt xs) = set xs"
  by (metis newest_first_mset mset_eq_setD)

lemma newest_first_length: "newest_first srt \<Longrightarrow> length (srt xs) = length xs"
  by (metis newest_first_mset size_mset)

definition by_age :: "Item list \<Rightarrow> Item list" where
  "by_age = sort_key (\<lambda>it. - it_sort_key it)"

lemma newest_first_by_age: "newest_first by_age"
proof -
  have "sorted_wrt (\<lambda>a b. \<not> it_sort_key b > it_sort_key a) (sort_key (\<lambda>it. - it_sort_key it) xs)" for xs :: "Item list"
    using sorted_sort_key [of "\<lambda>it. - it_sort_key it" xs]
    by (simp add: sorted_map sorted_wrt_map not_less)
  then show ?thesis by (simp add: newest_first_def by_age_def)
qed

lemma newest_first_hd:
  assumes "newest_first srt" "x \<in> set xs" "\<And>y. y \<in> set xs \<Longrightarrow> y \<noteq> x \<Longrightarrow> it_sort_key y < it_sort_key x"
  shows "\<exists>ys. srt xs = x # ys"
proof (cases "srt xs")
  case Nil
  have "x \<in> set (srt xs)" using assms(1,2) newest_first_set by metis
  with Nil show ?thesis by simp
next
  case (Cons y ys)
  have "set xs = set (y # ys)" using newest_first_set [OF assms(1), of xs] Cons by simp
  then have "x \<in> set (y # ys)" "y \<in> set xs" using assms(2) by auto
  moreover have "sorted_wrt (\<lambda>a b. \<not> it_sort_key b > it_sort_key a) (y # ys)"
    using assms(1) Cons unfolding newest_first_def by metis
  ultimately have "y = x" using assms(3) by force
  with Cons show ?thesis by simp
qed

lemma chat_item_sel [simp]: "it_is_request (chat_item e c) = False" "it_pk (chat_item e c) = c_key c"
  by (simp_all add: chat_item_def Let_def)

lemma request_item_sel [simp]: "it_is_request (request_item e q) = True" "it_pk (request_item e q) = q_peer q"
  by (simp_all add: request_item_def)

section \<open>The screen\<close>

text \<open>
  The columns a text takes on the terminal.  A text is read as glyphs: a printable ASCII character, or a
  complete UTF-8 sequence.  An ASCII glyph takes one column, another as many as the terminal gives it (\<open>wc\<close>, as
  \<^verbatim>\<open>wcwidth\<close>, \<open>None\<close> if it cannot be printed).  A text with a control character, a broken sequence or
  an unprintable glyph has no columns: ncurses interprets a tab or a newline and spells others out, which
  this measure does not follow.
\<close>

definition glyph_size :: "char \<Rightarrow> nat" where
  "glyph_size c = (let b = (of_char c :: nat) in
     if 32 \<le> b \<and> b < 127 then 1 else if 194 \<le> b \<and> b < 224 then 2 else if 224 \<le> b \<and> b < 240 then 3
     else if 240 \<le> b \<and> b < 245 then 4 else 0)"

definition continues :: "char \<Rightarrow> bool" where
  "continues c \<longleftrightarrow> 128 \<le> (of_char c :: nat) \<and> (of_char c :: nat) < 192"

function glyphs :: "string \<Rightarrow> string list option" where
  "glyphs [] = Some []"
| "glyphs (c # s) = (let k = glyph_size c - 1 in
     if glyph_size c = 0 \<or> length s < k \<or> \<not> list_all continues (take k s) then None
     else map_option ((#) (c # take k s)) (glyphs (drop k s)))"
  by pat_completeness auto
termination by (relation "measure length") auto

fun total :: "nat option list \<Rightarrow> nat option" where
  "total [] = Some 0"
| "total (None # ns) = None"
| "total (Some n # ns) = map_option ((+) n) (total ns)"

definition columns :: "(string \<Rightarrow> nat option) \<Rightarrow> string \<Rightarrow> nat option" where
  "columns wc s = Option.bind (glyphs s) (\<lambda>gs. total (map (\<lambda>g. if length g = 1 then Some 1 else wc g) gs))"

text \<open>The widths of \<^verbatim>\<open>wcwidth\<close>: at most two columns, and one for the ellipsis.\<close>

definition widths_ok :: "(string \<Rightarrow> nat option) \<Rightarrow> bool" where
  "widths_ok wc \<longleftrightarrow> (\<forall>g n. wc g = Some n \<longrightarrow> n \<le> 2) \<and> wc ellipsis = Some 1"

fun in_window :: "(string \<Rightarrow> nat option) \<Rightarrow> int \<Rightarrow> int \<Rightarrow> DrawOp \<Rightarrow> bool" where
  "in_window wc rows cols (MvAddStr y x s) \<longleftrightarrow> 0 \<le> y \<and> y < rows \<and> 0 \<le> x \<and> x < cols \<and>
     (case columns wc s of Some n \<Rightarrow> x + int n \<le> cols | None \<Rightarrow> True)"
| "in_window wc rows cols (MvHline y x c n) \<longleftrightarrow> 0 \<le> y \<and> y < rows \<and> 0 \<le> x \<and> x + n \<le> cols"
| "in_window wc rows cols (MvAddVline y x) \<longleftrightarrow> 0 \<le> y \<and> y < rows \<and> 0 \<le> x \<and> x < cols"
| "in_window wc rows cols (Move y x) \<longleftrightarrow> 0 \<le> y \<and> y < rows \<and> 0 \<le> x \<and> x < cols"
| "in_window wc rows cols _ \<longleftrightarrow> True"

lemma total_append:
  "total (xs @ ys) = (case (total xs, total ys) of (Some m, Some n) \<Rightarrow> Some (m + n) | _ \<Rightarrow> None)"
  by (induction xs rule: total.induct) (auto split: option.splits)

lemma columns_le:
  assumes "widths_ok wc" "columns wc s = Some n"
  shows "n \<le> length s"
  using assms(2)
proof (induction s arbitrary: n rule: glyphs.induct)
  case (2 c s)
  let ?k = "glyph_size c - 1"
  from "2.prems" obtain gs where ok: "\<not> (glyph_size c = 0 \<or> length s < ?k \<or> \<not> list_all continues (take ?k s))"
    and gs: "glyphs (drop ?k s) = Some gs" "total (map (\<lambda>g. if length g = 1 then Some 1 else wc g) ((c # take ?k s) # gs)) = Some n"
    by (auto simp: columns_def Let_def split: if_splits bind_splits)
  then obtain m r where m: "(if ?k = 0 then Some 1 else wc (c # take ?k s)) = Some m"
    "total (map (\<lambda>g. if length g = 1 then Some 1 else wc g) gs) = Some r" "n = m + r"
    by (cases "if ?k = 0 then Some 1 else wc (c # take ?k s)") (auto simp: min_def split: if_splits)
  have "m \<le> Suc ?k" using m(1) assms(1) by (cases "?k = 0") (auto simp: widths_ok_def, fastforce)
  moreover have "r \<le> length (drop ?k s)"
    using "2.IH" [OF refl ok, of r] gs(1) m(2) by (simp add: columns_def)
  moreover have "?k \<le> length s" using ok by linarith
  ultimately show ?case using m(3) by simp
qed (simp add: columns_def)

text \<open>Before a byte that begins a glyph there are whole glyphs.\<close>

lemma glyphs_append:
  "glyphs (s @ c # t) = Some gs \<Longrightarrow> \<not> continues c \<Longrightarrow> \<exists>as bs. glyphs s = Some as \<and> glyphs (c # t) = Some bs \<and> gs = as @ bs"
proof (induction s arbitrary: gs rule: glyphs.induct)
  case (2 b s)
  let ?k = "glyph_size b - 1"
  from "2.prems"(1) obtain ds where ok: "glyph_size b \<noteq> 0" "?k \<le> length (s @ c # t)" "list_all continues (take ?k (s @ c # t))"
    and ds: "glyphs (drop ?k (s @ c # t)) = Some ds" "gs = (b # take ?k (s @ c # t)) # ds"
    by (auto simp: Let_def split: if_splits)
  have k: "?k \<le> length s"
  proof (rule ccontr)
    assume "\<not> ?k \<le> length s"
    then have "0 < ?k - length s" by linarith
    then have "c \<in> set (take ?k (s @ c # t))" by (cases "?k - length s") simp_all
    with ok(3) "2.prems"(2) show False by (simp add: list_all_iff)
  qed
  then have g: "\<not> (glyph_size b = 0 \<or> length s < ?k \<or> \<not> list_all continues (take ?k s))" using ok by simp
  from "2.IH" [OF refl g, of ds] ds k "2.prems"(2) obtain as bs where
    "glyphs (drop ?k s) = Some as" "glyphs (c # t) = Some bs" "ds = as @ bs" by auto
  with g k ds(2) show ?case by (auto simp: Let_def)
qed simp

lemma columns_ellipsis:
  assumes "widths_ok wc" "columns wc (s @ ellipsis) = Some n"
  shows "n \<le> length s + 1"
proof -
  obtain e es where e: "ellipsis = e # es" "\<not> continues e" by (simp add: ellipsis_def continues_def)
  from assms(2) obtain gs where gs: "glyphs (s @ ellipsis) = Some gs" "total (map (\<lambda>g. if length g = 1 then Some 1 else wc g) gs) = Some n"
    by (auto simp: columns_def split: bind_splits)
  from glyphs_append [OF gs(1) [unfolded e(1)] e(2)] obtain as bs where
    ab: "glyphs s = Some as" "glyphs ellipsis = Some bs" "gs = as @ bs" by (auto simp: e(1))
  have "bs = [ellipsis]" using ab(2) by (simp add: ellipsis_def glyph_size_def continues_def Let_def)
  moreover have "length ellipsis \<noteq> 1" by (simp add: ellipsis_def)
  moreover have "wc ellipsis = Some 1" using assms(1) by (simp add: widths_ok_def)
  ultimately obtain m where "columns wc s = Some m" "n = m + 1"
    using gs(2) ab(1,3) by (auto simp: columns_def total_append split: option.splits)
  with columns_le [OF assms(1)] show ?thesis by fastforce
qed

lemma columns_clip:
  assumes "widths_ok wc" "w \<ge> 0" "columns wc (c_str (clip s w)) = Some n"
  shows "int n \<le> w \<and> n \<le> length s"
proof (cases "int (length s) \<le> w \<or> w \<le> 1 \<or> CHR 0x00 \<in> set (take (nat (w - 1)) s)")
  case True
  have "int (length (c_str (clip s w))) \<le> w \<and> length (c_str (clip s w)) \<le> length s"
  proof (cases "int (length s) \<le> w \<or> w \<le> 1")
    case True
    then have "int (length (clip s w)) \<le> w \<and> length (clip s w) \<le> length s" using assms(2) by (auto simp: clip_def)
    moreover have "length (c_str (clip s w)) \<le> length (clip s w)" by (simp add: c_str_def length_takeWhile_le)
    ultimately show ?thesis by linarith
  next
    case False
    with True have "c_str (clip s w) = c_str (take (nat (w - 1)) s)" by (auto simp: clip_def c_str_def takeWhile_append1)
    moreover have "length (c_str (take (nat (w - 1)) s)) \<le> length (take (nat (w - 1)) s)"
      unfolding c_str_def by (rule length_takeWhile_le)
    moreover have "length (take (nat (w - 1)) s) \<le> length s \<and> int (length (take (nat (w - 1)) s)) \<le> w" using False by (auto simp: min_def)
    ultimately show ?thesis by (metis (no_types, lifting) order_trans of_nat_le_iff)
  qed
  with columns_le [OF assms(1,3)] show ?thesis by linarith
next
  case False
  let ?t = "take (nat (w - 1)) s"
  have "c_str (clip s w) = ?t @ ellipsis"
    using False by (auto simp: clip_def c_str_def ellipsis_def takeWhile_append)
  with columns_ellipsis [OF assms(1), of ?t n] assms(3) have "n \<le> length ?t + 1" by simp
  moreover have "length ?t = nat (w - 1)" "length ?t < length s" using False by (auto simp: min_def)
  ultimately show ?thesis using False by linarith
qed

lemma clip_nonpos: "w \<le> 0 \<Longrightarrow> clip s w = []"
  by (simp add: clip_def)

lemma in_window_clip:
  assumes "widths_ok wc" "0 \<le> y" "y < rows" "0 \<le> x" "x < cols" "x + w \<le> cols"
  shows "in_window wc rows cols (MvAddStr y x (c_str (clip s w)))"
proof (cases "w \<le> 0")
  case True
  then show ?thesis using assms by (simp add: clip_nonpos c_str_def columns_def)
next
  case False
  then show ?thesis using assms columns_clip [OF assms(1), of w s] by (fastforce split: option.split)
qed

lemma sidebar_width_bounds: "cols \<ge> 19 \<Longrightarrow> 0 < sidebar_width cols \<and> sidebar_width cols < cols"
  by (auto simp: sidebar_width_def Let_def min_def signed_divide_int_def)

lemma in_window_item:
  assumes "widths_ok wc" "0 \<le> y" "y < rows" "0 < sw" "sw < cols"
  shows "list_all (in_window wc rows cols) (draw_item t y sw i)"
  using assms
  by (auto simp: draw_item_def Let_def simp del: in_window.simps(1) intro!: in_window_clip)

lemma draw_items_bounds:
  assumes "widths_ok wc" "0 \<le> y" "bottom < rows" "0 < sw" "sw < cols"
  shows "list_all (in_window wc rows cols) (fst (draw_items t sw bottom is y)) \<and> y \<le> snd (draw_items t sw bottom is y)"
  using assms(2)
proof (induction "is" arbitrary: y)
  case (Cons i "is")
  then have "list_all (in_window wc rows cols) (fst (draw_items t sw bottom is (y + 1))) \<and> y + 1 \<le> snd (draw_items t sw bottom is (y + 1))"
    by simp
  then show ?case
    using Cons.prems in_window_item [of wc y rows sw cols t i] assms by (auto simp: case_prod_beta)
qed simp

lemma draw_wrapped_bounds:
  assumes "widths_ok wc" "0 \<le> y" "bottom < rows" "0 \<le> x" "x < cols" "list_all (\<lambda>l. x + int (length (fst l)) \<le> cols) ls"
  shows "list_all (in_window wc rows cols) (draw_wrapped bottom x ls y)"
  using assms(2,6)
proof (induction ls arbitrary: y)
  case (Cons l ls)
  obtain s cp where l: "l = (s, cp)" by fastforce
  have "length (c_str s) \<le> length s" by (simp add: c_str_def length_takeWhile_le)
  then have "x + int n \<le> cols" if "columns wc (c_str s) = Some n" for n
    using columns_le [OF assms(1) that] Cons.prems(2) by (simp add: l)
  with Cons.prems Cons.IH [of "y + 1"] assms(3-5) show ?case by (auto simp: l split: option.split)
qed simp

lemma wrap_line_length:
  assumes "w \<ge> 4"
  shows "list_all (\<lambda>l. int (length (fst l)) \<le> w - 1) (wrap_line w l)"
proof -
  have "list_all (\<lambda>c. int (length c) \<le> w - 1) (wrap_loop (nat (w - 2)) full 0)" for full
    using length_chunks_le [of "nat (w - 2)" full] assms by (auto simp: wrap_loop_chunks list_all_iff)
  then show ?thesis using assms by (auto simp: wrap_line_def Let_def list_all_iff)
qed

lemma draw_conversation_bounds:
  assumes "widths_ok wc" "0 \<le> y" "bottom < rows" "0 \<le> x"
  shows "list_all (in_window wc rows cols) (draw_conversation t y bottom x (cols - x))"
proof (cases "cols - x < 4")
  case False
  let ?ls = "concat (map (wrap_line (cols - x)) (tui_conv t))"
  have "list_all (\<lambda>l. x + int (length (fst l)) \<le> cols) (drop n ?ls)" for n
    using wrap_line_length [of "cols - x"] False by (fastforce simp: list_all_iff dest: in_set_dropD)
  then show ?thesis using False assms by (auto simp: draw_conversation_def Let_def intro!: draw_wrapped_bounds)
qed (simp add: draw_conversation_def)

lemma draw_status_bar_bounds:
  assumes "widths_ok wc" "0 < rows" "cols \<ge> 19"
  shows "list_all (in_window wc rows cols) (draw_status_bar E t cols)"
proof -
  let ?r = "tui_status t"
  have half: "0 \<le> cols sdiv 2" "cols sdiv 2 \<le> cols - 2" using assms(3) by (simp_all add: signed_divide_int_def)
  have "max 1 (cols - 1 - int (length ?r)) + int n \<le> cols" if "columns wc (c_str (clip ?r (cols sdiv 2))) = Some n" for n
    using columns_clip [OF assms(1) half(1) that] half(2) by (auto simp: max_def split: if_splits)
  then have "in_window wc rows cols (MvAddStr 0 (max 1 (cols - 1 - int (length ?r))) (c_str (clip ?r (cols sdiv 2))))"
    using assms(2,3) by (auto split: option.split)
  moreover have "in_window wc rows cols (MvAddStr 0 1 (c_str (clip s (cols - 2))))" for s
    using assms by (intro in_window_clip) simp_all
  ultimately show ?thesis using assms by (simp add: draw_status_bar_def Let_def del: in_window.simps(1))
qed

lemma draw_footer_bounds:
  assumes "widths_ok wc" "rows \<ge> 5" "cols \<ge> 19"
  shows "list_all (in_window wc rows cols) (draw_footer t rows cols)"
  using assms by (auto simp: draw_footer_def simp del: in_window.simps(1) intro!: in_window_clip)

lemma draw_sidebar_bounds:
  assumes "widths_ok wc" "rows \<ge> 5" "0 < sw" "sw < cols"
  shows "list_all (in_window wc rows cols) (draw_sidebar t 1 (rows - 4) sw)"
proof -
  let ?b = "rows - 4" and ?n = "tui_n_chats t"
  note cl = in_window_clip [where x = 0 and w = sw and rows = rows and cols = cols]
  define y where "y = (if ?n = 0 \<and> (2 :: int) \<le> ?b then 3 else 2 :: int)"
  obtain ops y1 where d: "draw_items t sw ?b [0..?n - 1] y = (ops, y1)" by fastforce
  have y: "0 \<le> y" by (simp add: y_def)
  from draw_items_bounds [OF assms(1) y, of ?b rows sw cols t "[0..?n - 1]"] assms d
  have ops: "list_all (in_window wc rows cols) ops" and y1: "0 \<le> y1" using y by auto
  have rest: "0 \<le> z \<Longrightarrow> list_all (in_window wc rows cols) (fst (draw_items t sw ?b is z))" for z "is"
    using draw_items_bounds [of wc z ?b rows sw cols t "is"] assms by simp
  show ?thesis
    using assms ops y1 d [unfolded y_def]
    by (auto simp: draw_sidebar_def Let_def simp del: in_window.simps(1) intro!: cl rest)
qed

section \<open>Adding a peer\<close>

lemma over_engine_contacts:
  assumes "over_engine op c e w = Some (r, c', e', w')"
  shows "\<exists>s. e' = e\<lparr>eng_socket := s\<rparr>"
  using assms by (auto simp: over_engine_def split: option.splits)

lemma connect_contacts:
  assumes "connect E pk ep e w = (active, e', w')"
  shows "eng_contacts e' = eng_contacts e" "eng_outgoing e' = eng_outgoing e"
  using assms by (auto simp: connect_def Let_def dest!: start_probing_eff split: prod.splits option.splits)

lemma send_contact_request_known:
  assumes "send_contact_request E pk ep g e w = (ok, e', w')" "trust_of e pk \<noteq> None"
  shows "trust_of e' pk \<noteq> None" "trust_of e pk = Some Accepted \<Longrightarrow> trust_of e' pk = Some Accepted"
  using send_contact_request_eff [OF assms(1)] assms(2) by (auto simp: trust_of_def trust_change_def)

lemma add_by_signaling_known:
  assumes "add_by_signaling E pk g c e w = Some (r, ep, c', e', w')" "trust_of e pk \<noteq> None"
  shows "trust_of e' pk \<noteq> None"
proof -
  obtain found c1 e1 w1 where d: "over_engine (discover E pk kDefaultTimeoutMs kDefaultAttempts) c e w = Some (found, c1, e1, w1)"
    using assms(1) by (cases "over_engine (discover E pk kDefaultTimeoutMs kDefaultAttempts) c e w") (auto simp: add_by_signaling_def)
  have 1: "eng_contacts e1 = eng_contacts e" using over_engine_contacts [OF d] by auto
  show ?thesis
  proof (cases "dr_endpoint found")
    case None
    with assms d 1 show ?thesis by (auto simp: add_by_signaling_def trust_of_def)
  next
    case (Some ep)
    obtain active e2 w2 where cn: "connect E pk ep e1 w1 = (active, e2, w2)" by (metis prod_cases3)
    let ?r = "case public_endpoint c1 of None \<Rightarrow> Some (True, c1, e2, w2)
      | Some mine \<Rightarrow> over_engine (\<lambda>c w. Some (send_connect E pk (bytes_of_string (endpoint_to_string mine)) c w)) c1 e2 w2"
    obtain b c3 e3 w3 where r: "?r = Some (b, c3, e3, w3)"
      using assms(1) d Some cn by (cases ?r) (auto simp: add_by_signaling_def)
    have 3: "eng_contacts e3 = eng_contacts e2" using r by (auto split: option.splits dest!: over_engine_contacts)
    obtain ok e4 w4 where sc: "send_contact_request E pk active g e3 w3 = (ok, e4, w4)" by (metis prod_cases3)
    have "e' = e4" using assms(1) d Some cn r sc by (simp add: add_by_signaling_def)
    moreover have "trust_of e3 pk \<noteq> None" using assms(2) 1 connect_contacts(1) [OF cn] 3 by (simp add: trust_of_def)
    ultimately show ?thesis using send_contact_request_known(1) [OF sc] by simp
  qed
qed

section \<open>The worked example\<close>

definition toy_tui :: Tui where
  "toy_tui = (new_tui toy_env \<lparr>public_key = pad 32 [2], secret_key = pad 64 [2]\<rparr> None None ''bob'' [] [])
     \<lparr>tui_items := [\<lparr>it_is_request = False, it_pk = [7], it_name = ''alice'', it_subtitle = [], it_sort_key = 0\<rparr>],
      tui_input := ''hi''\<rparr>"

lemma toy_tui_sel:
  "tui_input toy_tui = ''hi''" "tui_queue toy_tui = []" "input_ok toy_tui"
  "selected_item toy_tui = Some \<lparr>it_is_request = False, it_pk = [7], it_name = ''alice'', it_subtitle = [], it_sort_key = 0\<rparr>"
  by (simp_all add: toy_tui_def new_tui_def selected_item_def input_ok_def Let_def)

definition toy_chats :: "StoredMessage list \<Rightarrow> Tui" where
  "toy_chats ms = toy_tui\<lparr>tui_engine := (new_engine [] [])\<lparr>eng_contacts := default_store\<lparr>st_messages := ms,
     st_contacts := [\<lparr>c_key = [7], c_nickname = ''alice'', c_trust = Accepted, c_last_seen = 0\<rparr>,
       \<lparr>c_key = [8], c_nickname = ''bob'', c_trust = Accepted, c_last_seen = 0\<rparr>]\<rparr>\<rparr>\<rparr>"

section \<open>Properties\<close>

text \<open>
  (C24) What is typed is what is sent, to the chat that is selected: pressing Enter on a line that is
  no command, with a chat selected, queues exactly one command, clears the input, and when
  the network thread executes that command, in whatever state it is by then, it sends the
  typed bytes unchanged to the selected peer.  Keys keep the typed line free of control characters.
\<close>

theorem typed_text_sent:
  assumes "input_ok t" "tui_input t \<noteq> []" "tui_input t ! 0 \<noteq> CHR ''/''"
    and "selected_item t = Some it" "\<not> it_is_request it" "it_pk it \<noteq> []" "ch = 10"
    and "keys_ok H"
  shows "\<exists>cmd. on_key H ch t = t\<lparr>tui_input := [], tui_queue := tui_queue t @ [cmd]\<rparr> \<and>
    tui_exec E cmd u w = Some (do_send E (it_pk it) (tui_input t) u w) \<and> input_ok (on_key H ch t)"
proof -
  let ?cmd = "''/send '' @ to_hex (it_pk it) @ '' '' @ tui_input t"
  have nl: "CHR 0x0A \<notin> set (tui_input t)" using assms(1) by (auto simp: input_ok_def list_all_iff)
  have sel: "selected_item (t\<lparr>tui_input := []\<rparr>) = Some it" using assms(4) by (simp add: selected_item_def split: if_splits)
  have "handle_enter t = t\<lparr>tui_input := [], tui_queue := tui_queue t @ [?cmd]\<rparr>"
    using assms(2,3,5) sel by (simp add: handle_enter_def Let_def tui_submit_def)
  moreover have "on_key H ch t = handle_enter t"
    using assms(7,8) by (simp add: on_key_def keys_ok_def Let_def)
  ultimately show ?thesis using exec_send [OF assms(6) nl] input_ok_on_key [OF assms(1)] by metis
qed

theorem typed_text_sent_witness:
  "\<exists>cmd. tui_queue (on_key toy_host 10 toy_tui) = [cmd] \<and>
     tui_exec toy_env cmd toy_tui toy_world = Some (do_send toy_env [7] ''hi'' toy_tui toy_world)"
proof -
  from typed_text_sent [of toy_tui _ 10 toy_host toy_env toy_tui toy_world, OF toy_tui_sel(3) _ _ toy_tui_sel(4) _ _ refl keys_ok_toy]
  obtain cmd where "on_key toy_host 10 toy_tui = toy_tui\<lparr>tui_input := [], tui_queue := tui_queue toy_tui @ [cmd]\<rparr>"
    "tui_exec toy_env cmd toy_tui toy_world = Some (do_send toy_env [7] ''hi'' toy_tui toy_world)"
    by (auto simp: toy_tui_sel)
  then show ?thesis by (simp add: toy_tui_sel)
qed

text \<open>
  (C31) Wrapping a message for the screen loses nothing: the loop returns the plain
  division of the text into chunks of the pane's width, which concatenate to the text and
  of which none is longer than the width.
\<close>

theorem wrap_lossless:
  "wrap_loop k full 0 = chunks k full \<and> concat (wrap_loop k full 0) = full \<and>
   list_all (\<lambda>c. length c \<le> Suc k) (wrap_loop k full 0)"
  using wrap_loop_chunks [of 0 full k] concat_chunks [of k full] length_chunks_le [of k full] by simp

text \<open>
  (C29) The snapshot is well formed: the list shows the accepted contacts first, each exactly once,
  then the pending requests in order; the count of chats is the boundary between the two;
  and the selection is a valid index, so that something is selected whenever the list is not empty.
\<close>

theorem snapshot_well_formed:
  assumes "newest_first srt" "build_snapshot E H srt t w = (t', w')"
  shows "\<exists>chats. tui_items t' = chats @ map (request_item (tui_engine t)) (st_requests (eng_contacts (tui_engine t))) \<and>
    mset (map it_pk chats) = mset (map c_key (accepted_contacts (tui_engine t))) \<and>
    list_all (\<lambda>it. \<not> it_is_request it) chats \<and> tui_n_chats t' = int (length chats) \<and>
    0 \<le> tui_selected t' \<and> (selected_item t' = None \<longleftrightarrow> tui_items t' = [])"
proof (intro exI conjI)
  let ?cs = "map (chat_item (tui_engine t)) (accepted_contacts (tui_engine t))"
  note b = build_snapshot_items [OF assms(2)]
  show "tui_items t' = srt ?cs @ map (request_item (tui_engine t)) (st_requests (eng_contacts (tui_engine t)))" by (rule b(1))
  have "mset (map it_pk (srt ?cs)) = image_mset it_pk (mset ?cs)" by (simp add: newest_first_mset [OF assms(1)])
  also have "\<dots> = mset (map c_key (accepted_contacts (tui_engine t)))" by (simp add: multiset.map_comp comp_def)
  finally show "mset (map it_pk (srt ?cs)) = mset (map c_key (accepted_contacts (tui_engine t)))" .
  show "list_all (\<lambda>it. \<not> it_is_request it) (srt ?cs)"
    by (auto simp: list_all_iff newest_first_set [OF assms(1)])
  show "tui_n_chats t' = int (length (srt ?cs))" by (rule b(2))
  show "0 \<le> tui_selected t'" by (simp add: b(3) clamp_selection_def Let_def)
  show "selected_item t' = None \<longleftrightarrow> tui_items t' = []"
    using b(3) by (auto simp: selected_item_def clamp_selection_def Let_def split: if_splits)
qed

theorem snapshot_well_formed_witness:
  "case build_snapshot toy_env toy_host by_age (toy_chats [\<lparr>m_peer = [8], m_text = ''b'', m_outgoing = False, m_timestamp = 20\<rparr>]) toy_world of
     (t', _) \<Rightarrow> mset (map it_pk (tui_items t')) = {#[7], [8]#} \<and> tui_n_chats t' = 2 \<and> selected_item t' \<noteq> None"
proof -
  let ?t = "toy_chats [\<lparr>m_peer = [8], m_text = ''b'', m_outgoing = False, m_timestamp = 20\<rparr>]"
  obtain t' w' where b: "build_snapshot toy_env toy_host by_age ?t toy_world = (t', w')" by fastforce
  have c: "map c_key (accepted_contacts (tui_engine ?t)) = [[7], [8]]" "st_requests (eng_contacts (tui_engine ?t)) = []"
    by (simp_all add: toy_chats_def accepted_contacts_def toy_tui_def new_tui_def new_engine_def default_store_def Let_def)
  from snapshot_well_formed [OF newest_first_by_age b, unfolded c] have
    m: "mset (map it_pk (tui_items t')) = {#[7], [8]#}" "tui_n_chats t' = int (length (tui_items t'))"
      "selected_item t' = None \<longleftrightarrow> tui_items t' = []" by auto
  then have "size (mset (map it_pk (tui_items t'))) = 2" by simp
  then have "length (tui_items t') = 2" by simp
  with b m show ?thesis by auto
qed

text \<open>
  The selection is a position, not a chat: when the first chat is selected, the next snapshot
  selects whichever contact has the newest message, whatever was selected before.  A message
  that arrives from somebody else while a line is being typed therefore makes Enter send
  the line to the new sender.
\<close>

theorem selection_follows_newest:
  assumes "newest_first srt" "tui_selected t = 0" "c \<in> set (accepted_contacts (tui_engine t))"
    and "\<forall>d \<in> set (accepted_contacts (tui_engine t)). d \<noteq> c \<longrightarrow>
       it_sort_key (chat_item (tui_engine t) d) < it_sort_key (chat_item (tui_engine t) c)"
    and "build_snapshot E H srt t w = (t', w')"
  shows "selected_item t' = Some (chat_item (tui_engine t) c)"
proof -
  note b = build_snapshot_items [OF assms(5)]
  have "\<exists>ys. srt (map (chat_item (tui_engine t)) (accepted_contacts (tui_engine t))) = chat_item (tui_engine t) c # ys"
    by (rule newest_first_hd [OF assms(1)]) (use assms(3,4) in auto)
  then show ?thesis using b(1,3) assms(2) by (auto simp: selected_item_def clamp_selection_def)
qed

theorem selection_follows_newest_witness:
  "let fromA = \<lparr>m_peer = [7], m_text = ''a'', m_outgoing = False, m_timestamp = 10\<rparr>;
       fromB = \<lparr>m_peer = [8], m_text = ''b'', m_outgoing = False, m_timestamp = 20\<rparr>;
       before = fst (build_snapshot toy_env toy_host by_age (toy_chats [fromA]) toy_world);
       after = fst (build_snapshot toy_env toy_host by_age (toy_chats [fromA, fromB]) toy_world)
   in map_option it_pk (selected_item before) = Some [7] \<and> map_option it_pk (selected_item after) = Some [8]"
proof -
  let ?A = "\<lparr>m_peer = [7 :: byte], m_text = ''a'', m_outgoing = False, m_timestamp = 10\<rparr>"
  let ?B = "\<lparr>m_peer = [8 :: byte], m_text = ''b'', m_outgoing = False, m_timestamp = 20\<rparr>"
  let ?a = "\<lparr>c_key = [7 :: byte], c_nickname = ''alice'', c_trust = Accepted, c_last_seen = 0\<rparr>"
  let ?b = "\<lparr>c_key = [8 :: byte], c_nickname = ''bob'', c_trust = Accepted, c_last_seen = 0\<rparr>"
  have acc: "accepted_contacts (tui_engine (toy_chats ms)) = [?a, ?b]" "tui_selected (toy_chats ms) = 0" for ms
    by (simp_all add: toy_chats_def accepted_contacts_def toy_tui_def new_tui_def Let_def)
  have key: "it_sort_key (chat_item (tui_engine (toy_chats ms)) c) =
      (let conv = filter (\<lambda>m. m_peer m = c_key c) ms in if conv = [] then 0 else m_timestamp (last conv))" for ms c
    by (simp add: toy_chats_def chat_item_def store_conversation_def Let_def)
  have "selected_item (fst (build_snapshot toy_env toy_host by_age (toy_chats [?A]) toy_world)) =
      Some (chat_item (tui_engine (toy_chats [?A])) ?a)"
    by (rule selection_follows_newest [OF newest_first_by_age, where w' = "snd (build_snapshot toy_env toy_host by_age (toy_chats [?A]) toy_world)"])
       (simp_all add: acc key)
  moreover have "selected_item (fst (build_snapshot toy_env toy_host by_age (toy_chats [?A, ?B]) toy_world)) =
      Some (chat_item (tui_engine (toy_chats [?A, ?B])) ?b)"
    by (rule selection_follows_newest [OF newest_first_by_age, where w' = "snd (build_snapshot toy_env toy_host by_age (toy_chats [?A, ?B]) toy_world)"])
       (simp_all add: acc key)
  ultimately show ?thesis by (simp add: Let_def)
qed

text \<open>On a terminal with colours, every colour pair that drawing can use is given its colours, once, after colours are started.\<close>

lemma init_ui_pairs:
  "\<exists>pre post. init_ui True = pre @ StartColor # post \<and> list_all (\<lambda>call. \<forall>p fg bg. call \<noteq> InitPair p fg bg) pre \<and>
     (\<exists>!fg. \<exists>bg. InitPair cp fg bg \<in> set post)"
  by (intro exI [of _ "[Setlocale [], Initscr, Cbreak, Noecho, Keypad True, Timeout 120, CursSet 1]"] exI [of _ "drop 8 (init_ui True)"])
    (cases cp; auto simp: init_ui_def)

text \<open>
  (C30) Drawing stays in the window: in a window of at least 5 rows and 19 columns, whatever the
  state, every text is put at a position inside the window and, if it consists of whole printable
  characters, ends before the right edge, wide characters included, for any terminal that gives a character at most
  two columns and the ellipsis one; rules and cursor stay inside too.  Texts with control characters or broken
  UTF-8 are outside the claim: the program draws what a peer sent unfiltered, and ncurses moves on a tab or newline.
\<close>

theorem render_in_window:
  assumes "rows \<ge> 5" "cols \<ge> 19" "widths_ok wc"
  shows "list_all (in_window wc rows cols) (render E t rows cols)"
proof -
  let ?sw = "sidebar_width cols"
  have sw: "0 < ?sw" "?sw < cols" using sidebar_width_bounds [OF assms(2)] by auto
  have "list_all (in_window wc rows cols) (map (\<lambda>r. MvAddVline r ?sw) [1..rows - 4])"
    using sw assms by (auto simp: list_all_iff)
  moreover have "list_all (in_window wc rows cols) (draw_conversation t 1 (rows - 4) (?sw + 2) (cols - (?sw + 2)))"
    using sw by (intro draw_conversation_bounds assms(3)) simp_all
  ultimately show ?thesis
    using draw_status_bar_bounds [OF assms(3), of rows cols E t] draw_sidebar_bounds [OF assms(3,1) sw, of t]
      draw_footer_bounds [OF assms(3,1,2), of t] assms
    by (simp add: render_def Let_def)
qed

text \<open>A terminal in which every glyph takes one column.\<close>

theorem render_in_window_witness:
  "list_all (in_window (\<lambda>_. Some 1) 24 80) (render toy_env toy_tui 24 80)"
  by (rule render_in_window) (simp_all add: widths_ok_def)

text \<open>
  (C39) Adding a peer in the full-screen client shuts out its own request: the nickname is stored
  before the lookup, which makes an unknown peer a pending contact even when it turns out to be
  offline, and from then on the engine ignores every contact request of that peer.
\<close>

theorem add_blocks_request:
  assumes "nm \<noteq> []" "tui_from_hex pkhex = Some pk" "length pk = 32"
    and "do_add E nm pkhex t w = Some (t', w')"
  shows "trust_of (tui_engine t') pk \<noteq> None \<and>
    (\<forall>g v. handle_contact_request E pk g (tui_engine t') v = (tui_engine t', v))"
proof -
  obtain e1 w1 where sn: "set_nickname E pk nm (tui_engine t) w = (e1, w1)" by fastforce
  have k: "trust_of e1 pk \<noteq> None" using set_nickname_eff [OF sn] by (auto simp: trust_change_def trust_of_def)
  have "trust_of (tui_engine t') pk \<noteq> None"
  proof (cases "tui_sig t")
    case (Some c)
    then show ?thesis using assms sn add_by_signaling_known [OF _ k] by (auto simp: do_add_def split: option.splits)
  next
    case None
    then show ?thesis using assms sn k send_contact_request_known(1) [OF _ k]
      by (auto simp: do_add_def split: option.splits prod.splits)
  qed
  then show ?thesis by (auto simp: handle_contact_request_def trust_of_def Let_def)
qed

theorem add_blocks_request_witness:
  "case do_add toy_env ''eve'' (to_hex (pad 32 [9])) toy_tui toy_world of
     None \<Rightarrow> False
   | Some (t', w') \<Rightarrow> trust_of (tui_engine toy_tui) (pad 32 [9]) = None \<and>
       handle_contact_request toy_env (pad 32 [9]) [104] (tui_engine t') w' = (tui_engine t', w')"
proof -
  have h: "tui_from_hex (to_hex (pad 32 [9])) = Some (pad 32 [9])" by (simp add: tui_from_hex_eq from_hex_to_hex_eq)
  have n: "trust_of (tui_engine toy_tui) (pad 32 [9]) = None" "tui_sig toy_tui = None" "tui_relay toy_tui = None"
    by (simp_all add: toy_tui_def new_tui_def new_engine_def trust_of_def store_trust_of_def default_store_def Let_def)
  obtain t' w' where d: "do_add toy_env ''eve'' (to_hex (pad 32 [9])) toy_tui toy_world = Some (t', w')"
    using n by (cases "set_nickname toy_env (pad 32 [9]) ''eve'' (tui_engine toy_tui) toy_world") (simp add: do_add_def h)
  from add_blocks_request [OF _ h _ d] n show ?thesis by (simp add: d)
qed

text \<open>
  The accept and reject keys decide the selected request: with a request selected and nothing
  typed, each key queues one command, and executing it decides that peer's request.
\<close>

theorem decision_keys:
  assumes "keys_ok H" "tui_input t = []" "selected_item t = Some it" "it_is_request it" "it_pk it \<noteq> []"
  shows "\<exists>a r. on_key H 97 t = tui_submit a t \<and> tui_exec E a u w = Some (do_decide E (it_pk it) True u w) \<and>
    on_key H 114 t = tui_submit r t \<and> tui_exec E r u w = Some (do_decide E (it_pk it) False u w)"
proof (intro exI conjI)
  show "on_key H 97 t = tui_submit (''/accept '' @ to_hex (it_pk it)) t" "on_key H 114 t = tui_submit (''/reject '' @ to_hex (it_pk it)) t"
    using assms(1-4) by (simp_all add: on_key_def keys_ok_def Let_def)
qed (rule exec_decide [OF assms(5)])+

theorem decision_keys_witness:
  "let t = toy_tui\<lparr>tui_input := [], tui_items := [\<lparr>it_is_request = True, it_pk = [7], it_name = ''eve'', it_subtitle = [], it_sort_key = 0\<rparr>]\<rparr>
   in \<exists>a. on_key toy_host 97 t = tui_submit a t \<and> tui_exec toy_env a t toy_world = Some (do_decide toy_env [7] True t toy_world)"
proof -
  let ?t = "toy_tui\<lparr>tui_input := [], tui_items := [\<lparr>it_is_request = True, it_pk = [7], it_name = ''eve'', it_subtitle = [], it_sort_key = 0\<rparr>]\<rparr>"
  have "tui_input ?t = []"
    "selected_item ?t = Some \<lparr>it_is_request = True, it_pk = [7], it_name = ''eve'', it_subtitle = [], it_sort_key = 0\<rparr>"
    by (simp_all add: selected_item_def toy_tui_def new_tui_def Let_def)
  from decision_keys [OF keys_ok_toy this, of toy_env ?t toy_world] show ?thesis by (auto simp: Let_def)
qed

end
