(* ===== verification/Frontend.thy ===== *)
theory Frontend
  imports TuiCorrect Flow EngineInv
begin

text \<open>
  What the front ends may assume of the engine, as an interface: a property of the engine
  that each of its operations keeps, the two that admit a peer only for the peers that are
  allowed.  Everything a front end does with the engine then keeps the property.
\<close>

section \<open>The interface\<close>

locale engine_client =
  fixes E :: env and P :: "Engine \<Rightarrow> bool" and allowed :: "bytes \<Rightarrow> bool"
  assumes keeps_socket: "P e \<Longrightarrow> P (e\<lparr>eng_socket := s\<rparr>)"
    and keeps_relay: "P e \<Longrightarrow> P (set_relay r e)"
    and keeps_handlers: "P e \<Longrightarrow> P (on_message e)" "P e \<Longrightarrow> P (on_contact_request e)" "P e \<Longrightarrow> P (on_contact_response e)"
    and keeps_name: "P e \<Longrightarrow> set_nickname E p n e w = (e', w') \<Longrightarrow> P e'"
    and keeps_send: "P e \<Longrightarrow> send E p m e w = (ok, e', w') \<Longrightarrow> P e'"
    and keeps_request: "P e \<Longrightarrow> allowed p \<Longrightarrow> send_contact_request E p ep g e w = (ok, e', w') \<Longrightarrow> P e'"
    and keeps_accept: "P e \<Longrightarrow> allowed p \<Longrightarrow> accept_contact E p e w = (ok, e', w') \<Longrightarrow> P e'"
    and keeps_reject: "P e \<Longrightarrow> reject_contact E p e w = (ok, e', w') \<Longrightarrow> P e'"
    and keeps_poll: "P e \<Longrightarrow> poll E t e w = (ok, e', w') \<Longrightarrow> P e'"
    and keeps_bind: "P e \<Longrightarrow> engine_bind E ep e w = (ok, e', w') \<Longrightarrow> P e'"
    and keeps_announce: "P e \<Longrightarrow> announce_to E ep e w = (ok, e', w') \<Longrightarrow> P e'"
    and keeps_connect: "P e \<Longrightarrow> connect E p ep e w = (ep', e', w') \<Longrightarrow> P e'"
    and keeps_tick: "P e \<Longrightarrow> tick E order e w = (e', w') \<Longrightarrow> P e'"
begin

lemma keeps_over_engine: "over_engine op c e w = Some (r, c', e', w') \<Longrightarrow> P e \<Longrightarrow> P e'"
  by (auto simp: over_engine_def keeps_socket split: option.splits)

lemma keeps_add:
  assumes "add_by_signaling E p g c e w = Some (r, ep, c', e', w')" "P e" "allowed p"
  shows "P e'"
proof -
  obtain found c1 e1 w1 where d: "over_engine (discover E p kDefaultTimeoutMs kDefaultAttempts) c e w = Some (found, c1, e1, w1)"
    using assms(1) by (cases "over_engine (discover E p kDefaultTimeoutMs kDefaultAttempts) c e w") (auto simp: add_by_signaling_def)
  note 1 = keeps_over_engine [OF d assms(2)]
  show ?thesis
  proof (cases "dr_endpoint found")
    case None
    with assms(1) d 1 show ?thesis by (auto simp: add_by_signaling_def)
  next
    case (Some ep)
    obtain active e2 w2 where cn: "connect E p ep e1 w1 = (active, e2, w2)" by (metis prod_cases3)
    note 2 = keeps_connect [OF 1 cn]
    let ?r = "case public_endpoint c1 of None \<Rightarrow> Some (True, c1, e2, w2)
      | Some mine \<Rightarrow> over_engine (\<lambda>c w. Some (send_connect E p (bytes_of_string (endpoint_to_string mine)) c w)) c1 e2 w2"
    obtain b c3 e3 w3 where r: "?r = Some (b, c3, e3, w3)"
      using assms(1) d Some cn by (cases ?r) (auto simp: add_by_signaling_def)
    then have 3: "P e3" using 2 by (auto split: option.splits dest: keeps_over_engine)
    obtain ok e4 w4 where sc: "send_contact_request E p active g e3 w3 = (ok, e4, w4)" by (metis prod_cases3)
    have "e' = e4" using assms(1) d Some cn r sc by (simp add: add_by_signaling_def)
    then show ?thesis using keeps_request [OF 3 assms(3) sc] by simp
  qed
qed

lemma keeps_keep_alive:
  "keep_alive E sig relay e tms w = Some (sig', e', tms', w') \<Longrightarrow> P e \<Longrightarrow> P e'"
  by (auto simp: keep_alive_def Let_def split: option.splits if_splits prod.splits
      dest: keeps_over_engine dest!: keeps_announce [rotated])

lemma keeps_poll_all:
  assumes "poll_all E e w = Some (e', w')" "P e"
  shows "P e'"
proof -
  have "E = E \<longrightarrow> P e \<longrightarrow> P (fst (e', w'))"
    by (rule poll_all.raw_induct [where P = "\<lambda>E' e w y. E' = E \<longrightarrow> P e \<longrightarrow> P (fst y)", OF _ assms(1)])
       (auto split: prod.splits if_splits dest: keeps_poll)
  with assms(2) show ?thesis by simp
qed

text \<open>The full-screen client, by operation.\<close>

lemma keeps_do_add:
  assumes "do_add E nm hex t w = Some (t', w')" "P (tui_engine t)" "\<And>p. tui_from_hex hex = Some p \<Longrightarrow> allowed p"
  shows "P (tui_engine t')"
proof (cases "tui_from_hex hex")
  case None
  with assms(1,2) show ?thesis by (auto simp: do_add_def)
next
  case (Some p)
  obtain e w1 where n: "set_nickname E p nm (tui_engine t) w = (e, w1)" by fastforce
  note 1 = keeps_name [OF assms(2) n] and al = assms(3) [OF Some]
  show ?thesis
  proof (cases "nm = [] \<or> length p \<noteq> 32")
    case True
    with assms(1,2) Some show ?thesis by (auto simp: do_add_def)
  next
    case False
    with assms(1) Some n 1 al show ?thesis
      by (auto simp: do_add_def split: option.splits prod.splits dest: keeps_add keeps_request)
  qed
qed

lemma keeps_do_decide:
  "do_decide E p acc t w = (t', w') \<Longrightarrow> P (tui_engine t) \<Longrightarrow> (acc \<Longrightarrow> allowed p) \<Longrightarrow> P (tui_engine t')"
  by (cases acc) (auto simp: do_decide_def split: prod.splits dest: keeps_accept keeps_reject)

lemma keeps_do_send: "do_send E p text t w = (t', w') \<Longrightarrow> P (tui_engine t) \<Longrightarrow> P (tui_engine t')"
  by (auto simp: do_send_def Let_def split: prod.splits if_splits dest: keeps_send)

end

text \<open>The words of a command line.\<close>

definition word :: "nat \<Rightarrow> string \<Rightarrow> string" where
  "word n line = fst (read_word (((snd \<circ> read_word) ^^ n) line))"

text \<open>The peers a command of the full-screen client admits.\<close>

definition admits :: "string \<Rightarrow> bytes \<Rightarrow> bool" where
  "admits c p \<longleftrightarrow> word 0 c = ''/add'' \<and> tui_from_hex (word 2 c) = Some p \<or>
     word 0 c = ''/accept'' \<and> tui_from_hex (word 1 c) = Some p"

context engine_client
begin

lemma keeps_exec:
  assumes "tui_exec E c t w = Some (t', w')" "P (tui_engine t)" "\<And>p. admits c p \<Longrightarrow> allowed p"
  shows "P (tui_engine t')"
proof -
  obtain cmd rest where r: "read_word c = (cmd, rest)" by fastforce
  obtain nm rest2 where n: "read_word rest = (nm, rest2)" by fastforce
  have w: "word 0 c = cmd" "word 1 c = nm" "word 2 c = fst (read_word rest2)"
    by (simp_all add: word_def r n numeral_2_eq_2)
  consider "cmd = ''/add''" | "cmd = ''/accept''" | "cmd = ''/reject''" | "cmd \<notin> {''/add'', ''/accept'', ''/reject''}" by blast
  then show ?thesis
  proof cases
    case 1
    with assms(1) r n have "do_add E nm (fst (read_word rest2)) t w = Some (t', w')" by (simp add: tui_exec_def)
    then show ?thesis by (rule keeps_do_add [OF _ assms(2)]) (rule assms(3), simp add: admits_def w 1)
  next
    case 2
    with assms r n w show ?thesis
      by (auto simp: tui_exec_def admits_def split: option.splits intro: keeps_do_decide)
  next
    case 3
    with assms r n w show ?thesis
      by (auto simp: tui_exec_def split: option.splits intro: keeps_do_decide)
  next
    case 4
    with assms(1,2) r n show ?thesis
      by (auto simp: tui_exec_def Let_def split: if_splits option.splits intro: keeps_do_send)
  qed
qed

lemma keeps_exec_all:
  "tui_exec_all E cs t w = Some (t', w') \<Longrightarrow> P (tui_engine t) \<Longrightarrow>
     (\<And>c p. c \<in> set cs \<Longrightarrow> admits c p \<Longrightarrow> allowed p) \<Longrightarrow> P (tui_engine t')"
proof (induction cs arbitrary: t w)
  case (Cons c cs)
  then obtain t1 w1 where "tui_exec E c t w = Some (t1, w1)" "tui_exec_all E cs t1 w1 = Some (t', w')"
    by (auto split: option.splits)
  then show ?case using Cons.IH Cons.prems(2,3) keeps_exec by (metis list.set_intros)
qed simp

lemma keeps_net_work:
  assumes "tui_net_work E H cmds t tms w = Some (t', tms', w')" "P (tui_engine t)"
    and "\<And>c p. c \<in> set cmds \<Longrightarrow> admits c p \<Longrightarrow> allowed p"
  shows "P (tui_engine t')"
proof -
  obtain t1 w1 where x: "tui_exec_all E cmds t w = Some (t1, w1)"
    using assms(1) by (auto simp: tui_net_work_def split: option.splits)
  then have 1: "P (tui_engine t1)" by (rule keeps_exec_all) (use assms(2,3) in auto)
  obtain e w2 where pa: "poll_all E (tui_engine t1) w1 = Some (e, w2)"
    using assms(1) x by (auto simp: tui_net_work_def split: option.splits)
  note 2 = keeps_poll_all [OF this 1]
  obtain e3 w3 where tk: "tick E (probe_order H (calls w2)) e w2 = (e3, w3)" by fastforce
  note 3 = keeps_tick [OF 2 tk]
  from assms(1) x pa tk obtain sig e4 where "keep_alive E (tui_sig t1) (tui_relay t1) e3 tms w3 = Some (sig, e4, tms', w')"
    "t' = t1\<lparr>tui_engine := e4, tui_sig := sig\<rparr>"
    by (auto simp: tui_net_work_def split: option.splits)
  with keeps_keep_alive [OF this(1) 3] show ?thesis by simp
qed

end

section \<open>Consent\<close>

text \<open>\<open>X\<close> is the set of peers that the user has named.\<close>

definition consented :: "bytes set \<Rightarrow> Engine \<Rightarrow> bool" where
  "consented X e \<longleftrightarrow> (\<forall>p. to_hex p \<in> eng_outgoing e \<longrightarrow> p \<in> X) \<and> (\<forall>p. trust_of e p = Some Accepted \<longrightarrow> p \<in> X)"

fun grants :: "Label \<Rightarrow> bytes set" where
  "grants (Trusted p) = {p}"
| "grants (Requested p) = {p}"
| "grants (Decided p t) = (if t = Accepted then {p} else {})"
| "grants _ = {}"

lemma flow_of_sel: "fl_outgoing (flow_of e) = eng_outgoing e" "fl_trust (flow_of e) = trust_of e"
  by (simp_all add: flow_of_def)

lemma consented_frame: "consented X e \<Longrightarrow> flow_of e' = flow_of e \<Longrightarrow> consented X e'"
  unfolding consented_def by (metis flow_of_sel)

definition flow_consented :: "bytes set \<Rightarrow> Flow \<Rightarrow> bool" where
  "flow_consented X f \<longleftrightarrow> (\<forall>p. to_hex p \<in> fl_outgoing f \<longrightarrow> p \<in> X) \<and> (\<forall>p. fl_trust f p = Some Accepted \<longrightarrow> p \<in> X)"

lemma flow_consented_step:
  assumes "flow_step l f f'" "flow_consented X f" "l \<noteq> Loaded" "grants l \<subseteq> X"
  shows "flow_consented X f'"
proof -
  have "(to_hex p \<in> fl_outgoing f' \<longrightarrow> p \<in> X) \<and> (fl_trust f' p = Some Accepted \<longrightarrow> p \<in> X)" for p
  proof -
    from assms(2) have IH: "to_hex p \<in> fl_outgoing f \<longrightarrow> p \<in> X" "fl_trust f p = Some Accepted \<longrightarrow> p \<in> X"
      by (simp_all add: flow_consented_def)
    from assms(1) IH assms(3,4) show ?thesis
      by (cases rule: flow_step_elim) (auto split: if_splits option.splits)
  qed
  then show ?thesis by (simp add: flow_consented_def)
qed

lemma consented_flow_of: "consented X e \<longleftrightarrow> flow_consented X (flow_of e)"
  by (simp add: consented_def flow_consented_def flow_of_sel)

lemma consented_flow:
  assumes "consented X e" "flow_step l (flow_of e) (flow_of e')" "l \<noteq> Loaded" "grants l \<subseteq> X"
  shows "consented X e'"
  using flow_consented_step [OF assms(2) _ assms(3,4)] assms(1) unfolding consented_flow_of by blast

lemma consented_quiet [simp]:
  "consented X (e\<lparr>eng_socket := s\<rparr>) = consented X e" "consented X (on_message e) = consented X e"
  "consented X (on_contact_request e) = consented X e" "consented X (on_contact_response e) = consented X e"
  "consented X (set_relay r e) = consented X e"
  by (simp_all add: consented_def trust_of_def on_message_def on_contact_request_def on_contact_response_def set_relay_def)

lemma consented_new [simp]: "consented X (new_engine pk sk)"
  by (simp add: consented_def new_engine_def trust_of_def store_trust_of_def default_store_def)

interpretation con: engine_client E "consented X" "\<lambda>p. p \<in> X" for E X
proof
  fix e e' :: Engine and p q m :: bytes and g ep ep' w w' and ok :: bool and t order n s r
  assume c: "consented X e"
  note fr = consented_frame [OF c] and fl = consented_flow [OF c]
  show "consented X (e\<lparr>eng_socket := s\<rparr>)" "consented X (set_relay r e)" "consented X (on_message e)"
    "consented X (on_contact_request e)" "consented X (on_contact_response e)" using c by simp_all
  show "set_nickname E p n e w = (e', w') \<Longrightarrow> consented X e'"
    using fl [of "Named p"] set_nickname_refines by fastforce
  show "send E p m e w = (ok, e', w') \<Longrightarrow> consented X e'" using fr send_refines by blast
  show "p \<in> X \<Longrightarrow> send_contact_request E p ep g e w = (ok, e', w') \<Longrightarrow> consented X e'"
    using fr fl [of "Requested p"] send_contact_request_refines by fastforce
  show "p \<in> X \<Longrightarrow> accept_contact E p e w = (ok, e', w') \<Longrightarrow> consented X e'"
    using fr fl [of "Decided p Accepted"] decide_contact_refines unfolding accept_contact_def by fastforce
  show "reject_contact E p e w = (ok, e', w') \<Longrightarrow> consented X e'"
    using fr fl [of "Decided p Rejected"] decide_contact_refines unfolding reject_contact_def by fastforce
  show "consented X e'" if p: "poll E t e w = (ok, e', w')"
  proof -
    obtain l where "allows (DoPoll t) l" "flow_step l (flow_of e) (flow_of e')" using poll_refines [OF p] by blast
    then show ?thesis using fl [of l] by (cases l) auto
  qed
  show "engine_bind E ep e w = (ok, e', w') \<Longrightarrow> consented X e'" using fr quiet_refines(1) by blast
  show "announce_to E ep e w = (ok, e', w') \<Longrightarrow> consented X e'" using fr quiet_refines(2) by blast
  show "connect E p ep e w = (ep', e', w') \<Longrightarrow> consented X e'" using fr quiet_refines(3) by blast
  show "tick E order e w = (e', w') \<Longrightarrow> consented X e'" using fr quiet_refines(4) by blast
qed

lemma toy_accepts:
  assumes "eng_incoming e = {to_hex (pad 32 [2])}" "eng_sessions e = Map.empty"
    "eng_public e = pad 32 [1]" "eng_secret e = pad 64 [1]"
  shows "\<exists>ok e' w'. accept_contact toy_env (pad 32 [2]) e w = (ok, e', w') \<and> trust_of e' (pad 32 [2]) = Some Accepted"
proof -
  obtain ok e' w' where a: "accept_contact toy_env (pad 32 [2]) e w = (ok, e', w')" by (metis prod_cases3)
  have "ses_valid (new_session toy_env (eng_public e) (eng_secret e) (pad 32 [2]))"
    using assms(3,4) by (simp add: new_session_valid)
  then obtain s e1 where "ensure_session toy_env (pad 32 [2]) e = (Some s, e1)"
    using assms(2) by (simp add: ensure_session_def Let_def)
  from decide_contact_decided [OF a [unfolded accept_contact_def] _ this] assms(1)
  have "trust_of e' (pad 32 [2]) = Some Accepted" by (auto simp: decided_def decision_change_def trust_of_def)
  with a show ?thesis by blast
qed

section \<open>Identity and sessions\<close>

text \<open>The engine belongs to one key pair, and its tables are as \<open>EngineInv\<close> says.\<close>

definition engine_of :: "env \<Rightarrow> bytes \<Rightarrow> bytes \<Rightarrow> Engine \<Rightarrow> bool" where
  "engine_of E pk sk e \<longleftrightarrow> eng_public e = pk \<and> eng_secret e = sk \<and> sessions_ok E e \<and> requests_ok e"

lemma engine_of_step: "engine_of E pk sk e \<Longrightarrow> good_step E e w e' w' \<Longrightarrow> engine_of E pk sk e'"
  using session_step_ok unfolding engine_of_def good_step_def by (metis session_step_def)

lemma engine_of_fields:
  "engine_of E pk sk e \<Longrightarrow> eng_public e' = eng_public e \<Longrightarrow> eng_secret e' = eng_secret e \<Longrightarrow>
     eng_sessions e' = eng_sessions e \<Longrightarrow> eng_contacts e' = eng_contacts e \<Longrightarrow> eng_incoming e' = eng_incoming e \<Longrightarrow>
     engine_of E pk sk e'"
  by (auto simp: engine_of_def sessions_ok_def session_ok_def requests_ok_def)

interpretation own: engine_client E "engine_of E pk sk" "\<lambda>p. True" for E pk sk
proof
  fix e e' :: Engine and p m :: bytes and g ep ep' w w' and ok :: bool and t order n s r
  assume c: "engine_of E pk sk e"
  note st = engine_of_step [OF c] and fd = engine_of_fields [OF c]
  show "engine_of E pk sk (e\<lparr>eng_socket := s\<rparr>)" "engine_of E pk sk (set_relay r e)" "engine_of E pk sk (on_message e)"
    "engine_of E pk sk (on_contact_request e)" "engine_of E pk sk (on_contact_response e)"
    by (rule fd; simp add: set_relay_def on_message_def on_contact_request_def on_contact_response_def)+
  show "set_nickname E p n e w = (e', w') \<Longrightarrow> engine_of E pk sk e'" using st good_set_nickname by blast
  show "send E p m e w = (ok, e', w') \<Longrightarrow> engine_of E pk sk e'" using st good_send by blast
  show "send_contact_request E p ep g e w = (ok, e', w') \<Longrightarrow> engine_of E pk sk e'" using st good_send_contact_request by blast
  show "accept_contact E p e w = (ok, e', w') \<Longrightarrow> engine_of E pk sk e'"
    using st good_decide_contact unfolding accept_contact_def by blast
  show "reject_contact E p e w = (ok, e', w') \<Longrightarrow> engine_of E pk sk e'"
    using st good_decide_contact unfolding reject_contact_def by blast
  show "poll E t e w = (ok, e', w') \<Longrightarrow> engine_of E pk sk e'" using st good_poll by blast
  show "engine_bind E ep e w = (ok, e', w') \<Longrightarrow> engine_of E pk sk e'"
    by (rule fd) (auto simp: engine_bind_def split: prod.splits)
  show "announce_to E ep e w = (ok, e', w') \<Longrightarrow> engine_of E pk sk e'" using st good_announce by blast
  show "connect E p ep e w = (ep', e', w') \<Longrightarrow> engine_of E pk sk e'" using st good_connect by blast
  show "tick E order e w = (e', w') \<Longrightarrow> engine_of E pk sk e'" using st good_tick by blast
qed

end
