(* ===== verification/Consent.thy ===== *)
theory Consent
  imports Cli Frontend
begin

text \<open>
  Consent, from the keyboard to the contact list: the line client passes the engine's consent
  property on to what the user typed.  \<open>consented X e\<close> is the invariant, with \<open>X\<close> the peers
  named in the lines of the input.
\<close>

section \<open>The line client\<close>

text \<open>The peers that a list of lines names for the contact list.\<close>

definition added :: "string list \<Rightarrow> bytes set" where
  "added ls = {p. \<exists>line\<in>set ls. word 0 line = ''/add'' \<and> from_hex (word 2 line) = Some p}"

definition accepted_by_name :: "string list \<Rightarrow> bytes set" where
  "accepted_by_name ls = {p. \<exists>line\<in>set ls. word 0 line = ''/accept'' \<and>
     (from_hex (word 1 line) = Some p \<or> word 1 line = take 8 (to_hex p))}"

definition chosen :: "string list \<Rightarrow> bytes set" where
  "chosen ls = added ls \<union> accepted_by_name ls"

text \<open>Every name in use was given by an \<^verbatim>\<open>/add\<close> line or is the first eight digits of the peer's key.\<close>

definition names_ok :: "string list \<Rightarrow> ChatApp \<Rightarrow> bool" where
  "names_ok ls a \<longleftrightarrow> (\<forall>n p. app_name_to_pk a n = Some p \<longrightarrow> p \<in> added ls \<or> n = take 8 (to_hex p))"

definition app_ok :: "bytes set \<Rightarrow> string list \<Rightarrow> ChatApp \<Rightarrow> bool" where
  "app_ok C ls a \<longleftrightarrow> consented (C \<union> chosen ls) (app_engine a) \<and> names_ok ls a \<and> set (app_queue a) \<subseteq> set ls"

lemma app_okI: "consented (C \<union> chosen ls) (app_engine a') \<Longrightarrow> app_ok C ls a \<Longrightarrow>
    app_name_to_pk a' = app_name_to_pk a \<Longrightarrow> app_queue a' = app_queue a \<Longrightarrow> app_ok C ls a'"
  by (simp add: app_ok_def names_ok_def)

lemma app_ok_print [simp]: "app_ok C ls (print s a) = app_ok C ls a"
  by (simp add: app_ok_def names_ok_def)

lemma app_ok_current [simp]: "app_ok C ls (a\<lparr>app_current := p\<rparr>) = app_ok C ls a" "app_ok C ls (a\<lparr>app_running := b\<rparr>) = app_ok C ls a"
  by (simp_all add: app_ok_def names_ok_def)

lemma app_ok_engine:
  "app_ok C ls a \<Longrightarrow> consented (C \<union> chosen ls) e \<Longrightarrow> app_ok C ls (a\<lparr>app_engine := e\<rparr>)"
  "app_ok C ls a \<Longrightarrow> consented (C \<union> chosen ls) e \<Longrightarrow> app_ok C ls (a\<lparr>app_sig := c, app_engine := e\<rparr>)"
  by (simp_all add: app_ok_def names_ok_def)

lemma app_okD: "app_ok C ls a \<Longrightarrow> consented (C \<union> chosen ls) (app_engine a)"
  by (simp add: app_ok_def)

lemma app_deliver_ok: "app_ok C ls a \<Longrightarrow> app_deliver E p text a w = (a', w') \<Longrightarrow> app_ok C ls a'"
  by (auto simp: app_deliver_def Let_def split: prod.splits if_splits intro: app_ok_engine dest!: con.keeps_send [OF app_okD, rotated])

lemma app_resolve_chosen:
  assumes "app_ok C ls a" "app_resolve a t = Some p" "line \<in> set ls" "word 0 line = ''/accept''" "word 1 line = t"
  shows "p \<in> C \<union> chosen ls"
proof -
  have "p \<in> added ls \<or> t = take 8 (to_hex p) \<or> from_hex t = Some p"
    using assms(1,2) by (auto simp: app_resolve_def app_ok_def names_ok_def split: option.splits if_splits)
  then show ?thesis using assms(3-5) by (auto simp: chosen_def accepted_by_name_def)
qed
lemma cmd_msg_ok: "app_ok C ls a \<Longrightarrow> cmd_msg E args a w = (a', w') \<Longrightarrow> app_ok C ls a'"
  by (auto simp: cmd_msg_def Let_def split: prod.splits option.splits intro: app_deliver_ok [rotated])

lemma send_current_ok: "app_ok C ls a \<Longrightarrow> send_current E text a w = (a', w') \<Longrightarrow> app_ok C ls a'"
  by (auto simp: send_current_def split: if_splits intro: app_deliver_ok)

lemma cmd_register_ok: "app_ok C ls a \<Longrightarrow> cmd_register E a w = Some (a', w') \<Longrightarrow> app_ok C ls a'"
  by (auto simp: cmd_register_def split: option.splits prod.splits intro!: app_ok_engine(2) dest: con.keeps_over_engine [OF _ app_okD])

lemma print_peers_ok: "app_ok C ls a \<Longrightarrow> app_ok C ls (print_peers order a)"
  by (induction order arbitrary: a) (auto split: option.split)

lemma cmd_decide_ok:
  assumes "app_ok C ls a" "cmd_decide E args acc a w = (a', w')" "line \<in> set ls"
    and "args = snd (read_word line)" "acc \<longrightarrow> word 0 line = ''/accept''"
  shows "app_ok C ls a'"
proof (cases "app_resolve a (fst (read_word args))")
  case None
  then show ?thesis using assms(1,2) by (auto simp: cmd_decide_def Let_def)
next
  case (Some p)
  have w1: "word 1 line = fst (read_word args)" by (simp add: word_def assms(4))
  obtain ok e w1 where d: "(if acc then accept_contact E p (app_engine a) w else reject_contact E p (app_engine a) w) = (ok, e, w1)"
    by (metis prod_cases3)
  have "consented (C \<union> chosen ls) e"
  proof (cases acc)
    case True
    with app_resolve_chosen [OF assms(1) Some assms(3) _ w1] assms(5) d show ?thesis
      using con.keeps_accept [OF app_okD [OF assms(1)]] by simp
  next
    case False
    with d show ?thesis using con.keeps_reject [OF app_okD [OF assms(1)]] by simp
  qed
  with assms(1,2) Some d show ?thesis by (auto simp: cmd_decide_def Let_def intro!: app_ok_engine)
qed

lemma cmd_add_request_ok:
  assumes "app_ok C ls a" "cmd_add_request E p n a w = Some (a', w')" "p \<in> C \<union> chosen ls"
  shows "app_ok C ls a'"
proof (cases "app_sig a")
  case None
  then show ?thesis using assms con.keeps_request [OF app_okD [OF assms(1)] assms(3)]
    by (auto simp: cmd_add_request_def Let_def split: option.splits prod.splits intro!: app_ok_engine)
next
  case (Some c)
  then obtain r ep c' e w1 where
    s: "add_by_signaling E p (bytes_of_string (app_display_name a)) c (app_engine a) w = Some (r, ep, c', e, w1)"
    using assms(2) by (auto simp: cmd_add_request_def Let_def split: option.splits)
  note con.keeps_add [OF s app_okD [OF assms(1)] assms(3)]
  with assms(1,2) Some s show ?thesis by (simp add: cmd_add_request_def Let_def) (auto intro!: app_ok_engine)
qed

lemma cmd_add_ok:
  assumes "app_ok C ls a" "cmd_add E args a w = Some (a', w')" "line \<in> set ls"
    and "args = snd (read_word line)" "word 0 line = ''/add''"
  shows "app_ok C ls a'"
proof (cases "from_hex (fst (read_word (snd (read_word args))))")
  case None
  then show ?thesis using assms(1,2) by (auto simp: cmd_add_def split: prod.splits)
next
  case (Some p)
  have "word 2 line = fst (read_word (snd (read_word args)))" by (simp add: word_def assms(4) numeral_2_eq_2)
  with Some assms(3,5) have added: "p \<in> added ls" by (auto simp: added_def)
  obtain n rest where n: "read_word args = (n, rest)" by fastforce
  let ?b = "a\<lparr>app_name_to_pk := (app_name_to_pk a)(n \<mapsto> p), app_pk_to_name := (app_pk_to_name a)(to_hex p \<mapsto> n), app_current := p\<rparr>"
  have "app_ok C ls ?b" using assms(1) added by (auto simp: app_ok_def names_ok_def)
  moreover have "p \<in> C \<union> chosen ls" using added by (simp add: chosen_def)
  ultimately show ?thesis
    using assms(1,2) Some n cmd_add_request_ok [of C ls ?b E p n w] by (auto simp: cmd_add_def split: if_splits)
qed

lemma app_handle_ok:
  assumes "app_ok C ls a" "app_handle E H line a w = Some (a', w')" "line \<in> set ls"
  shows "app_ok C ls a'"
proof -
  obtain cmd args where r: "read_word line = (cmd, args)" by fastforce
  have w: "word 0 line = cmd" "args = snd (read_word line)" by (simp_all add: word_def r)
  have "app_ok C ls b" if h: "handle_command E H line a w = Some (b, v)" for b v
  proof -
    consider "cmd = ''/add''" | "cmd = ''/accept''" | "cmd = ''/reject''" | "cmd \<notin> {''/add'', ''/accept'', ''/reject''}" by blast
    then show ?thesis
    proof cases
      case 1
      with h r have "cmd_add E args a w = Some (b, v)" by (simp add: handle_command_def)
      from cmd_add_ok [OF assms(1) this assms(3) w(2)] w 1 show ?thesis by simp
    next
      case 2
      with h r have "cmd_decide E args True a w = (b, v)" by (simp add: handle_command_def)
      from cmd_decide_ok [OF assms(1) this assms(3) w(2)] w 2 show ?thesis by simp
    next
      case 3
      with h r have "cmd_decide E args False a w = (b, v)" by (simp add: handle_command_def)
      from cmd_decide_ok [OF assms(1) this assms(3) w(2)] show ?thesis by simp
    next
      case 4
      with h r assms(1) show ?thesis
        by (auto simp: handle_command_def cmd_peers_def print_peers_ok split: if_splits
            intro: cmd_register_ok cmd_msg_ok)
    qed
  qed
  with assms(1,2) show ?thesis
    by (auto simp: app_handle_def split: if_splits intro: send_current_ok)
qed

lemma app_handle_all_ok:
  "app_ok C ls a \<Longrightarrow> app_handle_all E H lines a w = Some (a', w') \<Longrightarrow> set lines \<subseteq> set ls \<Longrightarrow> app_ok C ls a'"
  by (induction lines arbitrary: a w) (auto split: option.splits dest: app_handle_ok)

lemma app_event_ok:
  assumes "app_ok C ls a" shows "app_ok C ls (app_event ev a)"
  using assms by (auto simp: app_event_def auto_alias_def app_ok_def names_ok_def Let_def split: Event.split option.split prod.split)

lemma fold_app_event_ok: "app_ok C ls a \<Longrightarrow> app_ok C ls (fold app_event evs a)"
  by (induction evs arbitrary: a) (simp_all add: app_event_ok)

lemma report_direct_paths_ok: "app_ok C ls a \<Longrightarrow> app_ok C ls (report_direct_paths order a)"
proof (induction order arbitrary: a)
  case (Cons n order)
  have "app_ok C ls (a\<lparr>app_direct_announced := s\<rparr>)" for s using Cons.prems by (simp add: app_ok_def names_ok_def)
  with Cons show ?case by (auto simp: Let_def split: option.split)
qed simp

lemma app_network_ok:
  assumes "app_ok C ls a" "app_network E H a tms w = Some (a', tms', w')"
  shows "app_ok C ls a'"
proof -
  obtain ok e w1 where p: "poll E 50 (app_engine a) w = (ok, e, w1)" by (metis prod_cases3)
  let ?b = "fold app_event (drop (length (eng_events (app_engine a))) (eng_events e)) (a\<lparr>app_engine := e\<rparr>)"
  have b: "app_ok C ls ?b"
    by (intro fold_app_event_ok app_ok_engine assms(1) con.keeps_poll [OF app_okD [OF assms(1)] p])
  obtain e2 w2 where t: "tick E (probe_order H (calls w1)) (app_engine ?b) w1 = (e2, w2)" by fastforce
  let ?c = "report_direct_paths (name_order H (calls w2)) (?b\<lparr>app_engine := e2\<rparr>)"
  have c: "app_ok C ls ?c"
    by (intro report_direct_paths_ok app_ok_engine b con.keeps_tick [OF app_okD [OF b] t])
  obtain sig e3 tms3 w3 where k: "keep_alive E (app_sig ?c) (app_relay ?c) (app_engine ?c) tms w2 = Some (sig, e3, tms3, w3)"
    using assms(2) by (auto simp: app_network_def app_poll_def p t Let_def split: option.splits)
  then have "a' = ?c\<lparr>app_sig := sig, app_engine := e3\<rparr>"
    using assms(2) by (simp add: app_network_def app_poll_def p t Let_def)
  with app_ok_engine(2) [OF c con.keeps_keep_alive [OF k app_okD [OF c]]] show ?thesis by simp
qed

lemma start_register_ok:
  "app_ok C ls a \<Longrightarrow> start_register E a w = Some (a', w') \<Longrightarrow> app_ok C ls a'"
  by (auto simp: start_register_def split: option.splits prod.splits
      intro!: app_ok_engine dest: con.keeps_over_engine [OF _ app_okD])

lemma start_relay_ok:
  assumes "app_ok C ls a" "start_relay E a w = (a', w')"
  shows "app_ok C ls a'"
proof (cases "app_relay a")
  case (Some r)
  obtain ok e w1 where an: "announce_to E r (set_relay r (app_engine a)) w = (ok, e, w1)" by (metis prod_cases3)
  have "consented (C \<union> chosen ls) (set_relay r (app_engine a))" using app_okD [OF assms(1)] by simp
  from con.keeps_announce [OF this an] assms an Some show ?thesis
    by (auto simp: start_relay_def intro!: app_ok_engine)
qed (use assms in \<open>simp add: start_relay_def\<close>)

lemma app_start_ok:
  assumes "app_ok C ls a" "app_start E a w = Some (ok, a', tms, w')"
  shows "app_ok C ls a'"
proof -
  let ?e = "on_contact_response (on_contact_request (on_message (app_engine a)))"
  obtain bound e w1 where b: "engine_bind E \<lparr>host = ''0.0.0.0'', port = 0\<rparr> ?e w = (bound, e, w1)" by (metis prod_cases3)
  have "consented (C \<union> chosen ls) e" using con.keeps_bind [OF _ b] app_okD [OF assms(1)] by simp
  then have e: "app_ok C ls (a\<lparr>app_engine := e\<rparr>)" by (rule app_ok_engine(1) [OF assms(1)])
  show ?thesis
  proof (cases bound)
    case False
    then show ?thesis using assms(2) b e by (auto simp: app_start_def Let_def)
  next
    case True
    with assms(2) b obtain a1 w2 where r: "start_register E (a\<lparr>app_engine := e\<rparr>) w1 = Some (a1, w2)"
      by (auto simp: app_start_def Let_def split: option.splits)
    obtain a2 w3 where l: "start_relay E a1 w2 = (a2, w3)" by fastforce
    from start_relay_ok [OF start_register_ok [OF e r] l] show ?thesis
      using assms(2) b r l True by (auto simp: app_start_def Let_def)
  qed
qed
section \<open>The two threads\<close>

definition sys_ok :: "bytes set \<Rightarrow> string list \<Rightarrow> ChatSys \<Rightarrow> bool" where
  "sys_ok C ls s \<longleftrightarrow> app_ok C ls (cs_app s) \<and> set (cs_stdin s) \<subseteq> set ls"

lemma sys_ok_step:
  assumes "chat_step E H s s'" "sys_ok C ls s"
  shows "sys_ok C ls s'"
  using assms(1)
proof (cases rule: chat_step.cases)
  case (read_line line rest)
  then show ?thesis using assms(2) by (auto simp: sys_ok_def app_submit_def app_ok_def names_ok_def)
next
  case (read_quit rest)
  then show ?thesis using assms(2) by (auto simp: sys_ok_def app_stop_def)
next
  case read_end
  then show ?thesis using assms(2) by (auto simp: sys_ok_def app_stop_def)
next
  case (net_start ok a tms w)
  then show ?thesis using assms(2) app_start_ok by (auto simp: sys_ok_def)
next
  case (net_lines a w)
  have "app_ok C ls (cs_app s\<lparr>app_queue := []\<rparr>)" "set (app_queue (cs_app s)) \<subseteq> set ls"
    using assms(2) by (simp_all add: sys_ok_def app_ok_def names_ok_def)
  with net_lines assms(2) app_handle_all_ok show ?thesis by (auto simp: sys_ok_def app_lines_def)
next
  case (net_poll a tms w)
  then show ?thesis using assms(2) app_network_ok by (auto simp: sys_ok_def)
next
  case net_exit
  then show ?thesis using assms(2) by (simp add: sys_ok_def)
qed

lemma sys_ok_steps: "(chat_step E H)\<^sup>*\<^sup>* s s' \<Longrightarrow> sys_ok C ls s \<Longrightarrow> sys_ok C ls s'"
  by (induction rule: rtranclp_induct) (auto intro: sys_ok_step)

section \<open>Properties\<close>

text \<open>
  (C4) No contact without the user's word: whatever the network delivers and however its two threads
  interleave, the line client accepts a new contact only if the input has a line \<^verbatim>\<open>/add\<close> with
  the peer's key or a line \<^verbatim>\<open>/accept\<close> with its key or the first eight hex digits of its key;
  every other accepted contact was accepted when the client came up.
\<close>

theorem contact_needs_user:
  assumes "(chat_step E H)\<^sup>*\<^sup>* (chat_system a input w) s"
    and "eng_outgoing (app_engine a) = {}" "app_name_to_pk a = Map.empty" "app_queue a = []"
    and "trust_of (app_engine (cs_app s)) p = Some Accepted"
  shows "trust_of (app_engine a) p = Some Accepted \<or> (\<exists>line\<in>set input.
    word 0 line = ''/add'' \<and> from_hex (word 2 line) = Some p \<or>
    word 0 line = ''/accept'' \<and> (from_hex (word 1 line) = Some p \<or> word 1 line = take 8 (to_hex p)))"
proof -
  let ?C = "{p. trust_of (app_engine a) p = Some Accepted}"
  have "sys_ok ?C input (chat_system a input w)"
    using assms(2-4) by (simp add: sys_ok_def chat_system_def app_ok_def names_ok_def consented_def)
  from sys_ok_steps [OF assms(1) this] have "consented (?C \<union> chosen input) (app_engine (cs_app s))"
    by (simp add: sys_ok_def app_ok_def)
  with assms(5) show ?thesis by (auto simp: consented_def chosen_def added_def accepted_by_name_def)
qed

definition toy_waiting :: ChatApp where
  "toy_waiting = toy_app\<lparr>app_relay := None,
     app_engine := (new_engine (pad 32 [1]) (pad 64 [1]))\<lparr>eng_incoming := {to_hex (pad 32 [2])}\<rparr>\<rparr>"

definition toy_accept :: string where
  "toy_accept = ''/accept '' @ to_hex (pad 32 [2])"

lemma toy_accept_words: "read_word toy_accept = (''/accept'', CHR '' '' # to_hex (pad 32 [2]))"
    "read_word (CHR '' '' # to_hex (pad 32 [2])) = (to_hex (pad 32 [2]), [])" "toy_accept ! 0 = CHR ''/''" "toy_accept \<noteq> []"
proof -
  have "to_hex (pad 32 [2]) \<noteq> []" by (metis length_pad length_to_hex list.size(3) mult_is_0 zero_neq_numeral)
  from read_word_append [OF hex_no_space this, of "[]"]
  show "read_word (CHR '' '' # to_hex (pad 32 [2])) = (to_hex (pad 32 [2]), [])" by (simp add: read_word_space is_space_def)
  show "read_word toy_accept = (''/accept'', CHR '' '' # to_hex (pad 32 [2]))"
    using read_word_append [of "''/accept''" "CHR '' '' # to_hex (pad 32 [2])"] by (simp add: toy_accept_def is_space_def)
qed (simp_all add: toy_accept_def)

lemma toy_waiting_starts:
  "\<exists>a tms w. app_start toy_env (app_submit toy_accept toy_waiting) toy_world = Some (True, a, tms, w) \<and>
     app_queue a = [toy_accept] \<and> app_running a \<and> app_name_to_pk a = Map.empty \<and>
     eng_incoming (app_engine a) = {to_hex (pad 32 [2])} \<and> eng_sessions (app_engine a) = Map.empty \<and>
     eng_public (app_engine a) = pad 32 [1] \<and> eng_secret (app_engine a) = pad 64 [1]"
  by (simp add: app_start_def start_register_def start_relay_def engine_bind_def socket_bind_def socket_close_def
      resolve_def open_fd_def is_open_def toy_waiting_def toy_app_def new_chat_app_def app_submit_def new_engine_def
      default_socket_def on_message_def on_contact_request_def on_contact_response_def Let_def split: prod.split)


theorem contact_needs_user_witness:
  "\<exists>s. (chat_step toy_env toy_host)\<^sup>*\<^sup>* (chat_system toy_waiting [toy_accept] toy_world) s \<and>
     trust_of (app_engine toy_waiting) (pad 32 [2]) = None \<and>
     trust_of (app_engine (cs_app s)) (pad 32 [2]) = Some Accepted \<and> from_hex (word 1 toy_accept) = Some (pad 32 [2])"
proof -
  let ?s0 = "chat_system toy_waiting [toy_accept] toy_world"
  obtain a tms w where st: "app_start toy_env (app_submit toy_accept toy_waiting) toy_world = Some (True, a, tms, w)"
    and a: "app_queue a = [toy_accept]" "app_running a" "app_name_to_pk a = Map.empty"
      "eng_incoming (app_engine a) = {to_hex (pad 32 [2])}" "eng_sessions (app_engine a) = Map.empty"
      "eng_public (app_engine a) = pad 32 [1]" "eng_secret (app_engine a) = pad 64 [1]"
    using toy_waiting_starts by blast
  obtain ok e w' where ac: "accept_contact toy_env (pad 32 [2]) (app_engine a) w = (ok, e, w')"
    and t: "trust_of e (pad 32 [2]) = Some Accepted" using toy_accepts [OF a(4-7)] by blast
  obtain b where ln: "app_lines toy_env toy_host a w = Some (b, w')" and b: "app_engine b = e"
    using ac a(1,3)
    by (auto simp: app_lines_def app_handle_def handle_command_def cmd_decide_def app_resolve_def toy_accept_words
        from_hex_to_hex_eq Let_def)
  let ?s1 = "?s0\<lparr>cs_app := app_submit toy_accept (cs_app ?s0), cs_stdin := []\<rparr>"
  let ?s2 = "?s1\<lparr>cs_app := a, cs_timers := tms, cs_world := w, cs_net := (if True then Looping else Exited)\<rparr>"
  let ?s3 = "?s2\<lparr>cs_app := b, cs_world := w', cs_net := Polling\<rparr>"
  have "chat_step toy_env toy_host ?s0 ?s1"
    by (rule chat_step.read_line) (simp_all add: chat_system_def toy_accept_def)
  moreover have "chat_step toy_env toy_host ?s1 ?s2"
    by (rule chat_step.net_start) (simp_all add: chat_system_def st)
  moreover have "chat_step toy_env toy_host ?s2 ?s3"
    by (rule chat_step.net_lines) (simp_all add: a ln)
  ultimately have r: "(chat_step toy_env toy_host)\<^sup>*\<^sup>* ?s0 ?s3"
    by (blast intro: rtranclp.rtrancl_into_rtrancl rtranclp.rtrancl_refl)
  have init: "eng_outgoing (app_engine toy_waiting) = {}" "app_name_to_pk toy_waiting = Map.empty" "app_queue toy_waiting = []"
    "trust_of (app_engine toy_waiting) (pad 32 [2]) = None"
    by (simp_all add: toy_waiting_def toy_app_def new_chat_app_def new_engine_def trust_of_def store_trust_of_def
        default_store_def Let_def)
  from contact_needs_user [OF r init(1-3), of "pad 32 [2]"] t b init(4) r
  show ?thesis
    by (intro exI [of _ ?s3]) (auto simp: word_def toy_accept_words from_hex_to_hex_eq)
qed
end
