(* ===== verification/TuiConsent.thy ===== *)
theory TuiConsent
  imports Frontend EndToEnd
begin

text \<open>
  Consent in the full-screen client: every contact that becomes accepted while it runs was asked
  for by a key, with the screen as the user saw it.
\<close>

section \<open>Keys\<close>

text \<open>
  Key \<open>ch\<close> asks for peer \<open>p\<close>: Enter on a line \<^verbatim>\<open>/add\<close> with the peer's key, or, with a request of
  that peer selected, Enter on a line \<^verbatim>\<open>/accept\<close> or the key \<^verbatim>\<open>a\<close> on the empty line.
\<close>

definition asks :: "host \<Rightarrow> Tui \<Rightarrow> int \<Rightarrow> bytes \<Rightarrow> bool" where
  "asks H t ch p \<longleftrightarrow>
     (ch = 10 \<or> ch = KEY_ENTER H) \<and> word 0 (tui_input t) = ''/add'' \<and> tui_from_hex (word 2 (tui_input t)) = Some p \<or>
     ((ch = 10 \<or> ch = KEY_ENTER H) \<and> word 0 (tui_input t) = ''/accept'' \<or> ch = 97 \<and> tui_input t = []) \<and>
     (\<exists>it. selected_item t = Some it \<and> it_is_request it \<and> it_pk it = p)"

lemma admits_built:
  "admits (''/send '' @ s) p = False" "admits (''/reject '' @ s) p = False"
  "admits (''/accept '' @ to_hex pk) p \<longleftrightarrow> p = pk"
proof -
  show "admits (''/send '' @ s) p = False" "admits (''/reject '' @ s) p = False"
    using read_word_cmd by (simp_all add: admits_def word_def)
  have "read_word (CHR '' '' # to_hex pk) = (to_hex pk, [])"
  proof (cases "pk = []")
    case True
    then show ?thesis by (simp add: read_word_def to_hex_def is_space_def)
  qed (use read_word_hex [of pk "[]"] in simp)
  then have "word 0 (''/accept '' @ to_hex pk) = ''/accept''" "word 1 (''/accept '' @ to_hex pk) = to_hex pk"
    using read_word_cmd(2) [of "to_hex pk"] by (simp_all add: word_def)
  then show "admits (''/accept '' @ to_hex pk) p \<longleftrightarrow> p = pk"
    by (auto simp: admits_def tui_from_hex_eq from_hex_to_hex_eq)
qed

text \<open>A key leaves the engine alone, and queues at most commands that admit who it asks for.\<close>

definition key_step :: "(bytes \<Rightarrow> bool) \<Rightarrow> Tui \<Rightarrow> Tui \<Rightarrow> bool" where
  "key_step A t t' \<longleftrightarrow> tui_engine t' = tui_engine t \<and>
     (\<exists>cs. tui_queue t' = tui_queue t @ cs \<and> (\<forall>c\<in>set cs. \<forall>p. admits c p \<longrightarrow> A p))"

lemma key_step_quiet: "tui_engine t' = tui_engine t \<Longrightarrow> tui_queue t' = tui_queue t \<Longrightarrow> key_step A t t'"
  by (simp add: key_step_def)

lemma key_step_submit:
  "tui_engine t' = tui_engine t \<Longrightarrow> tui_queue t' = tui_queue t \<Longrightarrow> (\<And>p. admits c p \<Longrightarrow> A p) \<Longrightarrow> key_step A t (tui_submit c t')"
  by (auto simp: key_step_def tui_submit_def)

lemma key_step_if: "(c \<Longrightarrow> key_step A t a) \<Longrightarrow> (\<not> c \<Longrightarrow> key_step A t b) \<Longrightarrow> key_step A t (if c then a else b)"
  by simp

lemma key_step_option:
  "key_step A t a \<Longrightarrow> (\<And>x. v = Some x \<Longrightarrow> key_step A t (f x)) \<Longrightarrow> key_step A t (case v of None \<Rightarrow> a | Some x \<Rightarrow> f x)"
  by (cases v) simp_all

lemma handle_enter_key_step:
  assumes "ch = 10 \<or> ch = KEY_ENTER H"
  shows "key_step (asks H t ch) t (handle_enter t)"
proof -
  let ?line = "tui_input t" and ?t = "t\<lparr>tui_input := []\<rparr>"
  have sel: "selected_item ?t = selected_item t" by (simp add: selected_item_def)
  have w0: "word 0 ?line = fst (read_word ?line)" by (simp add: word_def)
  have fl: "key_step (asks H t ch) t (?t\<lparr>tui_flash := s\<rparr>)" for s by (rule key_step_quiet) simp_all
  consider "?line = []" | "?line \<noteq> []" "?line ! 0 \<noteq> CHR ''/''"
    | "?line \<noteq> []" "?line ! 0 = CHR ''/''" "fst (read_word ?line) = ''/accept'' \<or> fst (read_word ?line) = ''/reject''"
    | "?line \<noteq> []" "?line ! 0 = CHR ''/''" "fst (read_word ?line) \<noteq> ''/accept''" "fst (read_word ?line) \<noteq> ''/reject''" by blast
  then show ?thesis
  proof cases
    case 1
    then show ?thesis by (intro key_step_quiet) (simp_all add: handle_enter_def)
  next
    case 2
    have "key_step (asks H t ch) t (tui_submit (''/send '' @ s) ?t)" for s
      by (rule key_step_submit) (use admits_built in simp_all)
    with 2 fl show ?thesis unfolding handle_enter_def Let_def sel by (simp split: option.split)
  next
    case 3
    have "key_step (asks H t ch) t (tui_submit (fst (read_word ?line) @ '' '' @ to_hex (it_pk it)) ?t)"
      if "selected_item t = Some it" "it_is_request it" for it
    proof (rule key_step_submit)
      fix p assume a: "admits (fst (read_word ?line) @ '' '' @ to_hex (it_pk it)) p"
      with 3(3) admits_built(2) [of "to_hex (it_pk it)" p] have c: "fst (read_word ?line) = ''/accept''" by auto
      with a admits_built(3) [of "it_pk it" p] have "p = it_pk it" by simp
      with c that assms w0 show "asks H t ch p" unfolding asks_def by auto
    qed simp_all
    with 3 fl show ?thesis unfolding handle_enter_def Let_def sel by (simp split: option.split)
  next
    case 4
    have "key_step (asks H t ch) t (tui_submit ?line ?t)"
      by (rule key_step_submit) (use 4 assms w0 in \<open>auto simp: admits_def asks_def\<close>)
    with 4 show ?thesis by (simp add: handle_enter_def Let_def)
  qed
qed

lemma on_key_step: "key_step (asks H t ch) t (on_key H ch t)"
proof -
  have ty: "key_step (asks H t ch) t (type_key ch t)" by (rule key_step_quiet) (simp_all add: type_key_def)
  have dec: "key_step (asks H t ch) t (tui_submit ((if ch = 97 then ''/accept '' else ''/reject '') @ to_hex (it_pk it)) t)"
    if "selected_item t = Some it" "it_is_request it" "tui_input t = []" for it
  proof (rule key_step_submit)
    fix p assume a: "admits ((if ch = 97 then ''/accept '' else ''/reject '') @ to_hex (it_pk it)) p"
    with admits_built(2) [of "to_hex (it_pk it)" p] have "ch = 97" by (auto split: if_splits)
    with a admits_built(3) [of "it_pk it" p] that show "asks H t ch p" by (simp add: asks_def)
  qed simp_all
  have q: "key_step (asks H t ch) t (t\<lparr>tui_selected := i, tui_scroll := j\<rparr>)" "key_step (asks H t ch) t (t\<lparr>tui_scroll := j\<rparr>)"
    "key_step (asks H t ch) t (t\<lparr>tui_input := s\<rparr>)" "key_step (asks H t ch) t t" for i j s
    by (rule key_step_quiet; simp)+
  show ?thesis
    unfolding on_key_def
    by (intro key_step_if key_step_option q ty dec handle_enter_key_step) simp_all
qed

section \<open>Steps keep consent\<close>

lemma build_snapshot_engine:
  "build_snapshot E H srt t w = (t', w') \<Longrightarrow> tui_engine t' = tui_engine t \<and> tui_queue t' = tui_queue t"
  using build_snapshot_items(4,6) by blast

lemma exec_queue:
  "do_add E nm hex t w = Some (t', w') \<Longrightarrow> tui_queue t' = tui_queue t"
  "do_decide E p acc t w = (t', w') \<Longrightarrow> tui_queue t' = tui_queue t"
  "do_send E p text t w = (t', w') \<Longrightarrow> tui_queue t' = tui_queue t"
  by (auto simp: do_add_def do_decide_def do_send_def Let_def split: option.splits prod.splits if_splits)

lemma tui_exec_queue:
  assumes "tui_exec E c t w = Some (t', w')"
  shows "tui_queue t' = tui_queue t"
proof -
  obtain cmd rest nm rest2 where r: "read_word c = (cmd, rest)" "read_word rest = (nm, rest2)" by (metis prod.collapse)
  consider "cmd = ''/add''" | "cmd = ''/accept'' \<or> cmd = ''/reject''" | "cmd = ''/send''"
    | "cmd \<notin> {''/add'', ''/accept'', ''/reject'', ''/send''}" by blast
  then show ?thesis
  proof cases
    case 1
    with assms r show ?thesis by (simp add: tui_exec_def exec_queue(1))
  next
    case 2
    with assms r show ?thesis by (auto simp: tui_exec_def split: option.splits intro: exec_queue(2))
  next
    case 3
    with assms r show ?thesis by (simp add: tui_exec_def Let_def split: option.splits) (metis exec_queue(3))
  next
    case 4
    with assms r show ?thesis by (auto simp: tui_exec_def split: if_splits)
  qed
qed

lemma tui_exec_all_queue: "tui_exec_all E cs t w = Some (t', w') \<Longrightarrow> tui_queue t' = tui_queue t"
  by (induction cs arbitrary: t w) (auto split: option.splits dest: tui_exec_queue)

lemma net_work_queue: "tui_net_work E H cmds t tms w = Some (t', tms', w') \<Longrightarrow> tui_queue t' = tui_queue t"
  by (auto simp: tui_net_work_def split: option.splits prod.splits dest: tui_exec_all_queue)

lemma consented_mono: "consented X e \<Longrightarrow> X \<subseteq> Y \<Longrightarrow> consented Y e"
  by (auto simp: consented_def)

text \<open>\<open>X\<close> covers the accepted contacts, the open requests of ours, and every command on its way.\<close>

fun taken :: "NetThread \<Rightarrow> string list" where
  "taken (NetTaken cmds) = cmds"
| "taken _ = []"

definition tui_sys :: "bytes set \<Rightarrow> TuiSys \<Rightarrow> bool" where
  "tui_sys X s \<longleftrightarrow> consented X (tui_engine (ts_tui s)) \<and>
     (\<forall>c\<in>set (tui_queue (ts_tui s)) \<union> set (taken (ts_net s)). \<forall>p. admits c p \<longrightarrow> p \<in> X)"

lemma tui_sys_mono: "tui_sys X s \<Longrightarrow> X \<subseteq> Y \<Longrightarrow> tui_sys Y s"
  unfolding tui_sys_def using consented_mono by blast

text \<open>The peers asked for by the given keys.\<close>

definition asked_by :: "host \<Rightarrow> (Tui \<times> int) list \<Rightarrow> bytes set" where
  "asked_by H ks = {p. \<exists>(t, ch)\<in>set ks. asks H t ch p}"

lemma tui_sys_step:
  assumes "tui_step E H srt s k s'" "tui_sys X s"
  shows "tui_sys (X \<union> asked_by H k) s'"
  using assms(1)
proof cases
  case (ui_show t w rows cols)
  from build_snapshot_engine [OF ui_show(5)] assms(2) have "tui_sys X s'" by (simp add: ui_show tui_sys_def)
  then show ?thesis by (rule tui_sys_mono) simp
next
  case (ui_key ch)
  from on_key_step [of H "ts_tui s" ch] obtain cs where q: "tui_engine (on_key H ch (ts_tui s)) = tui_engine (ts_tui s)"
    "tui_queue (on_key H ch (ts_tui s)) = tui_queue (ts_tui s) @ cs" "\<forall>c\<in>set cs. \<forall>p. admits c p \<longrightarrow> asks H (ts_tui s) ch p"
    unfolding key_step_def by blast
  have "tui_sys (X \<union> asked_by H k) s" using assms(2) tui_sys_mono by blast
  with q show ?thesis by (auto simp: ui_key tui_sys_def asked_by_def)
next
  case (net_take cmds t)
  then have "tui_sys X s'" using assms(2) by (auto simp: tui_sys_def tui_take_def)
  then show ?thesis by (rule tui_sys_mono) simp
next
  case (net_work cmds t tms w)
  have "\<And>c p. c \<in> set cmds \<Longrightarrow> admits c p \<Longrightarrow> p \<in> X" "consented X (tui_engine (ts_tui s))"
    using assms(2) net_work by (auto simp: tui_sys_def)
  with con.keeps_net_work [OF net_work(4)] have "consented X (tui_engine t)" by blast
  then have "tui_sys X s'" using assms(2) net_work_queue [OF net_work(4)] net_work(2) by (auto simp: tui_sys_def)
  then show ?thesis by (rule tui_sys_mono) simp
next
  case net_begin
  then have "tui_sys X s'" using assms(2) by (simp add: tui_sys_def)
  then show ?thesis by (rule tui_sys_mono) simp
next
  case net_end
  then have "tui_sys X s'" using assms(2) by (simp add: tui_sys_def)
  then show ?thesis by (rule tui_sys_mono) simp
next
  case ui_timeout
  then have "tui_sys X s'" using assms(2) by (simp add: tui_sys_def)
  then show ?thesis by (rule tui_sys_mono) simp
next
  case ui_end
  then have "tui_sys X s'" using assms(2) by (simp add: tui_sys_def)
  then show ?thesis by (rule tui_sys_mono) simp
qed

lemma asked_by_append: "asked_by H (ks @ k) = asked_by H ks \<union> asked_by H k"
  by (auto simp: asked_by_def)

lemma tui_sys_reach: "tui_reach E H srt s0 ks s \<Longrightarrow> tui_sys X s0 \<Longrightarrow> tui_sys (X \<union> asked_by H ks) s"
proof (induction rule: tui_reach.induct)
  case start
  then show ?case by (rule tui_sys_mono) simp
next
  case (step ks s k s')
  from tui_sys_step [OF step.hyps(2) step.IH [OF step.prems]] show ?case by (simp add: asked_by_append Un_assoc)
qed

section \<open>Properties\<close>

text \<open>
  (C5) No contact without a key: in every state the two threads of the full-screen client reach, running or
  ended, whatever the network delivers and in whatever order their critical sections and the keys come, a contact that
  was not accepted when the threads began is accepted only if the user asked for it by a key: among the
  keys pressed so far there is one pressed while that peer's request was the selected item of the snapshot on the
  screen (which may be older than the engine's state), namely \<^verbatim>\<open>a\<close> on the empty line or Enter on \<^verbatim>\<open>/accept\<close>, or one that
  was Enter on a line \<^verbatim>\<open>/add\<close> with the peer's key.
\<close>

theorem tui_contact_needs_key:
  assumes "tui_reach E H srt (tui_threads t w) ks s"
    and "eng_outgoing (tui_engine t) = {}" "tui_queue t = []"
    and "trust_of (tui_engine (ts_tui s)) p = Some Accepted"
  shows "trust_of (tui_engine t) p = Some Accepted \<or>
    (\<exists>(screen, ch)\<in>set ks.
       let enter = (ch = 10 \<or> ch = KEY_ENTER H); line = tui_input screen
       in enter \<and> word 0 line = ''/add'' \<and> tui_from_hex (word 2 line) = Some p \<or>
          (enter \<and> word 0 line = ''/accept'' \<or> ch = 97 \<and> line = []) \<and>
          (\<exists>it. selected_item screen = Some it \<and> it_is_request it \<and> it_pk it = p))"
proof -
  let ?C = "{p. trust_of (tui_engine t) p = Some Accepted}"
  have "tui_sys ?C (tui_threads t w)" using assms(2,3) by (simp add: tui_sys_def tui_threads_def consented_def)
  from tui_sys_reach [OF assms(1) this] have "p \<in> ?C \<union> asked_by H ks"
    using assms(4) by (auto simp: tui_sys_def consented_def)
  then show ?thesis unfolding asked_by_def asks_def Let_def by blast
qed

text \<open>The engine's invariant along the steps.\<close>

lemma tui_step_own:
  "tui_step E H srt s k s' \<Longrightarrow> engine_of E pk sk (tui_engine (ts_tui s)) \<Longrightarrow> engine_of E pk sk (tui_engine (ts_tui s'))"
proof (induction rule: tui_step.induct)
  case (ui_show s t w rows cols)
  then show ?case using build_snapshot_engine by fastforce
next
  case (ui_key s ch)
  then show ?case using on_key_step [of H "ts_tui s" ch] by (auto simp: key_step_def)
next
  case (net_take s cmds t)
  then show ?case by (auto simp: tui_take_def)
next
  case (net_work s cmds t tms w)
  then show ?case using own.keeps_net_work by fastforce
qed simp_all

lemma tui_reach_own:
  "tui_reach E H srt s0 ks s \<Longrightarrow> engine_of E pk sk (tui_engine (ts_tui s0)) \<Longrightarrow> engine_of E pk sk (tui_engine (ts_tui s))"
  by (induction rule: tui_reach.induct) (auto dest: tui_step_own)

text \<open>
  (C25) What is shown can be decided: a request on the screen of a client that came up with a sound engine,
  after any steps of its two threads, is settled by the accept or reject command, unless
  no key can be agreed with the peer: the peer's trust becomes the decision and the
  request leaves the list, also when the answer cannot be sent.
\<close>

theorem shown_request_decidable:
  assumes "engine_of E pk sk (tui_engine t)" "newest_first srt"
    and "tui_reach E H srt (tui_threads t w) ks u" "build_snapshot E H srt (ts_tui u) w' = (screen, w1)"
    and "it \<in> set (tui_items screen)" "it_is_request it" "agree_shared_key E sk (it_pk it) \<noteq> None"
    and "do_decide E (it_pk it) acc screen v = (t', v')"
  shows "trust_of (tui_engine t') (it_pk it) = Some (if acc then Accepted else Rejected) \<and>
    it_pk it \<notin> q_peer ` set (st_requests (eng_contacts (tui_engine t')))"
proof -
  have own: "engine_of E pk sk (tui_engine screen)"
    using tui_reach_own [OF assms(3)] assms(1) build_snapshot_engine [OF assms(4)] by (simp add: tui_threads_def)
  note items = build_snapshot_items [OF assms(4)]
  obtain q where q: "q \<in> set (st_requests (eng_contacts (tui_engine screen)))" "it_pk it = q_peer q"
    using assms(2,5,6) items(1,4) by (auto simp: newest_first_set)
  then have inc: "to_hex (it_pk it) \<in> eng_incoming (tui_engine screen)"
    using own by (auto simp: engine_of_def requests_ok_def)
  obtain s where "session_for E (tui_engine screen) (it_pk it) s"
    using session_for_exists [of E "tui_engine screen" "it_pk it"] own assms(7) by (auto simp: engine_of_def)
  note en = session_for_ensure [OF this]
  let ?t = "if acc then Accepted else Rejected" and ?d = "if acc then kAccept else kReject"
  obtain ok where d: "decide_contact E ?t ?d (it_pk it) (tui_engine screen) v = (ok, tui_engine t', v')"
    using assms(8) by (auto simp: do_decide_def accept_contact_def reject_contact_def split: prod.splits if_splits)
  from decide_contact_decided [OF d inc en] obtain st where
    "decision_change (it_pk it) ?t (eng_contacts (tui_engine screen)) st" "eng_contacts (tui_engine t') = st"
    by (auto simp: decided_def)
  then show ?thesis by (auto simp: decision_change_def trust_of_def)
qed

text \<open>A pending request.\<close>

definition toy_request :: Request where
  "toy_request = \<lparr>q_peer = pad 32 [2], q_greeting = [], q_timestamp = 0\<rparr>"

definition toy_asked :: Tui where
  "toy_asked = (new_tui toy_env \<lparr>public_key = pad 32 [1], secret_key = pad 64 [1]\<rparr> None None ''me'' [] [])
     \<lparr>tui_engine := (new_engine (pad 32 [1]) (pad 64 [1]))\<lparr>eng_incoming := {to_hex (pad 32 [2])},
        eng_contacts := default_store\<lparr>st_requests := [toy_request]\<rparr>\<rparr>\<rparr>"

lemma toy_snapshot:
  assumes "eng_contacts (tui_engine t) = default_store\<lparr>st_requests := [toy_request]\<rparr>" "tui_selected t = 0"
  obtains t' where "build_snapshot toy_env toy_host by_age t w = (t', w)"
    "selected_item t' = Some (request_item (tui_engine t) toy_request)" "tui_selected t' = 0"
    "tui_engine t' = tui_engine t" "tui_input t' = tui_input t" "tui_queue t' = tui_queue t"
    "tui_sig t' = tui_sig t" "tui_relay t' = tui_relay t" "tui_running t' = tui_running t"
  using assms
  by (simp add: build_snapshot_def by_age_def default_store_def clamp_selection_def selected_item_def Let_def)

lemma toy_net_rest:
  assumes "tui_exec_all toy_env cmds t w = Some (t1, w1)" "tui_sig t1 = None" "tui_relay t1 = None"
  shows "\<exists>w'. tui_net_work toy_env toy_host cmds t tms w = Some (t1, tms, w')"
proof -
  have r: "\<exists>v. receive toy_env s 0 n w = (None, v)" for s n w by (simp add: receive_def Let_def)
  have "\<exists>v. poll toy_env 0 e w = (False, e, v)" for e w
    using r [of "eng_socket e" kReceiveBufferSize w] by (auto simp: poll_def)
  then obtain v where "poll toy_env 0 (tui_engine t1) w1 = (False, tui_engine t1, v)" by blast
  then have p: "poll_all toy_env (tui_engine t1) w1 = Some (tui_engine t1, v)"
    by (simp add: poll_all.simps [of toy_env "tui_engine t1" w1])
  show ?thesis
    using assms p by (simp add: tui_net_work_def tick_def keep_alive_def toy_host_def Let_def)
qed

text \<open>The request is shown, the key \<^verbatim>\<open>a\<close> is pressed, and the network thread takes the command and executes it.\<close>

theorem tui_contact_needs_key_witness:
  "\<exists>screen s. tui_reach toy_env toy_host by_age (tui_threads toy_asked toy_world) [(screen, 97)] s \<and>
     trust_of (tui_engine toy_asked) (pad 32 [2]) = None \<and> trust_of (tui_engine (ts_tui s)) (pad 32 [2]) = Some Accepted \<and>
     (\<exists>it. selected_item screen = Some it \<and> it_is_request it \<and> it_pk it = pad 32 [2])"
proof -
  let ?p = "pad 32 [2] :: bytes" and ?H = toy_host and ?s0 = "tui_threads toy_asked toy_world"
  let ?cmd = "''/accept '' @ to_hex ?p"
  have st0: "eng_contacts (tui_engine toy_asked) = default_store\<lparr>st_requests := [toy_request]\<rparr>"
    by (simp add: toy_asked_def)
  obtain t1 where 1: "build_snapshot toy_env ?H by_age toy_asked toy_world = (t1, toy_world)"
    "selected_item t1 = Some (request_item (tui_engine toy_asked) toy_request)"
    "tui_engine t1 = tui_engine toy_asked" "tui_input t1 = []" "tui_queue t1 = []"
    "tui_sig t1 = None" "tui_relay t1 = None" "tui_running t1"
    by (rule toy_snapshot [OF st0, of toy_world]) (simp_all add: toy_asked_def new_tui_def Let_def)
  define t2 where "t2 = on_key ?H 97 t1"
  have t2: "t2 = tui_submit ?cmd t1"
    using 1(2,4) by (simp add: t2_def on_key_def toy_host_def toy_request_def)
  have "eng_incoming (tui_engine toy_asked) = {to_hex ?p}" "eng_sessions (tui_engine toy_asked) = Map.empty"
    "eng_public (tui_engine toy_asked) = pad 32 [1]" "eng_secret (tui_engine toy_asked) = pad 64 [1]"
    by (simp_all add: toy_asked_def new_engine_def)
  from toy_accepts [OF this, of "next_call toy_world"] obtain ok e w1 where
    a: "accept_contact toy_env ?p (tui_engine toy_asked) (next_call toy_world) = (ok, e, w1)" "trust_of e ?p = Some Accepted" by blast
  let ?t3 = "t2\<lparr>tui_queue := []\<rparr>"
  let ?t4 = "?t3\<lparr>tui_engine := e, tui_flash := (if ok then ''accepted'' else ''no pending request'')\<rparr>"
  have "?p \<noteq> []" by (metis length_pad list.size(3) zero_neq_numeral)
  note ed = exec_decide(1) [OF this]
  have x: "tui_exec_all toy_env [?cmd] ?t3 (next_call toy_world) = Some (?t4, w1)"
    using 1(3) a(1) ed by (simp add: t2 tui_submit_def do_decide_def)
  from toy_net_rest [OF x] 1(6,7) have
    n: "\<And>tms. \<exists>w2. tui_net_work toy_env ?H [?cmd] ?t3 tms (next_call toy_world) = Some (?t4, tms, w2)" by (auto simp: t2 tui_submit_def)
  define s1 where "s1 = ?s0\<lparr>ts_tui := t1, ts_world := toy_world, ts_screen := render toy_env t1 24 80, ts_ui := UiShown\<rparr>"
  have r1: "tui_reach toy_env ?H by_age ?s0 [] s1"
    using tui_reach.step [OF tui_reach.start tui_step.ui_show [of ?s0 toy_env ?H by_age t1 toy_world 24 80]] 1(1)
    by (simp add: s1_def tui_threads_def toy_asked_def new_tui_def Let_def)
  define s2 where "s2 = s1\<lparr>ts_tui := t2, ts_ui := UiTop\<rparr>"
  have r2: "tui_reach toy_env ?H by_age ?s0 [(t1, 97)] s2"
    using tui_reach.step [OF r1 tui_step.ui_key [of s1 toy_env ?H by_age 97]] by (simp add: s1_def s2_def t2_def)
  define tms where "tms = \<lparr>last_heartbeat = steady_clock_now toy_env 0, last_announce = steady_clock_now toy_env 0\<rparr>"
  define s3 where "s3 = s2\<lparr>ts_timers := tms, ts_world := next_call toy_world, ts_net := NetTop\<rparr>"
  have r3: "tui_reach toy_env ?H by_age ?s0 [(t1, 97)] s3"
    using tui_reach.step [OF r2 tui_step.net_begin [of s2 "steady_clock_now toy_env 0" toy_env ?H by_age]]
    by (simp add: s1_def s2_def s3_def tms_def tui_threads_def toy_world_def)
  define s4 where "s4 = s3\<lparr>ts_tui := ?t3, ts_net := NetTaken [?cmd]\<rparr>"
  have r4: "tui_reach toy_env ?H by_age ?s0 [(t1, 97)] s4"
    using tui_reach.step [OF r3 tui_step.net_take [of s3 "[?cmd]" ?t3 toy_env ?H by_age]] 1(5,8)
    by (simp add: s1_def s2_def s3_def s4_def t2 tui_submit_def tui_take_def)
  obtain w3 where w3: "tui_net_work toy_env ?H [?cmd] ?t3 tms (next_call toy_world) = Some (?t4, tms, w3)" using n by blast
  define s5 where "s5 = s4\<lparr>ts_tui := ?t4, ts_timers := tms, ts_world := w3, ts_net := NetTop\<rparr>"
  have r5: "tui_reach toy_env ?H by_age ?s0 [(t1, 97)] s5"
    using tui_reach.step [OF r4 tui_step.net_work [of s4 "[?cmd]" toy_env ?H ?t4 tms w3 by_age]] w3
    by (simp add: s3_def s4_def s5_def)
  have no: "trust_of (tui_engine toy_asked) ?p = None" "eng_outgoing (tui_engine toy_asked) = {}" "tui_queue toy_asked = []"
    by (simp_all add: toy_asked_def trust_of_def store_trust_of_def default_store_def new_tui_def new_engine_def Let_def)
  have acc: "trust_of (tui_engine (ts_tui s5)) ?p = Some Accepted" using a(2) by (simp add: s5_def)
  from tui_contact_needs_key [OF r5 no(2,3) acc] no(1) have "\<exists>it. selected_item t1 = Some it \<and> it_is_request it \<and> it_pk it = ?p"
    using 1(4) by (auto simp: toy_host_def word_def)
  with r5 no(1) acc show ?thesis by blast
qed

theorem shown_request_decidable_witness:
  "\<exists>screen w1 it t' v'. build_snapshot toy_env toy_host by_age toy_asked toy_world = (screen, w1) \<and>
     it \<in> set (tui_items screen) \<and> do_decide toy_env (it_pk it) False screen w1 = (t', v') \<and>
     trust_of (tui_engine t') (it_pk it) = Some Rejected \<and> st_requests (eng_contacts (tui_engine toy_asked)) \<noteq> []"
proof -
  obtain screen w1 where b: "build_snapshot toy_env toy_host by_age toy_asked toy_world = (screen, w1)" by fastforce
  let ?it = "request_item (tui_engine toy_asked) toy_request"
  have it: "?it \<in> set (tui_items screen)" "it_is_request ?it" "it_pk ?it = pad 32 [2]"
    using build_snapshot_items(1) [OF b] by (simp_all add: toy_asked_def toy_request_def)
  obtain t' v' where d: "do_decide toy_env (it_pk ?it) False screen w1 = (t', v')" by fastforce
  have "engine_of toy_env (pad 32 [1]) (pad 64 [1]) (tui_engine toy_asked)"
    by (simp add: engine_of_def toy_asked_def new_engine_def sessions_ok_def requests_ok_def toy_request_def)
  moreover have "agree_shared_key toy_env (pad 64 [1]) (it_pk ?it) \<noteq> None" unfolding it(3) by (rule toy_agree)
  moreover have "build_snapshot toy_env toy_host by_age (ts_tui (tui_threads toy_asked toy_world)) toy_world = (screen, w1)"
    by (simp add: tui_threads_def b)
  ultimately show ?thesis
    using shown_request_decidable [OF _ newest_first_by_age tui_reach.start [of toy_env toy_host by_age "tui_threads toy_asked toy_world"] _ it(1,2) _ d] b it d by (auto simp: toy_asked_def)
qed

end
