(* ===== verification/Tools.thy ===== *)
theory Tools
  imports Cli Handshake Rendezvous Durable
begin

text \<open>
  The programs under \<^verbatim>\<open>tools\<close>, which put the libraries together in one process, and the logging of
  the core library.  Each \<^verbatim>\<open>main\<close> is a function from the world to its exit code, what it prints,
  and the world after it; \<open>None\<close> stands for dereferencing an endpoint that is not there.  The
  callbacks of a demo set a variable or print, and run over the events a poll has logged.
\<close>

section \<open>Logging and version\<close>

datatype LogLevel = Trace | Debug | Info | Warn | Error

definition log_level_name :: "LogLevel \<Rightarrow> string" where
  "log_level_name level = (case level of
     Trace \<Rightarrow> ''TRACE'' | Debug \<Rightarrow> ''DEBUG'' | Info \<Rightarrow> ''INFO'' | Warn \<Rightarrow> ''WARN'' | Error \<Rightarrow> ''ERROR'')"

text \<open>What \<^verbatim>\<open>log\<close> writes to the standard error stream.\<close>

definition log_line :: "LogLevel \<Rightarrow> string \<Rightarrow> string" where
  "log_line level message = ''['' @ log_level_name level @ ''] '' @ message @ nl"

definition log_info :: "string \<Rightarrow> string" where "log_info msg = log_line Info msg"
definition log_warn :: "string \<Rightarrow> string" where "log_warn msg = log_line Warn msg"
definition log_error :: "string \<Rightarrow> string" where "log_error msg = log_line Error msg"
definition log_debug :: "string \<Rightarrow> string" where "log_debug msg = log_line Debug msg"

definition kVersionMajor :: nat where "kVersionMajor = 0"
definition kVersionMinor :: nat where "kVersionMinor = 1"
definition kVersionPatch :: nat where "kVersionPatch = 0"
definition kVersionString :: string where "kVersionString = ''0.1.0''"

section \<open>What the demos share\<close>

definition loopback :: Endpoint where
  "loopback = \<lparr>host = ''127.0.0.1'', port = 0\<rparr>"

definition short_fp :: "env \<Rightarrow> Identity \<Rightarrow> string" where
  "short_fp E i = take 16 (fingerprint E i) @ ellipsis"

text \<open>
  A poll of an engine with the callbacks of a demo: the message callback stores the plaintext in
  \<open>got\<close>, the request callback prints \<open>req greeting\<close>, and the response callback says who is
  notified.  The peers whose requests surfaced come first in the result.
\<close>

definition poll_demo ::
  "env \<Rightarrow> (bytes \<Rightarrow> string) \<Rightarrow> string \<Rightarrow> string \<Rightarrow> Engine \<Rightarrow> world \<Rightarrow> bytes list \<times> string \<times> string \<times> Engine \<times> world" where
  "poll_demo E req who got e w =
     (case poll E 1000 e w of (_, e', w) \<Rightarrow>
      let evs = drop (length (eng_events e)) (eng_events e') in
        (concat (map (\<lambda>ev. case ev of RequestEvent p g \<Rightarrow> [p] | _ \<Rightarrow> []) evs),
         concat (map (\<lambda>ev. case ev of RequestEvent p g \<Rightarrow> req g
            | ResponseEvent p a \<Rightarrow> who @ '' is notified: '' @ (if a then ''accepted'' else ''rejected'') @ nl | _ \<Rightarrow> []) evs),
         fold (\<lambda>ev got. case ev of MessageEvent m \<Rightarrow> string_of_bytes (msg_plaintext m) | _ \<Rightarrow> got) evs got, e', w))"

section \<open>keygen and simnet\<close>

definition keygen_main :: "env \<Rightarrow> world \<Rightarrow> int \<times> string \<times> world" where
  "keygen_main E w =
     (case generate_identity E w of (i, w) \<Rightarrow>
        (0, ''fingerprint: '' @ fingerprint E i @ nl @
            ''public_key_bytes: '' @ dec_string (length (public_key i)) @ nl @
            ''secret_key_bytes: '' @ dec_string (length (secret_key i)) @ nl @
            ''note: the secret key is not printed; store it securely'' @ nl, w))"

definition simnet_packet :: Packet where
  "simnet_packet = default_packet\<lparr>ptype := Hello, counter := 1, payload := bytes_of_string ''om''\<rparr>"

definition simnet_main :: "env \<Rightarrow> world \<Rightarrow> int \<times> string \<times> world" where
  "simnet_main E w =
     (case socket_bind E default_socket loopback w of (ok, sock, w) \<Rightarrow>
      if \<not> ok then (1, ''bind failed'' @ nl, w)
      else (case local_endpoint E sock w of
        (None, w) \<Rightarrow> (1, ''local_endpoint failed'' @ nl, w)
      | (Some loc, w) \<Rightarrow>
          (let wire = serialize simnet_packet in
           case send_to E sock loc wire w of (ok, sock, w) \<Rightarrow>
           if \<not> ok then (1, ''send failed'' @ nl, w)
           else (case receive E sock 1000 kReceiveBufferSize w of
             (None, w) \<Rightarrow> (1, ''receive timed out'' @ nl, w)
           | (Some dg, w) \<Rightarrow>
               (case deserialize (dg_data dg) default_packet of (ok, inp) \<Rightarrow>
                if \<not> ok then (1, ''parse failed'' @ nl, w)
                else (0, ''UDP loopback ok on '' @ endpoint_to_string loc @ '': '' @ packet_type_name (ptype inp) @ '' ('' @
                       dec_string (length (dg_data dg)) @ '' bytes) from '' @ endpoint_to_string (dg_from dg) @ nl, w))))))"

section \<open>persistdemo\<close>

text \<open>\<open>tmp\<close> is the path of a file name in the directory for temporary files.\<close>

definition demo_contact :: "bytes \<Rightarrow> string \<Rightarrow> TrustStatus \<Rightarrow> Contact" where
  "demo_contact pk nick t = default_contact\<lparr>c_key := pk, c_nickname := nick, c_trust := t\<rparr>"

definition read_whole :: "env \<Rightarrow> string \<Rightarrow> world \<Rightarrow> bytes \<times> world" where
  "read_whole E path w = (case read_file E path w of (None, w) \<Rightarrow> ([], w) | (Some b, w) \<Rightarrow> (b, w))"

definition contains_text :: "bytes \<Rightarrow> string \<Rightarrow> bool" where
  "contains_text data needle = list_ex (\<lambda>s. take (length needle) s = needle) (suffixes (string_of_bytes data))"

definition remove_file :: "env \<Rightarrow> string \<Rightarrow> world \<Rightarrow> world" where
  "remove_file E path w =
     (next_call w)\<lparr>files := (if file_remove_ok E (calls w) path then (files w)(path := None) else files w)\<rparr>"

definition demo_pass :: string where "demo_pass = ''correct horse battery staple''"

definition persist_first_run :: "env \<Rightarrow> string \<Rightarrow> string \<Rightarrow> Identity \<Rightarrow> world \<Rightarrow> string \<times> world" where
  "persist_first_run E db idfile i w =
     (case save_identity E idfile i demo_pass w of (_, w) \<Rightarrow>
      case store_open E default_store db demo_pass w of (_, st, w) \<Rightarrow>
      case store_upsert E (demo_contact [0xA1, 0xA2, 0xA3] ''alice'' Accepted) st w of (st, w) \<Rightarrow>
      case store_upsert E (demo_contact [0xB1] ''bob'' Pending) st w of (st, w) \<Rightarrow>
        (''Saved identity '' @ short_fp E i @ '' and '' @ dec_string (length (st_contacts st)) @ '' contacts.'' @ nl, w))"

definition persist_second_run :: "env \<Rightarrow> string \<Rightarrow> string \<Rightarrow> Identity \<Rightarrow> world \<Rightarrow> bool \<times> string \<times> world" where
  "persist_second_run E db idfile i w =
     (case store_open E default_store db demo_pass w of (ok, st, w) \<Rightarrow>
      if \<not> ok then (False, ''failed to open store'' @ nl, w)
      else case load_identity E idfile demo_pass w of (loaded, w) \<Rightarrow>
        (True, ''Loaded '' @ dec_string (length (st_contacts st)) @ '' contacts:'' @
           concat (map (\<lambda>c. '' '' @ c_nickname c) (st_contacts st)) @ nl @
           ''Identity restored, fingerprint matches: '' @
           (case loaded of None \<Rightarrow> ''no'' | Some l \<Rightarrow> if fingerprint E l = fingerprint E i then ''yes'' else ''no'') @ nl, w))"

definition persistdemo_main :: "env \<Rightarrow> (string \<Rightarrow> string) \<Rightarrow> world \<Rightarrow> int \<times> string \<times> world" where
  "persistdemo_main E tmp w =
     (let db = tmp ''om_persist_demo.omdb''; idfile = tmp ''om_persist_demo.omid'';
          w = remove_file E idfile (remove_file E db w) in
      case generate_identity E w of (i, w) \<Rightarrow>
      case persist_first_run E db idfile i w of (out1, w) \<Rightarrow>
      case read_whole E db w of (disk, w) \<Rightarrow>
      case persist_second_run E db idfile i w of (ok, out2, w) \<Rightarrow>
      let out = ''=== First run ==='' @ nl @ out1 @
            nl @ ''Contacts file on disk ('' @ dec_string (length disk) @ '' bytes), first 48:'' @ nl @ ''  '' @
            to_hex (take (min 48 (length disk)) disk) @ nl @
            ''Does the nickname '' @ [CHR 0x22] @ ''alice'' @ [CHR 0x22] @ '' appear in the file? '' @
            (if contains_text disk ''alice'' then ''YES (bug!)'' else ''no '' @ em_dash @ '' it'' @ [CHR 0x27] @ ''s encrypted'') @ nl @
            nl @ ''=== Second run (simulated restart) ==='' @ nl @ out2 in
      if \<not> ok then (1, out, w)
      else case store_open E default_store db ''guessing'' w of (opened, _, w) \<Rightarrow>
        (0, out @ nl @ ''Wrong passphrase opens the store? '' @
           (if opened then ''YES (bug!)'' else ''no '' @ em_dash @ '' rejected'') @ nl,
         remove_file E idfile (remove_file E db w)))"

section \<open>chatdemo\<close>

definition demo_plaintext :: string where
  "demo_plaintext = ''Hello Bob '' @ em_dash @ '' this is end-to-end encrypted.''"

text \<open>The part on two sessions: the wire, what the recipient opens and what the eavesdropper opens.\<close>

definition chat_sessions ::
  "env \<Rightarrow> Identity \<Rightarrow> Identity \<Rightarrow> Identity \<Rightarrow> world \<Rightarrow> bytes option \<times> bytes option \<times> string \<times> world" where
  "chat_sessions E alice bob eve w =
     (let a_to_b = new_session E (public_key alice) (secret_key alice) (public_key bob);
          b_from_a = new_session E (public_key bob) (secret_key bob) (public_key alice) in
      case encrypt E a_to_b (bytes_of_string demo_plaintext) w of (packet, a_to_b, w) \<Rightarrow>
      let wire = serialize packet;
          opened = fst (decrypt E b_from_a packet);
          eve_from_alice = new_session E (public_key eve) (secret_key eve) (public_key alice);
          eve_attempt = fst (decrypt E eve_from_alice packet);
          q = [CHR 0x22]
      in (opened, eve_attempt,
          ''Alice sends: '' @ q @ demo_plaintext @ q @ nl @ nl @
          ''On the wire ('' @ dec_string (length wire) @ '' bytes '' @ em_dash @ '' what a relay/observer sees):'' @ nl @ ''  '' @
          to_hex wire @ nl @ ''  type=MESSAGE  counter='' @ dec_string (unat (counter packet)) @
          ''  payload is ciphertext, not text.'' @ nl @ nl @
          ''Bob decrypts: '' @ q @ (case opened of Some m \<Rightarrow> string_of_bytes m | None \<Rightarrow> ''<FAILED>'') @ q @ nl @
          ''Eve decrypts: '' @ (if eve_attempt \<noteq> None then ''READ IT (BUG!)'' else ''cannot read it '' @ [CHR 0xE2, CHR 0x9C, CHR 0x93]) @
          nl @ nl, w))"

text \<open>The part over UDP: two engines in one process that know each other's address.\<close>

definition chat_engines :: "env \<Rightarrow> Identity \<Rightarrow> Identity \<Rightarrow> world \<Rightarrow> (string \<times> world) option" where
  "chat_engines E alice bob w =
     (case engine_bind E loopback (new_engine (public_key alice) (secret_key alice)) w of (_, ae, w) \<Rightarrow>
      case engine_bind E loopback (new_engine (public_key bob) (secret_key bob)) w of (_, be, w) \<Rightarrow>
     (case engine_local_endpoint E be w of
        (None, w) \<Rightarrow> None
      | (Some bob_ep, w) \<Rightarrow>
          (case add_peer E (public_key bob) bob_ep ae w of (_, ae, w) \<Rightarrow>
          (case engine_local_endpoint E ae w of
             (None, w) \<Rightarrow> None
           | (Some alice_ep, w) \<Rightarrow>
               (case add_peer E (public_key alice) alice_ep be w of (_, be, w) \<Rightarrow>
                case send E (public_key bob) (bytes_of_string ''Delivered over UDP loopback.'') ae w of (_, ae, w) \<Rightarrow>
                case poll_demo E (\<lambda>_. []) [] [] (on_message be) w of (_, _, delivered, be, w) \<Rightarrow> Some (delivered, w))))))"

definition chatdemo_main :: "env \<Rightarrow> world \<Rightarrow> (int \<times> string \<times> world) option" where
  "chatdemo_main E w =
     (case generate_identity E w of (alice, w) \<Rightarrow>
      case generate_identity E w of (bob, w) \<Rightarrow>
      case generate_identity E w of (eve, w) \<Rightarrow>
      case chat_sessions E alice bob eve w of (opened, eve_attempt, out, w) \<Rightarrow>
     (case chat_engines E alice bob w of
        None \<Rightarrow> None
      | Some (delivered, w) \<Rightarrow>
          Some (if opened \<noteq> None \<and> eve_attempt = None \<and> delivered \<noteq> [] then 0 else 1,
            ''Identities (fingerprints):'' @ nl @ ''  alice = '' @ short_fp E alice @ nl @ ''  bob   = '' @ short_fp E bob @ nl @
            ''  eve   = '' @ short_fp E eve @ '' (eavesdropper)'' @ nl @ nl @ out @
            ''Over UDP, Bob received: '' @ [CHR 0x22] @ delivered @ [CHR 0x22] @ nl, w)))"

section \<open>contactsdemo\<close>

text \<open>Asking, the answer of a message before it, and the poll at which the request surfaces.\<close>

definition yes_no :: "bool \<Rightarrow> string" where
  "yes_no b = (if b then ''yes'' else ''no (blocked)'')"

definition contacts_accepted ::
  "env \<Rightarrow> Identity \<Rightarrow> Identity \<Rightarrow> Endpoint \<Rightarrow> Engine \<Rightarrow> Engine \<Rightarrow> world \<Rightarrow> string \<times> string \<times> Engine \<times> world" where
  "contacts_accepted E alice bob bob_ep ae be w =
     (let q = [CHR 0x22]; be = on_contact_request be;
          req = (\<lambda>g. ''Bob receives a contact request: '' @ q @ string_of_bytes g @ q @ nl) in
      case send_contact_request E (public_key bob) bob_ep (bytes_of_string (''Hi Bob, it'' @ [CHR 0x27] @ ''s Alice'')) ae w of (_, ae, w) \<Rightarrow>
      case send E (public_key bob) (bytes_of_string ''hi'') ae w of (early, ae, w) \<Rightarrow>
      case poll_demo E req [] [] be w of (_, out1, _, be, w) \<Rightarrow>
      case accept_contact E (public_key alice) be w of (_, be, w) \<Rightarrow>
      case poll_demo E (\<lambda>_. []) ''Alice'' [] (on_contact_response ae) w of (_, out2, _, ae, w) \<Rightarrow>
      case send E (public_key bob) (bytes_of_string (''Great '' @ em_dash @ '' now we'' @ [CHR 0x27] @ ''re contacts!'')) ae w of (_, ae, w) \<Rightarrow>
      case poll_demo E req [] [] (on_message be) w of (_, out3, bob_got, be, w) \<Rightarrow>
        (bob_got, ''Alice sends Bob a contact request.'' @ nl @ ''Can Alice message Bob before acceptance? '' @ yes_no early @ nl @
           out1 @ ''Bob accepts.'' @ nl @ out2 @ out3 @ ''Alice -> Bob: '' @ q @ bob_got @ q @ nl @ nl, be, w))"

text \<open>
  The second request callback rejects the peer from inside the callback; it is the last thing
  the poll does, so it runs after it.  Bob's message callback is still installed.
\<close>

fun reject_each :: "env \<Rightarrow> bytes list \<Rightarrow> Engine \<Rightarrow> world \<Rightarrow> Engine \<times> world" where
  "reject_each E [] e w = (e, w)"
| "reject_each E (p # ps) e w = (case reject_contact E p e w of (_, e, w) \<Rightarrow> reject_each E ps e w)"

definition contacts_rejected ::
  "env \<Rightarrow> Identity \<Rightarrow> Endpoint \<Rightarrow> string \<Rightarrow> Engine \<Rightarrow> Engine \<Rightarrow> world \<Rightarrow> string \<times> string \<times> Engine \<times> world" where
  "contacts_rejected E bob bob_ep bob_got me be w =
     (case send_contact_request E (public_key bob) bob_ep (bytes_of_string ''let me in'') me w of (_, me, w) \<Rightarrow>
      case poll_demo E (\<lambda>_. ''Bob receives a request from a stranger and rejects it.'' @ nl) [] bob_got (on_contact_request be) w of
        (ps, out1, bob_got, be, w) \<Rightarrow>
      case reject_each E ps be w of (be, w) \<Rightarrow>
      case poll_demo E (\<lambda>_. []) ''Mallory'' [] (on_contact_response me) w of (_, out2, _, me, w) \<Rightarrow>
      case send E (public_key bob) (bytes_of_string ''hello?'') me w of (late, me, w) \<Rightarrow>
        (bob_got, out1 @ out2 @ ''Can Mallory message Bob? '' @ yes_no late @ nl, be, w))"

definition contactsdemo_main :: "env \<Rightarrow> world \<Rightarrow> (int \<times> string \<times> world) option" where
  "contactsdemo_main E w =
     (case generate_identity E w of (alice, w) \<Rightarrow>
      case generate_identity E w of (bob, w) \<Rightarrow>
      case generate_identity E w of (mallory, w) \<Rightarrow>
      case engine_bind E loopback (new_engine (public_key alice) (secret_key alice)) w of (_, ae, w) \<Rightarrow>
      case engine_bind E loopback (new_engine (public_key bob) (secret_key bob)) w of (_, be, w) \<Rightarrow>
      case engine_bind E loopback (new_engine (public_key mallory) (secret_key mallory)) w of (_, me, w) \<Rightarrow>
     (case engine_local_endpoint E be w of
        (None, w) \<Rightarrow> None
      | (Some bob_ep, w) \<Rightarrow>
          (case contacts_accepted E alice bob bob_ep ae be w of (bob_got, out1, be, w) \<Rightarrow>
           case contacts_rejected E bob bob_ep bob_got me be w of (bob_got, out2, be, w) \<Rightarrow>
             Some (if bob_got = [] then 1 else 0, out1 @ out2, w))))"

section \<open>connectdemo\<close>

text \<open>
  The main thread; the server's own thread is part of the environment (what it sends is what
  the sockets of the clients receive).  Each signaling client works on its engine's socket.
\<close>

definition demo_client :: "env \<Rightarrow> Identity \<Rightarrow> Endpoint \<Rightarrow> Engine \<Rightarrow> SignalingClient" where
  "demo_client E i server e = new_signaling_client (eng_socket e) server (public_key i) (Some (signer_for E (secret_key i)))"

definition ok_failed :: "bool \<Rightarrow> string" where "ok_failed b = (if b then ''ok'' else ''FAILED'')"

definition found_text :: "DiscoverResult \<Rightarrow> string" where
  "found_text r = (case dr_endpoint r of Some ep \<Rightarrow> endpoint_to_string ep | None \<Rightarrow> ''offline'')"

definition connect_rendezvous ::
  "env \<Rightarrow> Endpoint \<Rightarrow> Identity \<Rightarrow> Identity \<Rightarrow> Engine \<Rightarrow> Engine \<Rightarrow> world \<Rightarrow>
     (DiscoverResult \<times> DiscoverResult \<times> string \<times> Engine \<times> Engine \<times> world) option" where
  "connect_rendezvous E server alice bob ae be w =
     (case over_engine (register_self E kDefaultTimeoutMs kDefaultAttempts) (demo_client E alice server ae) ae w of
        None \<Rightarrow> None
      | Some (ok_a, ac, ae, w) \<Rightarrow>
     (case over_engine (register_self E kDefaultTimeoutMs kDefaultAttempts) (demo_client E bob server be) be w of
        None \<Rightarrow> None
      | Some (ok_b, bc, be, w) \<Rightarrow>
     (case over_engine (discover E (public_key bob) kDefaultTimeoutMs kDefaultAttempts) ac ae w of
        None \<Rightarrow> None
      | Some (bob_addr, ac, ae, w) \<Rightarrow>
     (case over_engine (discover E (public_key alice) kDefaultTimeoutMs kDefaultAttempts) bc be w of
        None \<Rightarrow> None
      | Some (alice_addr, bc, be, w) \<Rightarrow>
          Some (bob_addr, alice_addr,
            ''alice registers: '' @ ok_failed ok_a @ nl @ ''bob registers:   '' @ ok_failed ok_b @ nl @ nl @
            ''alice discovers bob -> '' @ found_text bob_addr @ nl @
            ''bob discovers alice -> '' @ found_text alice_addr @ nl @ nl, ae, be, w)))))"

definition connect_talk ::
  "env \<Rightarrow> Identity \<Rightarrow> Identity \<Rightarrow> Endpoint \<Rightarrow> Endpoint \<Rightarrow> Engine \<Rightarrow> Engine \<Rightarrow> world \<Rightarrow> string \<times> string \<times> world" where
  "connect_talk E alice bob bob_ep alice_ep ae be w =
     (case add_peer E (public_key bob) bob_ep ae w of (_, ae, w) \<Rightarrow>
      case add_peer E (public_key alice) alice_ep be w of (_, be, w) \<Rightarrow>
      case send E (public_key bob) (bytes_of_string (''Hi Bob '' @ em_dash @ '' encrypted, via a server that can'' @ [CHR 0x27] @ ''t read this.'')) ae w of
        (_, ae, w) \<Rightarrow>
      case poll_demo E (\<lambda>_. []) [] [] (on_message be) w of (_, _, bob_got, be, w) \<Rightarrow>
      case send E (public_key alice) (bytes_of_string ''Got it, Alice.'') be w of (_, be, w) \<Rightarrow>
      case poll_demo E (\<lambda>_. []) [] [] (on_message ae) w of (_, _, alice_got, ae, w) \<Rightarrow> (bob_got, alice_got, w))"

definition connectdemo_main :: "env \<Rightarrow> world \<Rightarrow> (int \<times> string \<times> world) option" where
  "connectdemo_main E w =
     (case sig_bind E loopback (new_signaling_server default_sig_config) w of (_, srv, w) \<Rightarrow>
     (case sig_local_endpoint E srv w of
        (None, w) \<Rightarrow> None
      | (Some server, w) \<Rightarrow>
     (case generate_identity E w of (alice, w) \<Rightarrow>
      case generate_identity E w of (bob, w) \<Rightarrow>
      case engine_bind E loopback (new_engine (public_key alice) (secret_key alice)) w of (_, ae, w) \<Rightarrow>
      case engine_bind E loopback (new_engine (public_key bob) (secret_key bob)) w of (_, be, w) \<Rightarrow>
     (case connect_rendezvous E server alice bob ae be w of
        None \<Rightarrow> None
      | Some (bob_addr, alice_addr, out1, ae, be, w) \<Rightarrow>
          (case (dr_endpoint bob_addr, dr_endpoint alice_addr) of
             (Some bob_ep, Some alice_ep) \<Rightarrow>
               (case connect_talk E alice bob bob_ep alice_ep ae be w of (bob_got, alice_got, w) \<Rightarrow>
                let ok = (bob_got \<noteq> [] \<and> alice_got \<noteq> []); q = [CHR 0x22] in
                  Some (if ok then 0 else 1,
                    ''Signaling server listening on '' @ endpoint_to_string server @ nl @ nl @
                    ''alice = '' @ short_fp E alice @ nl @ ''bob   = '' @ short_fp E bob @ nl @ nl @ out1 @
                    ''alice -> bob (decrypted by bob): '' @ q @ bob_got @ q @ nl @
                    ''bob -> alice (decrypted by alice): '' @ q @ alice_got @ q @ nl @ nl @
                    (if ok then ''Two strangers connected and chatted, end-to-end encrypted.'' else ''FAILED'') @ nl, w))
           | _ \<Rightarrow> None)))))"


section \<open>The persistence demo\<close>

text \<open>What a file operation leaves alone, and when saving an identity succeeds.\<close>

lemma write_blob_elsewhere:
  assumes "write_blob E path magic salt key p w = (ok, w')" "q \<noteq> path" "q \<noteq> path @ ''.tmp''"
  shows "files w' q = files w q"
  using assms(1,2,3)
  by (auto simp: write_blob_def Let_def seal_def split: if_splits prod.splits write_result.splits)

lemma store_save_elsewhere:
  "store_save E s w = (ok, w') \<Longrightarrow> q \<noteq> st_path s \<Longrightarrow> q \<noteq> st_path s @ ''.tmp'' \<Longrightarrow> files w' q = files w q"
  by (auto simp: store_save_def split: if_splits dest: write_blob_elsewhere)

lemma store_upsert_elsewhere:
  "store_upsert E c s w = (s', w') \<Longrightarrow> q \<noteq> st_path s \<Longrightarrow> q \<noteq> st_path s @ ''.tmp'' \<Longrightarrow> files w' q = files w q"
  using store_save_elsewhere [of E "s\<lparr>st_contacts := upsert_contact c (st_contacts s)\<rparr>" w]
  by (auto simp: store_upsert_def autosave_def split: if_splits) (metis prod.collapse)

lemma store_open_fresh_elsewhere:
  assumes "store_open E s path pass w = (ok, s', w')" "path \<notin> dom (files w)" "q \<noteq> path" "q \<noteq> path @ ''.tmp''"
  shows "files w' q = files w q"
proof -
  obtain salt w1 where g: "generate_salt E w = (salt, w1)" by fastforce
  obtain key w2 where k: "derive_key E pass salt w1 = (key, w2)" by fastforce
  have "files w2 = files w"
    using g k derive_key_frame(1) [of E pass salt w1] random_bytes_frame(1) [of E kKdfSaltBytes w] by (simp add: generate_salt_def)
  moreover have "store_save E (s\<lparr>st_salt := salt, st_key := key, st_path := path, st_persistent := True\<rparr>) w2 = (ok, w') \<or>
      w' = w2"
    using assms(1,2) g k by (auto simp: store_open_def Let_def dom_def split: if_splits prod.splits)
  ultimately show ?thesis using store_save_elsewhere assms(3,4) by fastforce
qed

lemma save_identity_works:
  assumes "file_laws E" "pwhash_works E" "identity_valid i"
  shows "\<exists>w'. save_identity E path i pass w = (True, w')"
proof -
  obtain salt w1 where g: "generate_salt E w = (salt, w1)" by fastforce
  obtain key w2 where k: "derive_key E pass salt w1 = (key, w2)" by fastforce
  have "length salt = kKdfSaltBytes" "length key = kSessionKeyBytes"
    using generate_salt_sized [OF file_lawsD(3) [OF assms(1)], of w] derive_key_works [OF assms(2), of salt pass w1] g k by simp_all
  then have "fst (write_blob E path kIdentityMagic salt key p w2)" "key \<noteq> []" for p
    using write_blob_works [OF assms(1)] by (auto simp: kKdfSaltBytes_def kSaltBytes_def crypto_sizes)
  then have "fst (save_identity E path i pass w)" using assms(3) g k by (simp add: save_identity_def Let_def)
  then show ?thesis by (metis prod.collapse)
qed

lemma save_identity_elsewhere:
  assumes "save_identity E path i pass w = (ok, w')" "q \<noteq> path" "q \<noteq> path @ ''.tmp''"
  shows "files w' q = files w q"
proof -
  obtain salt w1 where g: "generate_salt E w = (salt, w1)" by fastforce
  obtain key w2 where k: "derive_key E pass salt w1 = (key, w2)" by fastforce
  have "files w2 = files w" "files w1 = files w"
    using g k derive_key_frame(1) [of E pass salt w1] random_bytes_frame(1) [of E kKdfSaltBytes w] by (simp_all add: generate_salt_def)
  with assms g k show ?thesis
    by (auto simp: save_identity_def Let_def split: if_splits dest!: write_blob_elsewhere)
qed

lemma persist_first_run_saves:
  assumes laws: "file_laws E" "pwhash_works E" and valid: "identity_valid i" and f: "files w db = None"
    and apart: "db \<noteq> idf" "db \<noteq> idf @ ''.tmp''" "idf \<noteq> db @ ''.tmp''"
  shows "\<exists>out w0 w1 w2 st. persist_first_run E db idf i w = (out, w2) \<and> save_identity E idf i demo_pass w0 = (True, w1) \<and>
    files w2 idf = files w1 idf \<and> on_disk E db demo_pass st w2 \<and> st_contacts st = [demo_contact [0xA1, 0xA2, 0xA3] ''alice'' Accepted,
      demo_contact [0xB1] ''bob'' Pending] \<and> st_messages st = [] \<and> st_requests st = []"
proof -
  obtain w1 where si: "save_identity E idf i demo_pass w = (True, w1)" using save_identity_works [OF laws valid] by blast
  have f1: "db \<notin> dom (files w1)" using save_identity_elsewhere [OF si apart(1,2)] f by (simp add: dom_def)
  obtain st0 w2 where o: "store_open E default_store db demo_pass w1 = (True, st0, w2)"
    and st0: "st_contacts st0 = []" "st_messages st0 = []" "st_requests st0 = []"
    using store_open_fresh [OF laws f1, of default_store demo_pass] by (auto simp: default_store_def)
  note d0 = store_open_on_disk(1) [OF laws(1) o]
  obtain st1 w3 where u1: "store_upsert E (demo_contact [0xA1, 0xA2, 0xA3] ''alice'' Accepted) st0 w2 = (st1, w3)" by fastforce
  note d1 = on_disk_ops(1) [OF laws(1) d0 u1]
  obtain st2 w4 where u2: "store_upsert E (demo_contact [0xB1] ''bob'' Pending) st1 w3 = (st2, w4)" by fastforce
  note d2 = on_disk_ops(1) [OF laws(1) d1 u2]
  have p: "st_path st0 = db" "st_path st1 = db" using d0 d1 by (simp_all add: on_disk_def store_meta_def)
  have "files w2 idf = files w1 idf" by (rule store_open_fresh_elsewhere [OF o f1]) (use apart in auto)
  moreover have "files w3 idf = files w2 idf" by (rule store_upsert_elsewhere [OF u1]) (use apart p in auto)
  moreover have "files w4 idf = files w3 idf" by (rule store_upsert_elsewhere [OF u2]) (use apart p in auto)
  moreover have "st_contacts st1 = [demo_contact [0xA1, 0xA2, 0xA3] ''alice'' Accepted]" "st_messages st1 = []" "st_requests st1 = []"
    using store_upsert_fields [of E "demo_contact [0xA1, 0xA2, 0xA3] ''alice'' Accepted" st0 w2] unfolding u1 fst_conv st0 by simp_all
  then have "st_contacts st2 = [demo_contact [0xA1, 0xA2, 0xA3] ''alice'' Accepted, demo_contact [0xB1] ''bob'' Pending]"
      "st_messages st2 = []" "st_requests st2 = []"
    using store_upsert_fields [of E "demo_contact [0xB1] ''bob'' Pending" st1 w3] unfolding u2 fst_conv by (simp_all add: demo_contact_def)
  moreover obtain out where "persist_first_run E db idf i w = (out, w4)"
    using si o u1 u2 by (simp add: persist_first_run_def)
  ultimately show ?thesis using si d2 by (intro exI conjI; (assumption | simp))
qed

text \<open>The second run finds what the first one wrote.\<close>

lemma dec_string_two: "dec_string 2 = ''2''"
  by code_simp

lemma persist_second_run_finds:
  assumes laws: "file_laws E" and saved: "save_identity E idf i demo_pass w0 = (True, w1)"
    and d: "on_disk E db demo_pass st w2" "st_contacts st = [demo_contact [0xA1, 0xA2, 0xA3] ''alice'' Accepted,
      demo_contact [0xB1] ''bob'' Pending]" "st_messages st = []" "st_requests st = []"
    and same: "files w3 = files w2" "files w2 idf = files w1 idf"
  shows "\<exists>w4. persist_second_run E db idf i w3 = (True, ''Loaded 2 contacts: alice bob'' @ nl @
      ''Identity restored, fingerprint matches: yes'' @ nl, w4)"
proof -
  have "wf_lists (st_contacts st) (st_messages st) (st_requests st)"
    using d(2-4) by (simp add: demo_contact_def default_contact_def wf_lists_def wf_contact_def wf_trust_def
        trust_status_of_def fits_u16_def fits_u32_def is_i64_def)
  with d(1) have "reopens E demo_pass st w2" "st_path st = db" by (simp_all add: on_disk_def store_meta_def)
  then obtain st' w4 where o: "store_open E default_store db demo_pass w3 = (True, st', w4)"
    and st': "st_contacts st' = st_contacts st" "files w4 = files w3" using reopensD [of E demo_pass st w2 db w3 default_store] same(1) by auto
  have "fst (load_identity E idf demo_pass w4) = Some i"
    by (rule identity_reload [OF file_lawsD(1-4) [OF laws] saved]) (use st'(2) same file_lawsD(6) [OF laws] in auto)
  then obtain w5 where "load_identity E idf demo_pass w4 = (Some i, w5)" by (metis prod.collapse)
  then show ?thesis
    using o st'(1) d(2) by (simp add: persist_second_run_def demo_contact_def dec_string_two [unfolded numeral_2_eq_2])
qed

text \<open>
  The persistence demo keeps its promise: on a disk and a password hash that work, whatever
  is in the directory before (files of an earlier run included), the second part of the program prints
  that both contacts are back, in order and under their names, and that the restored identity has the
  fingerprint of the generated one, the program exits with 0, and its two files are gone at the end.
\<close>

theorem persistdemo_restores:
  assumes laws: "file_laws E" "pwhash_works E" and rm: "\<forall>i p. file_remove_ok E i p"
    and valid: "\<forall>w. identity_valid (fst (generate_identity E w))"
  shows "\<exists>out1 opened w'. persistdemo_main E (\<lambda>f. dir @ f) w = (0, out1 @ nl @ ''=== Second run (simulated restart) ==='' @ nl @
      ''Loaded 2 contacts: alice bob'' @ nl @ ''Identity restored, fingerprint matches: yes'' @ nl @ nl @
      ''Wrong passphrase opens the store? '' @ (if opened then ''YES (bug!)'' else ''no '' @ em_dash @ '' rejected'') @ nl, w') \<and>
    files w' (dir @ ''om_persist_demo.omdb'') = None \<and> files w' (dir @ ''om_persist_demo.omid'') = None"
proof -
  let ?db = "dir @ ''om_persist_demo.omdb''" and ?id = "dir @ ''om_persist_demo.omid''"
  define w0 where "w0 = remove_file E ?id (remove_file E ?db w)"
  obtain i w1 where g: "generate_identity E w0 = (i, w1)" by fastforce
  have "identity_valid i" using valid g by (metis fst_conv)
  moreover have "files w1 ?db = None" using g rm by (auto simp: generate_identity_def w0_def remove_file_def split: prod.splits)
  ultimately obtain out1 v0 v1 w2 st where first: "persist_first_run E ?db ?id i w1 = (out1, w2)"
    "save_identity E ?id i demo_pass v0 = (True, v1)" "files w2 ?id = files v1 ?id" "on_disk E ?db demo_pass st w2"
    "st_contacts st = [demo_contact [0xA1, 0xA2, 0xA3] ''alice'' Accepted, demo_contact [0xB1] ''bob'' Pending]"
    "st_messages st = []" "st_requests st = []"
    using persist_first_run_saves [OF laws, of i w1 ?db ?id] by auto
  obtain disk w3 where r: "read_whole E ?db w2 = (disk, w3)" by fastforce
  have "files w3 = files w2" using r by (auto simp: read_whole_def read_file_def split: option.splits prod.splits if_splits)
  from persist_second_run_finds [OF laws(1) first(2,4-7) this first(3)] obtain w4 where second:
    "persist_second_run E ?db ?id i w3 = (True, ''Loaded 2 contacts: alice bob'' @ nl @
      ''Identity restored, fingerprint matches: yes'' @ nl, w4)" by blast
  obtain opened st' w5 where o: "store_open E default_store ?db ''guessing'' w4 = (opened, st', w5)" by (metis prod_cases3)
  have "files (remove_file E ?id (remove_file E ?db w5)) ?db = None \<and> files (remove_file E ?id (remove_file E ?db w5)) ?id = None"
    using rm by (simp add: remove_file_def)
  moreover let ?pre = "''=== First run ==='' @ nl @ out1 @
            nl @ ''Contacts file on disk ('' @ dec_string (length disk) @ '' bytes), first 48:'' @ nl @ ''  '' @
            to_hex (take (min 48 (length disk)) disk) @ nl @
            ''Does the nickname '' @ [CHR 0x22] @ ''alice'' @ [CHR 0x22] @ '' appear in the file? '' @
            (if contains_text disk ''alice'' then ''YES (bug!)'' else ''no '' @ em_dash @ '' it'' @ [CHR 0x27] @ ''s encrypted'') @ nl"
  have "persistdemo_main E (\<lambda>f. dir @ f) w = (0, ?pre @ nl @ ''=== Second run (simulated restart) ==='' @ nl @
      ''Loaded 2 contacts: alice bob'' @ nl @ ''Identity restored, fingerprint matches: yes'' @ nl @ nl @
      ''Wrong passphrase opens the store? '' @ (if opened then ''YES (bug!)'' else ''no '' @ em_dash @ '' rejected'') @ nl,
      remove_file E ?id (remove_file E ?db w5))"
    unfolding persistdemo_main_def Let_def w0_def [symmetric] g first(1) r second o prod.case not_True_eq_False if_False append_assoc
    by (rule refl)
  ultimately show ?thesis by blast
qed


theorem persistdemo_restores_witness:
  "\<exists>out1 opened w'. persistdemo_main toy_env (\<lambda>f. ''/tmp/'' @ f) toy_world = (0, out1 @ nl @ ''=== Second run (simulated restart) ==='' @ nl @
      ''Loaded 2 contacts: alice bob'' @ nl @ ''Identity restored, fingerprint matches: yes'' @ nl @ nl @
      ''Wrong passphrase opens the store? '' @ (if opened then ''YES (bug!)'' else ''no '' @ em_dash @ '' rejected'') @ nl, w')"
proof -
  have valid: "\<forall>w. identity_valid (fst (generate_identity toy_env w))" and rm: "\<forall>i p. file_remove_ok toy_env i p"
    by (simp_all add: generate_identity_def identity_valid_def crypto_sizes)
  show ?thesis
    by (rule exE [OF persistdemo_restores [OF file_laws_toy pwhash_works_toy rm valid, of "''/tmp/''" toy_world]])
       (elim exE conjE, intro exI, assumption)
qed

section \<open>The chat demo\<close>

text \<open>
  The chat demo shows end-to-end encryption: whatever the random source yields, Bob opens exactly what Alice
  wrote, and an eavesdropper whose public key is not Bob's gets nothing, on the very packet that was
  sent, even though she sets up a session with Alice's key.
\<close>

theorem chatdemo_end_to_end:
  assumes "crypto_laws E" "key_pair E (public_key alice) (secret_key alice)" "key_pair E (public_key bob) (secret_key bob)"
    and "ses_valid (new_session E (public_key alice) (secret_key alice) (public_key bob))" "public_key eve \<noteq> public_key bob"
  shows "fst (chat_sessions E alice bob eve w) = Some (bytes_of_string demo_plaintext) \<and>
    fst (snd (chat_sessions E alice bob eve w)) = None"
proof -
  let ?a = "new_session E (public_key alice) (secret_key alice) (public_key bob)"
  obtain p a' w' where e: "encrypt_as E ?a Message (bytes_of_string demo_plaintext) w = (p, a', w')" by (metis prod_cases3)
  have "fst (decrypt E (new_session E (public_key bob) (secret_key bob) (public_key alice)) p) = Some (bytes_of_string demo_plaintext)"
    using decrypt_encrypt [OF crypto_lawsD(1,2) [OF assms(1)] paired_new_session [OF assms(1-4)] e] by simp
  moreover have "fst (decrypt E (new_session E (public_key eve) (secret_key eve) (public_key alice)) p) = None"
    using encrypt_as_fields(7) [OF e] assms(5) by (simp add: decrypt_eq gate_def)
  ultimately show ?thesis using e by (simp add: chat_sessions_def encrypt_def Let_def)
qed

theorem chatdemo_end_to_end_witness:
  "let i = (\<lambda>k. \<lparr>public_key = pad 32 [k], secret_key = pad 64 [k]\<rparr>) in
     fst (chat_sessions toy_env (i 1) (i 2) (i 3) toy_world) = Some (bytes_of_string demo_plaintext) \<and>
     fst (snd (chat_sessions toy_env (i 1) (i 2) (i 3) toy_world)) = None"
  using chatdemo_end_to_end [of toy_env "\<lparr>public_key = pad 32 [1], secret_key = pad 64 [1]\<rparr>"
      "\<lparr>public_key = pad 32 [2], secret_key = pad 64 [2]\<rparr>" "\<lparr>public_key = pad 32 [3], secret_key = pad 64 [3]\<rparr>" toy_world]
  by (simp add: new_session_valid Let_def) (simp add: pad_def)

section \<open>The contacts demo\<close>

text \<open>A message before the answer is refused in every network: the demo prints that it is blocked.\<close>

lemma contacts_early_blocked:
  assumes "send_contact_request E p ep g (new_engine pk sk) w = (ok, e, w')"
  shows "\<not> fst (send E p m e w'')"
proof -
  have "trust_of (new_engine pk sk) p = None" by (simp add: trust_of_def new_engine_def default_store_def store_trust_of_def)
  then have "trust_of e p \<noteq> Some Accepted"
    using send_contact_request_eff [OF assms] by (auto simp: trust_of_def trust_change_def)
  then show ?thesis using send_eff [of E p m e w''] by (metis prod.collapse)
qed

lemma version_text:
  "kVersionString = dec_string kVersionMajor @ ''.'' @ dec_string kVersionMinor @ ''.'' @ dec_string kVersionPatch"
  by code_simp

end
