(* ===== verification/QtClient.thy ===== *)
theory QtClient
  imports Engine
begin

text \<open>
  The controller of the graphical client (\<^verbatim>\<open>client/src/bridge/app_controller.cpp\<close>).  Qt's string type is
  the type variable \<open>'q\<close>, its conversions from standard strings and from UTF-8 are arguments, and the
  signals emitted so far are a list.
\<close>

record 'q AppController =
  ac_identity :: Identity
  ac_engine :: Engine
  ac_signals :: "('q \<times> 'q \<times> bool) list"

text \<open>The constructor: a fresh identity, an engine for it, and a message callback.\<close>

definition new_app_controller :: "env \<Rightarrow> world \<Rightarrow> 'q AppController \<times> world" where
  "new_app_controller E w =
     (case generate_identity E w of (i, w) \<Rightarrow>
        (\<lparr>ac_identity = i, ac_engine = on_message (new_engine (public_key i) (secret_key i)), ac_signals = []\<rparr>, w))"

definition ac_received ::
  "(string \<Rightarrow> 'q) \<Rightarrow> (bytes \<Rightarrow> 'q) \<Rightarrow> Message \<Rightarrow> 'q AppController \<Rightarrow> 'q AppController" where
  "ac_received from_std from_utf8 m c =
     c\<lparr>ac_signals := ac_signals c @ [(from_std (to_hex (msg_peer m)), from_utf8 (msg_plaintext m), msg_outgoing m)]\<rparr>"

definition ac_fingerprint :: "(string \<Rightarrow> 'q) \<Rightarrow> env \<Rightarrow> 'q AppController \<Rightarrow> 'q" where
  "ac_fingerprint from_std E c = from_std (fingerprint E (ac_identity c))"

definition ac_send_text :: "'q \<Rightarrow> 'q \<Rightarrow> 'q AppController \<Rightarrow> 'q AppController" where
  "ac_send_text peer text c = c\<lparr>ac_signals := ac_signals c @ [(peer, text, True)]\<rparr>"

text \<open>Text typed into the graphical client is shown, in order, and reaches the engine not at all.\<close>

lemma ac_send_text_all:
  "ac_signals (fold (\<lambda>(p, t). ac_send_text p t) pts c) = ac_signals c @ map (\<lambda>(p, t). (p, t, True)) pts \<and>
   ac_engine (fold (\<lambda>(p, t). ac_send_text p t) pts c) = ac_engine c"
  by (induction pts arbitrary: c) (auto simp: ac_send_text_def)

end
