(* ===== verification/Spec2Isabelle.thy ===== *)
theory Spec2Isabelle
  imports Hex Endpoint IdentityStore Handshake Durable Connectivity Consent TuiConsent Tools QtClient
begin

text \<open>
  A verification of the OpenMesh messenger, an end-to-end encrypted peer-to-peer chat in C++.

  \<^bold>\<open>The program.\<close>  Two peers exchange UDP datagrams.  A datagram is one packet
  (\<^verbatim>\<open>libs/protocol\<close>); its payload is sealed with a key both ends derive from their identities
  (\<^verbatim>\<open>libs/crypto\<close>, \<^verbatim>\<open>libs/messaging/session\<close>).  The engine (\<^verbatim>\<open>libs/messaging/engine\<close>) keeps sessions,
  paths, contacts and requests, and lets a stranger become a contact only by consent.
  Contacts and history live in an encrypted file (\<^verbatim>\<open>libs/storage\<close>).  A signaling server
  (\<^verbatim>\<open>servers/signaling\<close>) tells peers each other's addresses, a relay (\<^verbatim>\<open>servers/relay\<close>) forwards
  packets between peers that cannot reach each other, and \<^verbatim>\<open>cli\<close> has a line client and a
  full-screen client on top of the engine and the signaling client (\<^verbatim>\<open>libs/net\<close>).  \<^verbatim>\<open>tools\<close> has programs
  that put these parts together in one process, \<^verbatim>\<open>client\<close> the beginnings of a Qt client.

  \<^bold>\<open>The theories\<close>, each with the source it models.
  \<^item> \<open>Prelude\<close>, \<open>Codec\<close>: bytes, words, big-endian fields; the interface of an encoder with its decoder.
  \<^item> \<open>Env\<close>: libsodium and the operating system as a record of functions, every call numbered, so
    that a function of the model ranges over all their behaviours; the laws the code relies on, each
    a named predicate; and a concrete environment in which all of them hold.
  \<^item> \<open>Hex\<close> (\<^verbatim>\<open>core/hex.hpp\<close>), \<open>Endpoint\<close> (\<^verbatim>\<open>net/endpoint.hpp\<close>), \<open>Packet\<close> (\<^verbatim>\<open>protocol/packet.cpp\<close>), \<open>Crypto\<close>
    (\<^verbatim>\<open>crypto/src\<close>), \<open>Socket\<close> (\<^verbatim>\<open>net/udp_socket.cpp\<close>), \<open>Blob\<close>, \<open>Store\<close>, \<open>IdentityStore\<close> (\<^verbatim>\<open>storage/src\<close>).
  \<^item> \<open>Session\<close> and \<open>Engine\<close> (\<^verbatim>\<open>messaging/src\<close>), one definition per method; the \<open>_eff\<close> lemmas say
    what each method changes.  The callbacks to the application are an event log.
  \<^item> \<open>Flow\<close>: the abstract contact-flow machine and the refinement; \<open>EngineInv\<close>: the engine's
    invariant and what reaches the wire; \<open>EndToEnd\<close> and \<open>Handshake\<close>: two engines, with messages and with the
    introduction; \<open>Durable\<close>: the engine and its file; \<open>Paths\<close>: where packets are sent.
  \<^item> \<open>Connectivity\<close>: engines, signaling server and relay together, joined by the datagrams they exchange: the
    introduction through the server, hole punching, and becoming contacts through the relay.
  \<^item> \<open>Tables\<close>: the interface of a table whose entries expire, interpreted for the registry and the
    route table; \<open>Signaling\<close> and \<open>Relay\<close>: the two servers, with their run loops and entry points.
  \<^item> \<open>SignalingClient\<close> (\<^verbatim>\<open>net/signaling_client.cpp\<close>) and \<open>Rendezvous\<close>, where it meets the server; \<open>Client\<close>: what
    the two front ends share; \<open>Tui\<close> (\<^verbatim>\<open>cli/src/tui.cpp\<close>) with its lemmas in \<open>TuiCorrect\<close>; \<open>Cli\<close>
    (\<^verbatim>\<open>cli/src/main.cpp\<close>); \<open>Frontend\<close>: the engine as the front ends see it; \<open>Consent\<close> and \<open>TuiConsent\<close>, which
    carry the engine's consent property to what the user types.
  \<^item> \<open>Tools\<close> (\<^verbatim>\<open>tools\<close> and \<^verbatim>\<open>core/logging.cpp\<close>) and \<open>QtClient\<close> (\<^verbatim>\<open>client/src/bridge\<close>).

  \<^bold>\<open>How code becomes definitions.\<close>  A class is a record, a method a function that returns the
  updated record, with the \<open>world\<close> (files, descriptors, sent datagrams, number of calls) threaded
  through; an early return is a branch.  Bytes, ports, counters and lengths on the wire are words of their
  width, times and loop counters are integers.  A hash table is a map, and where it is iterated
  the order is an argument.  Loops are recursive functions; those without a static bound
  (waiting for a packet, draining the socket) are partial functions in which \<open>None\<close> is a call that does not
  return.  The servers' main loops take the
  values their running flag is read as from a list; the two threads of each client are a step relation,
  \<open>chat_step\<close> for the line client and \<open>tui_step\<close> for the full-screen client.  Drawing is the list of ncurses calls.

  \<^bold>\<open>What is shown.\<close>
  \<^item> Packets: parsing accepts exactly the serializations, never reads out of bounds, and reports each error in
    its own situation; the associated data determines the envelope.
  \<^item> Sessions: what one end encrypts the other decrypts, completely and in order; accepted counters strictly
    increase; an accepted packet is authentic.
  \<^item> Engine: every run is a run of the contact-flow machine; a peer becomes accepted only by an action of the local
    user or by an opened store that lists it as accepted; a peer's request is surfaced at most once, and once
    more at most for every store opened after the engine has run; a peer that is not accepted gets no message
    through, and no datagram is processed twice; every session carries the agreed key; all that leaves is sealed or an empty HELLO;
    probing is bounded; a message sent to an accepted contact is delivered; a contact request and its
    answer make two strangers contacts on both sides.
  \<^item> Connectivity: hole punching ends with a confirmed path on both sides after three datagrams; the server's
    introduction makes the target probe the address it names; two strangers become contacts through the relay
    without knowing each other's addresses.
  \<^item> Storage: a file is replaced by renaming a complete temporary one over it, and otherwise keeps its
    content (a flush that fails at close goes unnoticed and loses it); payloads round-trip, and a store or identity is found again; the
    file of an engine is a copy of its contacts, history and requests at every moment.
  \<^item> Servers: a registered key has signed the latest challenge issued to it, in time and from the same address; the handshake registers the observed
    address, also with the client at the other end; the relay forwards verbatim, by the envelope alone, to peers that announced themselves.
  \<^item> Clients: requests return whatever arrives; a typed line reaches the selected chat unchanged; the snapshot
    is well formed; wrapping loses nothing; drawing of printable text stays in the window; the identity survives restarts; the line client
    accepts nobody without a typed line that names the peer, the full-screen client without a key on a shown
    request; a shown request can be decided.
  \<^item> Tools: the persistence demo finds again what it stored; the chat demo's eavesdropper reads nothing.
  \<^item> Behaviours that surprise, each with an example: heartbeats redirect a registration, a forged HELLO
    captures a path, discovery believes any CONNECT, long messages are lost, restarts reset counters, adding a
    peer blocks its request, the selection follows the newest chat, scripted input can be
    lost, a name can be taken over, an answer to a request can be lost for good, a peer that restarts gets no
    answer to its probes, a save whose flush fails is reported as a success, a peer's control characters are
    drawn as they came, a signal that reaches a server before its loop is lost.

  \<^bold>\<open>Interfaces.\<close>  The locales \<open>codec\<close> (fields of the storage format), \<open>transport\<close> (sockets as the servers use
  them), \<open>contact_db\<close> (contacts by key) and \<open>expiring_table\<close> (registry and routes) carry the laws
  that clients of a component rely on; \<open>engine_client\<close> carries what the front ends rely on, a property that
  every operation of the engine keeps, and is interpreted for the consent property and for the
  invariant.  Each is interpreted on the definitions of the component.

  \<^bold>\<open>Hypotheses.\<close>  About libsodium: encryption and decryption are inverse, decryption accepts only
  what was encrypted, signatures verify, key agreement commutes, outputs have their sizes.  About the system:
  \<^verbatim>\<open>recvfrom\<close> fills at most its buffer, the steady clock moves on, key codes of ncurses are distinct, a terminal
  shows a character in at most two columns and the ellipsis in one; and, only where a saved file is found
  again, a disk on which no flush at close fails, which the code does not check.  No hypothesis bounds what the network delivers.

  \<^bold>\<open>Not modelled.\<close>  The calls of the log functions in the servers; the ncurses teardown (\<^verbatim>\<open>endwin\<close>); the
  Qt client's \<^verbatim>\<open>main\<close>, which only starts Qt's event loop; the static assertions on libsodium's sizes; wiping of
  secrets in memory; allocation failure.  The threads of the line client interleave
  step by step; those of the full-screen client by critical sections and keys, and a key that arrives
  during the network thread's work counts as before or after it.  Of what its threads share without a lock,
  only the write of the message line is outside the model.
\<close>

end
